(* ===== verification/Prelude.thy ===== *)
theory Prelude
  imports Main "HOL-Library.Word" "HOL-Library.AList" "HOL-Library.Sublist"
    "HOL-Library.Multiset" "HOL-Library.List_Lexorder" "HOL-Library.Char_ord"
begin

text \<open>
  What every component shares: the names of the model's types, Go errors as values, the
  outcomes of a remote call, the zero-value lookup of Go maps, and the generic lemmas on lists
  and association lists that the component proofs use. The collection \<open>frame_simps\<close> holds
  facts of the form ``operation f does not touch field g''.
\<close>

named_theorems frame_simps \<open>what an operation leaves unchanged\<close>

section \<open>Types\<close>

type_synonym byte = "8 word"
type_synonym bytes = "8 word list"
type_synonym u32 = "32 word"

text \<open>The address of a storage node, as \<open>host:port\<close>.\<close>

type_synonym address = string

text \<open>
  Go's \<open>error\<close> values: a fresh error, an error that wraps another one (\<open>%w\<close>), and the one
  sentinel of \<open>database/sql\<close> that the program tests for. A Go function that returns a value
  and an error is a function into \<open>go_error + 'a\<close>.
\<close>

datatype go_error = Errorf string | Wrapf string go_error | ErrNoRows

fun error_text :: "go_error \<Rightarrow> string" where
  "error_text (Errorf s) = s"
| "error_text (Wrapf s e) = s @ '': '' @ error_text e"
| "error_text ErrNoRows = ''sql: no rows in result set''"

text \<open>
  The outcome of a call to another process (a storage node, PostgreSQL): it arrives and its
  answer returns; it never arrives; or it is carried out, but the caller gets an error because
  the answer is lost or late. The caller cannot tell the last two apart.
\<close>

datatype fault = Deliver | DropRequest | DropReply

section \<open>Go maps\<close>

text \<open>\<open>m[k]\<close> gives the zero value of the element type for a missing key.\<close>

definition map_get :: "'v \<Rightarrow> ('k \<rightharpoonup> 'v) \<Rightarrow> 'k \<Rightarrow> 'v" where
  "map_get zero m k = (case m k of None \<Rightarrow> zero | Some v \<Rightarrow> v)"

lemma map_get_None [simp]: "m k = None \<Longrightarrow> map_get z m k = z"
  by (simp add: map_get_def)

lemma map_get_Some [simp]: "m k = Some v \<Longrightarrow> map_get z m k = v"
  by (simp add: map_get_def)

lemma map_get_upd [simp]: "map_get z (m(k \<mapsto> v)) k' = (if k' = k then v else map_get z m k')"
  by (simp add: map_get_def)

lemma map_get_empty [simp]: "map_get z Map.empty k = z"
  by (simp add: map_get_def)

section \<open>Integers\<close>

text \<open>Go's integer division truncates towards zero.\<close>

definition go_div :: "int \<Rightarrow> int \<Rightarrow> int" where
  "go_div a b = sgn a * sgn b * (\<bar>a\<bar> div \<bar>b\<bar>)"

lemma go_div_nonneg: "0 \<le> a \<Longrightarrow> 0 < b \<Longrightarrow> go_div a b = a div b"
  by (cases "a = 0") (simp_all add: go_div_def)

text \<open>A Go \<open>int\<close> has 64 bits and wraps around.\<close>

definition wrap64 :: "int \<Rightarrow> int" where
  "wrap64 i = (i + 2 ^ 63) mod 2 ^ 64 - 2 ^ 63"

lemma wrap64_id: "- (2 ^ 63) \<le> i \<Longrightarrow> i < 2 ^ 63 \<Longrightarrow> wrap64 i = i"
  by (simp add: wrap64_def)

section \<open>Lists\<close>

text \<open>The first occurrence of every element, in order.\<close>

fun firsts :: "'a list \<Rightarrow> 'a list" where
  "firsts [] = []"
| "firsts (x # xs) = x # filter (\<lambda>y. y \<noteq> x) (firsts xs)"

lemma set_firsts [simp]: "set (firsts xs) = set xs"
  by (induction xs) auto

lemma distinct_firsts [simp]: "distinct (firsts xs)"
  by (induction xs) auto

lemma firsts_id: "distinct xs \<Longrightarrow> firsts xs = xs"
proof (induction xs)
  case (Cons x xs)
  then show ?case by (auto intro!: filter_True)
qed simp

lemma length_firsts [simp]: "length (firsts xs) = card (set xs)"
  by (metis distinct_card distinct_firsts set_firsts)

lemma filter_firsts: "filter P (firsts xs) = firsts (filter P xs)"
proof (induction xs)
  case (Cons x xs)
  have "filter P (filter (\<lambda>y. y \<noteq> x) (firsts xs)) = filter (\<lambda>y. y \<noteq> x) (firsts (filter P xs))"
    by (simp add: Cons.IH [symmetric] conj_commute)
  moreover have "filter (\<lambda>y. y \<noteq> x) (firsts (filter P xs)) = firsts (filter P xs)" if "\<not> P x"
    using that by (auto intro!: filter_True)
  ultimately show ?case by simp
qed simp

text \<open>\<open>take\<close> with a Go \<open>int\<close> as the limit, where a limit that is never met takes everything.\<close>

definition take_limit :: "int \<Rightarrow> 'a list \<Rightarrow> 'a list" where
  "take_limit n xs = (if 0 < n then take (nat n) xs else xs)"

lemma set_take_limit: "set (take_limit n xs) \<subseteq> set xs"
  by (auto simp: take_limit_def dest: in_set_takeD)

lemma distinct_take_limit: "distinct xs \<Longrightarrow> distinct (take_limit n xs)"
  by (simp add: take_limit_def)

lemma length_take_limit:
  "0 < n \<Longrightarrow> length (take_limit n xs) = min (nat n) (length xs)"
  by (simp add: take_limit_def min.commute)

lemma filter_take_prefix: "prefix (filter P (take n xs)) (filter P xs)"
proof -
  have "filter P xs = filter P (take n xs) @ filter P (drop n xs)"
    by (metis append_take_drop_id filter_append)
  then show ?thesis by (rule prefixI)
qed

lemma prefix_shorter:
  assumes "prefix xs zs" "length xs \<le> n"
  shows "prefix xs (take n zs)"
proof -
  from assms(1) obtain ys where "zs = xs @ ys" by (rule prefixE)
  with assms(2) show ?thesis by simp
qed

text \<open>
  An order that the environment picks: \<open>p\<close> is a permutation of the indices, and anything else
  counts as the order of the list. Every reordering of \<open>xs\<close> is a shuffle, and every shuffle is
  a reordering.
\<close>

definition shuffle :: "nat list \<Rightarrow> 'a list \<Rightarrow> 'a list" where
  "shuffle p xs = (if sort p = [0..<length xs] then map ((!) xs) p else xs)"

lemma mset_shuffle [simp]: "mset (shuffle p xs) = mset xs"
proof (cases "sort p = [0..<length xs]")
  case True
  then have "mset p = mset [0..<length xs]" by (metis mset_sort)
  then have "mset (map ((!) xs) p) = mset (map ((!) xs) [0..<length xs])" by (simp only: mset_map)
  then show ?thesis using True by (simp add: shuffle_def map_nth)
qed (simp add: shuffle_def)

lemma set_shuffle [simp]: "set (shuffle p xs) = set xs"
  by (metis mset_shuffle mset_eq_setD)

lemma distinct_shuffle [simp]: "distinct (shuffle p xs) = distinct xs"
  by (metis mset_shuffle mset_eq_imp_distinct_iff)

lemma length_shuffle [simp]: "length (shuffle p xs) = length xs"
  by (metis mset_shuffle size_mset)

lemma fold_invariant:
  "P s \<Longrightarrow> (\<And>x s. P s \<Longrightarrow> P (f x s)) \<Longrightarrow> P (fold f xs s)"
  by (induction xs arbitrary: s) simp_all

lemma set_update_subset: "set (AList.update k v m) \<subseteq> insert (k, v) (set m)"
  by (induction m) auto

lemma sorted_filter_split:
  fixes x :: "'a::linorder"
  assumes "sorted xs" "r \<le> length xs"
    and "\<And>i. i < r \<Longrightarrow> \<not> x \<le> xs ! i" "\<And>i. r \<le> i \<Longrightarrow> i < length xs \<Longrightarrow> x \<le> xs ! i"
  shows "drop r xs = filter (\<lambda>k. x \<le> k) xs" "take r xs = filter (\<lambda>k. \<not> x \<le> k) xs"
proof -
  have t: "\<forall>k \<in> set (take r xs). \<not> x \<le> k"
    using assms(2,3) by (auto simp: in_set_conv_nth)
  have d: "\<forall>k \<in> set (drop r xs). x \<le> k"
    using assms(2,4) by (auto simp: in_set_conv_nth)
  have "filter P xs = filter P (take r xs) @ filter P (drop r xs)" for P
    by (metis append_take_drop_id filter_append)
  moreover have "filter (\<lambda>k. x \<le> k) (take r xs) = []" "filter (\<lambda>k. \<not> x \<le> k) (drop r xs) = []"
    using t d by (auto simp: filter_empty_conv)
  moreover have "filter (\<lambda>k. x \<le> k) (drop r xs) = drop r xs"
    "filter (\<lambda>k. \<not> x \<le> k) (take r xs) = take r xs"
    using t d by (auto intro!: filter_True)
  ultimately show "drop r xs = filter (\<lambda>k. x \<le> k) xs" "take r xs = filter (\<lambda>k. \<not> x \<le> k) xs"
    by simp_all
qed

section \<open>State machines\<close>

text \<open>A property of the states that holds at the start and that every step keeps holds on every run.\<close>

locale state_machine =
  fixes init :: "'s \<Rightarrow> bool" and step :: "'s \<Rightarrow> 's \<Rightarrow> bool" and inv :: "'s \<Rightarrow> bool"
  assumes starts: "init s \<Longrightarrow> inv s"
    and keeps_inv: "step s s' \<Longrightarrow> inv s \<Longrightarrow> inv s'"
begin

lemma run_inv: "step\<^sup>*\<^sup>* s s' \<Longrightarrow> inv s \<Longrightarrow> inv s'"
  by (induction rule: rtranclp_induct) (auto intro: keeps_inv)

lemma reachable_inv: "init s \<Longrightarrow> step\<^sup>*\<^sup>* s s' \<Longrightarrow> inv s'"
  using run_inv starts by blast

end

text \<open>Runs of a labelled step relation, and what carries them over to a specification.\<close>

inductive trace :: "('e \<Rightarrow> 's \<Rightarrow> 's \<Rightarrow> bool) \<Rightarrow> 'e list \<Rightarrow> 's \<Rightarrow> 's \<Rightarrow> bool" for does where
  trace_nil: "trace does [] s s"
| trace_snoc: "trace does es s s' \<Longrightarrow> does e s' s'' \<Longrightarrow> trace does (es @ [e]) s s''"

lemma trace_one: "does e s s' \<Longrightarrow> trace does [e] s s'"
  using trace_snoc [where es = "[]", OF trace_nil] by simp

lemma trace_two: "does e s s' \<Longrightarrow> does e' s' s'' \<Longrightarrow> trace does [e, e'] s s''"
  using trace_snoc [where es = "[e]", OF trace_one] by simp

lemma trace_append:
  assumes "trace does es' s' s''" "trace does es s s'"
  shows "trace does (es @ es') s s''"
  using assms
proof (induction rule: trace.induct)
  case (trace_snoc es' s' t e u)
  from trace.trace_snoc [OF trace_snoc.IH [OF trace_snoc.prems] trace_snoc.hyps(2)] show ?case by simp
qed simp

locale simulation =
  fixes does :: "'e \<Rightarrow> 's \<Rightarrow> 's \<Rightarrow> bool" and spec :: "'l \<Rightarrow> 'a \<Rightarrow> 'a \<Rightarrow> bool"
    and inv :: "'s \<Rightarrow> bool" and fair :: "'e \<Rightarrow> bool" and label :: "'e \<Rightarrow> 'l" and abs :: "'s \<Rightarrow> 'a"
  assumes does_inv: "does e s s' \<Longrightarrow> inv s \<Longrightarrow> inv s'"
    and simulates: "does e s s' \<Longrightarrow> inv s \<Longrightarrow> fair e \<Longrightarrow> spec (label e) (abs s) (abs s')"
begin

lemma trace_simulates:
  assumes "trace does es s s'" "inv s" "\<forall>e \<in> set es. fair e"
  shows "inv s' \<and> trace spec (map label es) (abs s) (abs s')"
  using assms
proof (induction rule: trace.induct)
  case (trace_snoc es s s' e s'')
  then have "inv s'" "trace spec (map label es) (abs s) (abs s')" by simp_all
  with trace_snoc.hyps(2) trace_snoc.prems(2) does_inv simulates show ?case by (auto intro: trace.trace_snoc)
qed (simp add: trace_nil)

end

end
