(* ===== verification/GoLib.thy ===== *)
theory GoLib imports Prelude begin

text \<open>
  The parts of Go's standard library that the program calls and that are not about
  cryptography, JSON or HTTP: decimal and hexadecimal numerals and \<open>sort.Search\<close>.
\<close>

section \<open>Decimal numerals: \<open>fmt.Sprintf("%d")\<close>\<close>

definition dec_digit :: "nat \<Rightarrow> char" where
  "dec_digit d = ''0123456789'' ! d"

fun dec :: "nat \<Rightarrow> string" where
  "dec n = (if n < 10 then [dec_digit n] else dec (n div 10) @ [dec_digit (n mod 10)])"

declare dec.simps [simp del]

lemma set_10: "{d. d < (10::nat)} = set [0,1,2,3,4,5,6,7,8,9]"
  by auto

lemma dec_digit_inj: "d < 10 \<Longrightarrow> e < 10 \<Longrightarrow> dec_digit d = dec_digit e \<Longrightarrow> d = e"
proof -
  assume "d < 10" "e < 10" and eq: "dec_digit d = dec_digit e"
  then have "d \<in> set [0,1,2,3,4,5,6,7,8,9]" "e \<in> set [0,1,2,3,4,5,6,7,8,9]"
    using set_10 by blast+
  with eq show ?thesis by (auto simp: dec_digit_def)
qed

lemma dec_digit_range: "d < 10 \<Longrightarrow> dec_digit d \<in> set ''0123456789''"
  unfolding dec_digit_def by (rule nth_mem) simp

lemma dec_not_Nil [simp]: "dec n \<noteq> []"
  by (subst dec.simps) simp

lemma dec_small: "n < 10 \<Longrightarrow> dec n = [dec_digit n]"
  by (subst dec.simps) simp

lemma dec_large: "\<not> n < 10 \<Longrightarrow> dec n = dec (n div 10) @ [dec_digit (n mod 10)]"
  by (subst dec.simps) simp

lemma set_dec: "set (dec n) \<subseteq> set ''0123456789''"
proof (induction n rule: dec.induct)
  case (1 n)
  show ?case
  proof (cases "n < 10")
    case True
    then show ?thesis using dec_digit_range [of n] by (simp only: dec_small) simp
  next
    case False
    then have "set (dec n) = insert (dec_digit (n mod 10)) (set (dec (n div 10)))"
      by (simp add: dec_large)
    with "1.IH" [OF False] dec_digit_range [of "n mod 10"] show ?thesis by simp
  qed
qed

lemma dec_length_1: "length (dec n) = 1 \<longleftrightarrow> n < 10"
  by (cases "n < 10") (simp_all add: dec_small dec_large)

lemma dec_inj: "dec m = dec n \<Longrightarrow> m = n"
proof (induction m arbitrary: n rule: dec.induct)
  case (1 m)
  show ?case
  proof (cases "m < 10")
    case True
    with "1.prems" have "n < 10" by (metis dec_length_1)
    with True "1.prems" show ?thesis by (simp add: dec_small dec_digit_inj)
  next
    case False
    with "1.prems" have n: "\<not> n < 10" by (metis dec_length_1)
    with False "1.prems" have "dec (m div 10) = dec (n div 10)"
      and "dec_digit (m mod 10) = dec_digit (n mod 10)"
      using dec_large [of m] dec_large [of n] by simp_all
    then have "m div 10 = n div 10" "m mod 10 = n mod 10"
      using "1.IH" [OF False] dec_digit_inj [of "m mod 10" "n mod 10"] by simp_all
    then show ?thesis by (metis div_mult_mod_eq)
  qed
qed

section \<open>\<open>sort.Search\<close>\<close>

text \<open>
  Binary search for the least index at which \<open>f\<close> holds. (The midpoint is computed as
  \<open>int(uint(i+j) >> 1)\<close>, which is the integer half.)
\<close>

function search_loop :: "(nat \<Rightarrow> bool) \<Rightarrow> nat \<Rightarrow> nat \<Rightarrow> nat" where
  "search_loop f i j =
     (if i < j
      then let h = (i + j) div 2
           in if \<not> f h then search_loop f (Suc h) j else search_loop f i h
      else i)"
  by pat_completeness auto
termination
  by (relation "measure (\<lambda>(f, i, j). j - i)") auto

declare search_loop.simps [simp del]

definition sort_Search :: "nat \<Rightarrow> (nat \<Rightarrow> bool) \<Rightarrow> nat" where
  "sort_Search n f = search_loop f 0 n"

lemma search_loop_step:
  "i < j \<Longrightarrow> search_loop f i j =
     (if \<not> f ((i + j) div 2) then search_loop f (Suc ((i + j) div 2)) j
      else search_loop f i ((i + j) div 2))"
  by (subst search_loop.simps) (simp add: Let_def)

lemma search_loop_done: "\<not> i < j \<Longrightarrow> search_loop f i j = i"
  by (subst search_loop.simps) simp

lemma search_loop_correct:
  assumes mono: "\<And>a b. a \<le> b \<Longrightarrow> b < n \<Longrightarrow> f a \<Longrightarrow> f b"
    and "i \<le> j" "j \<le> n" "\<forall>k < i. \<not> f k" "\<forall>k. j \<le> k \<and> k < n \<longrightarrow> f k"
  shows "\<exists>r. search_loop f i j = r \<and> r \<le> n \<and> (\<forall>k < r. \<not> f k) \<and> (\<forall>k. r \<le> k \<and> k < n \<longrightarrow> f k)"
  using assms(2-)
proof (induction "j - i" arbitrary: i j rule: less_induct)
  case less
  show ?case
  proof (cases "i < j")
    case True
    let ?h = "(i + j) div 2"
    from True have h: "i \<le> ?h" "?h < j" by auto
    show ?thesis
    proof (cases "f ?h")
      case False
      have low: "\<forall>k < Suc ?h. \<not> f k"
        using mono [of _ ?h] False h less.prems(2) by (metis less_Suc_eq_le order_less_le_trans)
      have "j - Suc ?h < j - i" using h by simp
      from less.hyps [OF this] low h less.prems False True show ?thesis
        by (simp add: search_loop_step)
    next
      case fh: True
      have high: "\<forall>k. ?h \<le> k \<and> k < n \<longrightarrow> f k"
        using mono [OF _ _ fh] by blast
      have "?h - i < j - i" using h by simp
      from less.hyps [OF this] high h less.prems fh True show ?thesis
        by (simp add: search_loop_step)
    qed
  next
    case False
    with less.prems show ?thesis by (auto simp: search_loop_done)
  qed
qed

lemma sort_Search_correct:
  assumes "\<forall>a b. a \<le> b \<and> b < n \<and> f a \<longrightarrow> f b"
  shows "sort_Search n f \<le> n" "k < sort_Search n f \<Longrightarrow> \<not> f k"
    "sort_Search n f \<le> k \<Longrightarrow> k < n \<Longrightarrow> f k"
proof -
  have "\<exists>r. search_loop f 0 n = r \<and> r \<le> n \<and> (\<forall>k < r. \<not> f k) \<and> (\<forall>k. r \<le> k \<and> k < n \<longrightarrow> f k)"
    by (rule search_loop_correct) (use assms in auto)
  then show "sort_Search n f \<le> n" "k < sort_Search n f \<Longrightarrow> \<not> f k"
    "sort_Search n f \<le> k \<Longrightarrow> k < n \<Longrightarrow> f k"
    by (auto simp: sort_Search_def)
qed


section \<open>Hexadecimal: \<open>encoding/hex\<close>\<close>

definition hex_digit :: "nat \<Rightarrow> char" where
  "hex_digit d = ''0123456789abcdef'' ! d"

definition hex_EncodeToString :: "bytes \<Rightarrow> string" where
  "hex_EncodeToString bs = concat (map (\<lambda>b. [hex_digit (unat b div 16), hex_digit (unat b mod 16)]) bs)"

lemma hex_digit_range: "d < 16 \<Longrightarrow> hex_digit d \<in> set ''0123456789abcdef''"
  unfolding hex_digit_def by (rule nth_mem) simp

lemma set_hex: "set (hex_EncodeToString bs) \<subseteq> set ''0123456789abcdef''"
proof -
  have "hex_digit (unat b div 16) \<in> set ''0123456789abcdef''"
    "hex_digit (unat b mod 16) \<in> set ''0123456789abcdef''" for b :: byte
  proof -
    have "unat b < 256" using unsigned_less [where 'a = nat, of b] by simp
    then show "hex_digit (unat b div 16) \<in> set ''0123456789abcdef''"
      "hex_digit (unat b mod 16) \<in> set ''0123456789abcdef''"
      by (intro hex_digit_range; simp)+
  qed
  then show ?thesis unfolding hex_EncodeToString_def by auto
qed

lemma length_hex [simp]: "length (hex_EncodeToString bs) = 2 * length bs"
  by (induction bs) (simp_all add: hex_EncodeToString_def)

end
