(* ===== verification/GoCrypto.thy ===== *)
theory GoCrypto imports Prelude begin

text \<open>
  The parts of Go's crypto packages that the program calls, written out from the published
  standards: \<open>crypto/sha256\<close> (FIPS 180-4), \<open>crypto/aes\<close> (FIPS 197, for the three key sizes
  that \<open>aes.NewCipher\<close> accepts) and \<open>crypto/cipher\<close>'s GCM mode (NIST SP 800-38D, with the
  12 byte nonce and the 16 byte tag that \<open>cipher.NewGCM\<close> fixes).
  All of it is executable; the proofs about the program use only the facts at the end of each
  section: the length of a digest, the length of a block, and that opening a sealed message
  gives the message back.
\<close>

unbundle bit_operations_syntax

section \<open>Cutting a byte string into blocks\<close>

function blocks_of :: "nat \<Rightarrow> 'a list \<Rightarrow> 'a list list" where
  "blocks_of n xs =
     (if n = 0 \<or> xs = [] then [] else take n xs # blocks_of n (drop n xs))"
  by pat_completeness auto
termination
  by (relation "measure (\<lambda>(n, xs). length xs)") auto

declare blocks_of.simps [simp del]

lemma blocks_of_Nil [simp]: "blocks_of n [] = []"
  by (simp add: blocks_of.simps)

lemma blocks_of_step:
  "n > 0 \<Longrightarrow> xs \<noteq> [] \<Longrightarrow> blocks_of n xs = take n xs # blocks_of n (drop n xs)"
  by (subst blocks_of.simps) simp

lemma concat_blocks_of: "n > 0 \<Longrightarrow> concat (blocks_of n xs) = xs"
proof (induction n xs rule: blocks_of.induct)
  case (1 n xs)
  then show ?case
    by (cases "xs = []") (simp_all add: blocks_of_step)
qed

section \<open>SHA-256\<close>

definition ROTR :: "nat \<Rightarrow> u32 \<Rightarrow> u32" where
  "ROTR n x = drop_bit n x OR push_bit (32 - n) x"

definition big_sigma0 :: "u32 \<Rightarrow> u32" where
  "big_sigma0 x = ROTR 2 x XOR ROTR 13 x XOR ROTR 22 x"

definition big_sigma1 :: "u32 \<Rightarrow> u32" where
  "big_sigma1 x = ROTR 6 x XOR ROTR 11 x XOR ROTR 25 x"

definition small_sigma0 :: "u32 \<Rightarrow> u32" where
  "small_sigma0 x = ROTR 7 x XOR ROTR 18 x XOR drop_bit 3 x"

definition small_sigma1 :: "u32 \<Rightarrow> u32" where
  "small_sigma1 x = ROTR 17 x XOR ROTR 19 x XOR drop_bit 10 x"

definition Ch :: "u32 \<Rightarrow> u32 \<Rightarrow> u32 \<Rightarrow> u32" where
  "Ch x y z = (x AND y) XOR (NOT x AND z)"

definition Maj :: "u32 \<Rightarrow> u32 \<Rightarrow> u32 \<Rightarrow> u32" where
  "Maj x y z = (x AND y) XOR (x AND z) XOR (y AND z)"

definition sha256_K :: "u32 list" where
  "sha256_K =
    [1116352408, 1899447441, 3049323471, 3921009573, 961987163, 1508970993, 2453635748,
     2870763221, 3624381080, 310598401, 607225278, 1426881987, 1925078388, 2162078206,
     2614888103, 3248222580, 3835390401, 4022224774, 264347078, 604807628, 770255983,
     1249150122, 1555081692, 1996064986, 2554220882, 2821834349, 2952996808, 3210313671,
     3336571891, 3584528711, 113926993, 338241895, 666307205, 773529912, 1294757372,
     1396182291, 1695183700, 1986661051, 2177026350, 2456956037, 2730485921, 2820302411,
     3259730800, 3345764771, 3516065817, 3600352804, 4094571909, 275423344, 430227734,
     506948616, 659060556, 883997877, 958139571, 1322822218, 1537002063, 1747873779,
     1955562222, 2024104815, 2227730452, 2361852424, 2428436474, 2756734187, 3204031479,
     3329325298]"

type_synonym sha_state = "u32 \<times> u32 \<times> u32 \<times> u32 \<times> u32 \<times> u32 \<times> u32 \<times> u32"

definition sha256_H0 :: sha_state where
  "sha256_H0 = (0x6a09e667, 0xbb67ae85, 0x3c6ef372, 0xa54ff53a,
                0x510e527f, 0x9b05688c, 0x1f83d9ab, 0x5be0cd19)"

text \<open>One round, with \<open>kw\<close> the sum of the round's constant and schedule word.\<close>

fun sha_round :: "sha_state \<Rightarrow> u32 \<Rightarrow> sha_state" where
  "sha_round (a, b, c, d, e, f, g, h) kw =
     (let t1 = h + big_sigma1 e + Ch e f g + kw; t2 = big_sigma0 a + Maj a b c
      in (t1 + t2, a, b, c, d + t1, e, f, g))"

text \<open>
  The message schedule is kept as a window of sixteen words, whose head is the word of the
  current round.
\<close>

definition sha_window :: "u32 list \<Rightarrow> u32 list" where
  "sha_window w =
     tl w @ [small_sigma1 (w ! 14) + w ! 9 + small_sigma0 (w ! 1) + w ! 0]"

fun sha_rounds :: "u32 list \<Rightarrow> u32 list \<Rightarrow> sha_state \<Rightarrow> sha_state" where
  "sha_rounds [] w s = s"
| "sha_rounds (k # ks) w s = sha_rounds ks (sha_window w) (sha_round s (k + w ! 0))"

fun sha_add :: "sha_state \<Rightarrow> sha_state \<Rightarrow> sha_state" where
  "sha_add (a, b, c, d, e, f, g, h) (a', b', c', d', e', f', g', h') =
     (a + a', b + b', c + c', d + d', e + e', f + f', g + g', h + h')"

definition BigEndian_Uint32 :: "bytes \<Rightarrow> u32" where
  "BigEndian_Uint32 b =
     push_bit 24 (ucast (b ! 0)) OR push_bit 16 (ucast (b ! 1)) OR
     push_bit 8 (ucast (b ! 2)) OR ucast (b ! 3)"

definition BigEndian_PutUint32 :: "u32 \<Rightarrow> bytes" where
  "BigEndian_PutUint32 w =
     [ucast (drop_bit 24 w), ucast (drop_bit 16 w), ucast (drop_bit 8 w), ucast w]"

definition sha_block :: "bytes \<Rightarrow> sha_state \<Rightarrow> sha_state" where
  "sha_block b s =
     sha_add s (sha_rounds sha256_K (map BigEndian_Uint32 (blocks_of 4 b)) s)"

definition PutUint64 :: "nat \<Rightarrow> bytes" where
  "PutUint64 n = map (\<lambda>k. word_of_nat (n div 256 ^ (7 - k))) [0..<8]"

definition sha_pad :: "bytes \<Rightarrow> bytes" where
  "sha_pad m =
     m @ [0x80] @ replicate (nat ((55 - int (length m)) mod 64)) 0 @ PutUint64 (8 * length m)"

fun sha_digest :: "sha_state \<Rightarrow> bytes" where
  "sha_digest (a, b, c, d, e, f, g, h) =
     concat (map BigEndian_PutUint32 [a, b, c, d, e, f, g, h])"

definition sha256_Sum256 :: "bytes \<Rightarrow> bytes" where
  "sha256_Sum256 m = sha_digest (fold sha_block (blocks_of 64 (sha_pad m)) sha256_H0)"

lemma length_sha_digest: "length (sha_digest s) = 32"
  by (cases s rule: sha_digest.cases) (simp add: BigEndian_PutUint32_def)

lemma length_sha256 [simp]: "length (sha256_Sum256 m) = 32"
  by (simp add: sha256_Sum256_def length_sha_digest)

section \<open>AES\<close>

text \<open>A state is its sixteen bytes column by column, as the input block holds them.\<close>

definition aes_sbox :: "byte list" where
  "aes_sbox =
    [0x63, 0x7c, 0x77, 0x7b, 0xf2, 0x6b, 0x6f, 0xc5, 0x30, 0x01, 0x67, 0x2b, 0xfe, 0xd7, 0xab, 0x76,
     0xca, 0x82, 0xc9, 0x7d, 0xfa, 0x59, 0x47, 0xf0, 0xad, 0xd4, 0xa2, 0xaf, 0x9c, 0xa4, 0x72, 0xc0,
     0xb7, 0xfd, 0x93, 0x26, 0x36, 0x3f, 0xf7, 0xcc, 0x34, 0xa5, 0xe5, 0xf1, 0x71, 0xd8, 0x31, 0x15,
     0x04, 0xc7, 0x23, 0xc3, 0x18, 0x96, 0x05, 0x9a, 0x07, 0x12, 0x80, 0xe2, 0xeb, 0x27, 0xb2, 0x75,
     0x09, 0x83, 0x2c, 0x1a, 0x1b, 0x6e, 0x5a, 0xa0, 0x52, 0x3b, 0xd6, 0xb3, 0x29, 0xe3, 0x2f, 0x84,
     0x53, 0xd1, 0x00, 0xed, 0x20, 0xfc, 0xb1, 0x5b, 0x6a, 0xcb, 0xbe, 0x39, 0x4a, 0x4c, 0x58, 0xcf,
     0xd0, 0xef, 0xaa, 0xfb, 0x43, 0x4d, 0x33, 0x85, 0x45, 0xf9, 0x02, 0x7f, 0x50, 0x3c, 0x9f, 0xa8,
     0x51, 0xa3, 0x40, 0x8f, 0x92, 0x9d, 0x38, 0xf5, 0xbc, 0xb6, 0xda, 0x21, 0x10, 0xff, 0xf3, 0xd2,
     0xcd, 0x0c, 0x13, 0xec, 0x5f, 0x97, 0x44, 0x17, 0xc4, 0xa7, 0x7e, 0x3d, 0x64, 0x5d, 0x19, 0x73,
     0x60, 0x81, 0x4f, 0xdc, 0x22, 0x2a, 0x90, 0x88, 0x46, 0xee, 0xb8, 0x14, 0xde, 0x5e, 0x0b, 0xdb,
     0xe0, 0x32, 0x3a, 0x0a, 0x49, 0x06, 0x24, 0x5c, 0xc2, 0xd3, 0xac, 0x62, 0x91, 0x95, 0xe4, 0x79,
     0xe7, 0xc8, 0x37, 0x6d, 0x8d, 0xd5, 0x4e, 0xa9, 0x6c, 0x56, 0xf4, 0xea, 0x65, 0x7a, 0xae, 0x08,
     0xba, 0x78, 0x25, 0x2e, 0x1c, 0xa6, 0xb4, 0xc6, 0xe8, 0xdd, 0x74, 0x1f, 0x4b, 0xbd, 0x8b, 0x8a,
     0x70, 0x3e, 0xb5, 0x66, 0x48, 0x03, 0xf6, 0x0e, 0x61, 0x35, 0x57, 0xb9, 0x86, 0xc1, 0x1d, 0x9e,
     0xe1, 0xf8, 0x98, 0x11, 0x69, 0xd9, 0x8e, 0x94, 0x9b, 0x1e, 0x87, 0xe9, 0xce, 0x55, 0x28, 0xdf,
     0x8c, 0xa1, 0x89, 0x0d, 0xbf, 0xe6, 0x42, 0x68, 0x41, 0x99, 0x2d, 0x0f, 0xb0, 0x54, 0xbb, 0x16]"

definition SubByte :: "byte \<Rightarrow> byte" where
  "SubByte b = aes_sbox ! unat b"

definition xtime :: "byte \<Rightarrow> byte" where
  "xtime b = push_bit 1 b XOR (if bit b 7 then 0x1b else 0)"

definition xor_bytes :: "bytes \<Rightarrow> bytes \<Rightarrow> bytes" where
  "xor_bytes xs ys = map2 (XOR) xs ys"

definition ShiftRows :: "bytes \<Rightarrow> bytes" where
  "ShiftRows s = map (\<lambda>i. s ! ((i + 4 * (i mod 4)) mod 16)) [0..<16]"

definition MixColumn :: "bytes \<Rightarrow> bytes" where
  "MixColumn c = map (\<lambda>r.
     xtime (c ! r) XOR (xtime (c ! ((r + 1) mod 4)) XOR c ! ((r + 1) mod 4)) XOR
     c ! ((r + 2) mod 4) XOR c ! ((r + 3) mod 4)) [0..<4]"

definition MixColumns :: "bytes \<Rightarrow> bytes" where
  "MixColumns s = concat (map MixColumn (blocks_of 4 s))"

text \<open>The key schedule: \<open>Nk\<close> words of key give \<open>4 (Nk + 7)\<close> words.\<close>

definition aes_rcon :: "nat \<Rightarrow> byte" where
  "aes_rcon i = (xtime ^^ (i - 1)) 1"

definition key_word :: "nat \<Rightarrow> bytes list \<Rightarrow> nat \<Rightarrow> bytes" where
  "key_word nk ws i =
     (let prev = ws ! (i - 1);
          temp = (if i mod nk = 0
                  then xor_bytes (map SubByte (rotate1 prev)) [aes_rcon (i div nk), 0, 0, 0]
                  else if 6 < nk \<and> i mod nk = 4 then map SubByte prev
                  else prev)
      in xor_bytes (ws ! (i - nk)) temp)"

definition KeyExpansion :: "bytes \<Rightarrow> bytes list" where
  "KeyExpansion key =
     (let nk = length key div 4
      in fold (\<lambda>i ws. ws @ [key_word nk ws i]) [nk..<4 * (nk + 7)] (blocks_of 4 key))"

definition aes_round_key :: "bytes list \<Rightarrow> nat \<Rightarrow> bytes" where
  "aes_round_key ws r = concat (take 4 (drop (4 * r) ws))"

definition aes_Encrypt :: "bytes \<Rightarrow> bytes \<Rightarrow> bytes" where
  "aes_Encrypt key block =
     (let ws = KeyExpansion key;
          nr = length key div 4 + 6;
          s = fold (\<lambda>r s. xor_bytes (MixColumns (ShiftRows (map SubByte s))) (aes_round_key ws r))
                [1..<nr] (xor_bytes block (aes_round_key ws 0))
      in xor_bytes (ShiftRows (map SubByte s)) (aes_round_key ws nr))"

text \<open>\<open>aes.NewCipher\<close> accepts keys of 16, 24 and 32 bytes and no other.\<close>

definition aes_key_ok :: "bytes \<Rightarrow> bool" where
  "aes_key_ok key \<longleftrightarrow> length key = 16 \<or> length key = 24 \<or> length key = 32"

section \<open>GCM\<close>

definition gcm_NonceSize :: nat where
  "gcm_NonceSize = 12"

definition gcm_TagSize :: nat where
  "gcm_TagSize = 16"

type_synonym block128 = "128 word"

definition block_word :: "bytes \<Rightarrow> block128" where
  "block_word bs = foldl (\<lambda>w b. push_bit 8 w OR ucast b) 0 bs"

definition word_block :: "block128 \<Rightarrow> bytes" where
  "word_block w = map (\<lambda>i. ucast (drop_bit (8 * (15 - i)) w)) [0..<16]"

text \<open>Multiplication in the field of GCM, whose bit 0 is the most significant one.\<close>

definition gf_mult :: "block128 \<Rightarrow> block128 \<Rightarrow> block128" where
  "gf_mult x y =
     fst (fold (\<lambda>i (z, v).
            (if bit x (127 - i) then z XOR v else z,
             if bit v 0 then drop_bit 1 v XOR push_bit 120 0xe1 else drop_bit 1 v))
          [0..<128] (0, y))"

definition ghash :: "block128 \<Rightarrow> bytes \<Rightarrow> block128" where
  "ghash h bs = fold (\<lambda>b y. gf_mult (y XOR block_word b) h) (blocks_of 16 bs) 0"

definition pad16 :: "bytes \<Rightarrow> bytes" where
  "pad16 bs = bs @ replicate (nat ((- int (length bs)) mod 16)) 0"

definition gcm_counter :: "bytes \<Rightarrow> nat \<Rightarrow> bytes" where
  "gcm_counter nonce c = nonce @ BigEndian_PutUint32 (word_of_nat c)"

text \<open>Counter 1 masks the tag, counters from 2 on encrypt the message.\<close>

definition gcm_crypt :: "bytes \<Rightarrow> bytes \<Rightarrow> bytes \<Rightarrow> bytes" where
  "gcm_crypt key nonce m =
     concat (map (\<lambda>(i, b). xor_bytes b (aes_Encrypt key (gcm_counter nonce (i + 2))))
       (enumerate 0 (blocks_of 16 m)))"

definition gcm_tag :: "bytes \<Rightarrow> bytes \<Rightarrow> bytes \<Rightarrow> bytes" where
  "gcm_tag key nonce c =
     xor_bytes
       (word_block (ghash (block_word (aes_Encrypt key (replicate 16 0)))
          (pad16 c @ PutUint64 0 @ PutUint64 (8 * length c))))
       (aes_Encrypt key (gcm_counter nonce 1))"

text \<open>
  \<open>Seal\<close> appends the ciphertext and its tag to \<open>dst\<close>; \<open>Open\<close> recomputes the tag before it
  decrypts. The program passes no additional data.
\<close>

definition gcm_Seal :: "bytes \<Rightarrow> bytes \<Rightarrow> bytes \<Rightarrow> bytes \<Rightarrow> bytes" where
  "gcm_Seal key dst nonce plaintext =
     (let c = gcm_crypt key nonce plaintext in dst @ c @ gcm_tag key nonce c)"

definition gcm_Open :: "bytes \<Rightarrow> bytes \<Rightarrow> bytes \<Rightarrow> bytes option" where
  "gcm_Open key nonce sealed =
     (if length sealed < gcm_TagSize then None
      else let c = take (length sealed - gcm_TagSize) sealed;
               tag = drop (length sealed - gcm_TagSize) sealed
           in if tag = gcm_tag key nonce c then Some (gcm_crypt key nonce c) else None)"

section \<open>Lengths, and opening what was sealed\<close>

lemma length_xor_bytes [simp]: "length (xor_bytes xs ys) = min (length xs) (length ys)"
  by (simp add: xor_bytes_def)

lemma xor_bytes_Nil [simp]: "xor_bytes [] ys = []"
  by (simp add: xor_bytes_def)

lemma xor_bytes_cancel: "length xs \<le> length ys \<Longrightarrow> xor_bytes (xor_bytes xs ys) ys = xs"
proof (induction xs arbitrary: ys)
  case Nil
  then show ?case by simp
next
  case (Cons x xs)
  then obtain y ys' where "ys = y # ys'" by (cases ys) auto
  with Cons show ?case by (simp add: xor_bytes_def xor.assoc)
qed

lemma blocks_of_lengths:
  "k > 0 \<Longrightarrow> length xs = k * n \<Longrightarrow> b \<in> set (blocks_of k xs) \<Longrightarrow> length b = k"
proof (induction n arbitrary: xs)
  case 0
  then show ?case by simp
next
  case (Suc n)
  then have "xs \<noteq> []" by auto
  with Suc.prems have b: "b = take k xs \<or> b \<in> set (blocks_of k (drop k xs))"
    by (simp add: blocks_of_step)
  from Suc.prems have "length (drop k xs) = k * n" by simp
  with b Suc.IH [of "drop k xs"] Suc.prems show ?case by auto
qed

lemma length_blocks_of: "k > 0 \<Longrightarrow> length xs = k * n \<Longrightarrow> length (blocks_of k xs) = n"
proof (induction n arbitrary: xs)
  case 0
  then show ?case by simp
next
  case (Suc n)
  then have "xs \<noteq> []" by auto
  with Suc show ?case by (simp add: blocks_of_step)
qed

lemma length_MixColumn [simp]: "length (MixColumn c) = 4"
  by (simp add: MixColumn_def)

lemma length_MixColumns: "length s = 16 \<Longrightarrow> length (MixColumns s) = 16"
proof -
  assume "length s = 16"
  then have "length (blocks_of 4 s) = 4" by (simp add: length_blocks_of)
  then show ?thesis
    by (simp add: MixColumns_def length_concat comp_def sum_list_triv)
qed

lemma length_ShiftRows [simp]: "length (ShiftRows s) = 16"
  by (simp add: ShiftRows_def)

definition words4 :: "nat \<Rightarrow> bytes list \<Rightarrow> bool" where
  "words4 n ws \<longleftrightarrow> length ws = n \<and> (\<forall>w \<in> set ws. length w = 4)"

lemma words4_step:
  assumes "words4 i ws" "0 < nk" "nk \<le> i"
  shows "words4 (Suc i) (ws @ [key_word nk ws i])"
proof -
  from assms have "length (ws ! (i - 1)) = 4" "length (ws ! (i - nk)) = 4"
    by (simp_all add: words4_def)
  then have "length (key_word nk ws i) = 4"
    by (simp add: key_word_def Let_def)
  with assms(1) show ?thesis by (auto simp: words4_def)
qed

lemma words4_fold:
  assumes "0 < nk" "words4 nk ws" "nk \<le> n"
  shows "words4 n (fold (\<lambda>i ws. ws @ [key_word nk ws i]) [nk..<n] ws)"
  using assms(3)
proof (induction n rule: dec_induct)
  case base
  with assms show ?case by simp
next
  case (step n)
  then show ?case
    using assms(1) by (simp add: words4_step)
qed

lemma words4_KeyExpansion:
  assumes "aes_key_ok key"
  shows "words4 (4 * (length key div 4 + 7)) (KeyExpansion key)"
proof -
  let ?nk = "length key div 4"
  have nk: "0 < ?nk" "length key = 4 * ?nk" using assms by (auto simp: aes_key_ok_def)
  have "length (blocks_of 4 key) = ?nk"
    by (rule length_blocks_of [OF _ nk(2)]) simp
  moreover have "\<forall>w \<in> set (blocks_of 4 key). length w = 4"
    using blocks_of_lengths [OF _ nk(2)] by simp
  ultimately have "words4 ?nk (blocks_of 4 key)"
    by (simp only: words4_def)
  then have "words4 (4 * (?nk + 7))
      (fold (\<lambda>i ws. ws @ [key_word ?nk ws i]) [?nk..<4 * (?nk + 7)] (blocks_of 4 key))"
    by (rule words4_fold [OF nk(1)]) simp
  then show ?thesis
    by (simp only: KeyExpansion_def Let_def)
qed

lemma length_aes_round_key:
  assumes "words4 n ws" "4 * r + 4 \<le> n"
  shows "length (aes_round_key ws r) = 16"
proof -
  let ?l = "take 4 (drop (4 * r) ws)"
  have "\<forall>w \<in> set ?l. length w = 4"
    using assms(1) by (auto simp: words4_def dest: in_set_takeD in_set_dropD)
  then have "map length ?l = map (\<lambda>_. 4) ?l" by simp
  then have "length (concat ?l) = 4 * length ?l"
    by (simp only: length_concat) (simp add: sum_list_triv)
  with assms show ?thesis by (simp add: aes_round_key_def words4_def)
qed

lemma length_aes_Encrypt:
  assumes key: "aes_key_ok key" and block: "length block = 16"
  shows "length (aes_Encrypt key block) = 16"
proof -
  let ?ws = "KeyExpansion key" and ?nr = "length key div 4 + 6"
  have rk: "length (aes_round_key ?ws r) = 16" if "r \<le> ?nr" for r
    using length_aes_round_key [OF words4_KeyExpansion [OF key]] that by simp
  then show ?thesis
    by (simp add: aes_Encrypt_def Let_def)
qed

definition gcm_crypt_from :: "bytes \<Rightarrow> bytes \<Rightarrow> nat \<Rightarrow> bytes \<Rightarrow> bytes" where
  "gcm_crypt_from key nonce n m =
     concat (map (\<lambda>(i, b). xor_bytes b (aes_Encrypt key (gcm_counter nonce (i + 2))))
       (enumerate n (blocks_of 16 m)))"

lemma gcm_crypt_from_Nil [simp]: "gcm_crypt_from key nonce n [] = []"
  by (simp add: gcm_crypt_from_def)

lemma gcm_crypt_from_step:
  "m \<noteq> [] \<Longrightarrow> gcm_crypt_from key nonce n m =
     xor_bytes (take 16 m) (aes_Encrypt key (gcm_counter nonce (n + 2))) @
     gcm_crypt_from key nonce (Suc n) (drop 16 m)"
  by (simp add: gcm_crypt_from_def blocks_of_step)

lemma length_gcm_counter [simp]: "length nonce = 12 \<Longrightarrow> length (gcm_counter nonce c) = 16"
  by (simp add: gcm_counter_def BigEndian_PutUint32_def)

lemma length_gcm_crypt_from:
  assumes "aes_key_ok key" "length nonce = 12"
  shows "length (gcm_crypt_from key nonce n m) = length m"
proof (induction m arbitrary: n rule: length_induct)
  case (1 m)
  show ?case
  proof (cases "m = []")
    case False
    then have "length (gcm_crypt_from key nonce (Suc n) (drop 16 m)) = length (drop 16 m)"
      using "1.IH" by simp
    with False assms show ?thesis
      by (simp add: gcm_crypt_from_step length_aes_Encrypt)
  qed simp
qed

lemma gcm_crypt_from_involution:
  assumes "aes_key_ok key" "length nonce = 12"
  shows "gcm_crypt_from key nonce n (gcm_crypt_from key nonce n m) = m"
proof (induction m arbitrary: n rule: length_induct)
  case (1 m)
  show ?case
  proof (cases "m = []")
    case False
    let ?ks = "aes_Encrypt key (gcm_counter nonce (n + 2))"
    let ?head = "xor_bytes (take 16 m) ?ks"
    let ?rest = "gcm_crypt_from key nonce (Suc n) (drop 16 m)"
    have ks: "length ?ks = 16" using assms by (simp add: length_aes_Encrypt)
    have rest: "gcm_crypt_from key nonce (Suc n) ?rest = drop 16 m"
      using "1.IH" False by simp
    have split: "take 16 (?head @ ?rest) = ?head" "drop 16 (?head @ ?rest) = ?rest"
      using length_gcm_crypt_from [OF assms, of "Suc n" "drop 16 m"] ks
      by (cases "16 \<le> length m"; simp)+
    have "?head @ ?rest \<noteq> []" using False ks by (simp flip: length_greater_0_conv)
    then have "gcm_crypt_from key nonce n (?head @ ?rest)
        = xor_bytes ?head ?ks @ gcm_crypt_from key nonce (Suc n) ?rest"
      by (subst gcm_crypt_from_step) (simp_all only: split not_False_eq_True)
    also have "\<dots> = m" using ks by (simp add: rest xor_bytes_cancel)
    finally show ?thesis using False by (simp add: gcm_crypt_from_step)
  qed simp
qed

lemma length_gcm_tag:
  "aes_key_ok key \<Longrightarrow> length nonce = 12 \<Longrightarrow> length (gcm_tag key nonce c) = gcm_TagSize"
  by (simp add: gcm_tag_def word_block_def length_aes_Encrypt gcm_TagSize_def)

lemma gcm_Open_Seal:
  assumes "aes_key_ok key" "length nonce = 12"
  shows "gcm_Open key nonce (gcm_Seal key [] nonce m) = Some m"
proof -
  have c: "gcm_crypt key nonce = gcm_crypt_from key nonce 0"
    by (rule ext) (simp add: gcm_crypt_def gcm_crypt_from_def)
  show ?thesis
    using length_gcm_tag [OF assms]
    by (simp add: gcm_Open_def gcm_Seal_def Let_def c gcm_crypt_from_involution [OF assms])
qed

lemma length_gcm_Seal:
  assumes "aes_key_ok key" "length nonce = 12"
  shows "length (gcm_Seal key dst nonce m) = length dst + length m + gcm_TagSize"
proof -
  have c: "gcm_crypt key nonce = gcm_crypt_from key nonce 0"
    by (rule ext) (simp add: gcm_crypt_def gcm_crypt_from_def)
  show ?thesis
    by (simp add: gcm_Seal_def Let_def c length_gcm_tag [OF assms] length_gcm_crypt_from [OF assms])
qed

lemma gcm_Seal_append: "gcm_Seal key dst nonce m = dst @ gcm_Seal key [] nonce m"
  by (simp add: gcm_Seal_def Let_def)

end
