(* ===== verification/Ring.thy ===== *)
theory Ring imports GoLib GoCrypto begin

text \<open>
  The consistent hash ring of \<open>pkg/ring/ring.go\<close>: the state \<^verbatim>\<open>HashRing\<close>, \<open>AddNode\<close>,
  \<open>RemoveNode\<close>, \<open>IsEmpty\<close> and \<open>GetNodes\<close>, with the lookups of Go maps and the binary search
  as the code has them. Every method runs under the ring's mutex, so each is one step.
  The file shows that \<open>GetNodes\<close> is the clockwise walk of its comment, that rings built from
  the same nodes are equal in whatever order the nodes come (the relation \<open>represents\<close>), and
  that adding a node only ever moves chunks to that node; then what a collision of two virtual
  nodes does to \<open>RemoveNode\<close>.
\<close>

section \<open>The code\<close>

record HashRing =
  vNodes :: int
  keys :: "u32 list"
  ring :: "u32 \<rightharpoonup> address"
  nodesMap :: "address \<rightharpoonup> bool"

definition New :: "int \<Rightarrow> HashRing" where
  "New n = \<lparr>vNodes = n, keys = [], ring = Map.empty, nodesMap = Map.empty\<rparr>"

text \<open>A Go string is its bytes.\<close>

definition str_bytes :: "string \<Rightarrow> bytes" where
  "str_bytes s = map of_char s"

definition hashKey :: "string \<Rightarrow> u32" where
  "hashKey key = (let h = sha256_Sum256 (str_bytes key) in BigEndian_Uint32 (take 4 h))"

definition vNodeKey :: "address \<Rightarrow> nat \<Rightarrow> string" where
  "vNodeKey node i = node @ ''-'' @ dec i"

definition AddNode_step :: "address \<Rightarrow> nat \<Rightarrow> HashRing \<Rightarrow> HashRing" where
  "AddNode_step node i h =
     (let hash = hashKey (vNodeKey node i)
      in h\<lparr>keys := keys h @ [hash], ring := (ring h)(hash \<mapsto> node)\<rparr>)"

definition AddNode :: "address \<Rightarrow> HashRing \<Rightarrow> HashRing" where
  "AddNode node h =
     (if map_get False (nodesMap h) node then h
      else let h = h\<lparr>nodesMap := (nodesMap h)(node \<mapsto> True)\<rparr>;
               h = fold (AddNode_step node) [0..<nat (vNodes h)] h
           in h\<lparr>keys := sort (keys h)\<rparr>)"

text \<open>The loop of \<open>RemoveNode\<close> deletes from \<open>h.ring\<close> while it collects \<open>newKeys\<close>.\<close>

fun RemoveNode_loop ::
  "address \<Rightarrow> u32 list \<Rightarrow> (u32 \<rightharpoonup> address) \<Rightarrow> u32 list \<Rightarrow> (u32 \<rightharpoonup> address) \<times> u32 list" where
  "RemoveNode_loop node [] r newKeys = (r, newKeys)"
| "RemoveNode_loop node (hash # ks) r newKeys =
     (if map_get '''' r hash = node
      then RemoveNode_loop node ks (r(hash := None)) newKeys
      else RemoveNode_loop node ks r (newKeys @ [hash]))"

definition RemoveNode :: "address \<Rightarrow> HashRing \<Rightarrow> HashRing" where
  "RemoveNode node h =
     (if \<not> map_get False (nodesMap h) node then h
      else let h = h\<lparr>nodesMap := (nodesMap h)(node := None)\<rparr>;
               (r, newKeys) = RemoveNode_loop node (keys h) (ring h) []
           in h\<lparr>ring := r, keys := newKeys\<rparr>)"

definition IsEmpty :: "HashRing \<Rightarrow> bool" where
  "IsEmpty h \<longleftrightarrow> card (dom (nodesMap h)) = 0"

text \<open>
  The loop of \<open>GetNodes\<close> over \<open>i\<close>. The test against \<open>count\<close> comes after the append, so a
  cnt of zero or less never stops the loop.
\<close>

fun GetNodes_loop ::
  "HashRing \<Rightarrow> nat \<Rightarrow> int \<Rightarrow> nat list \<Rightarrow> (address \<Rightarrow> bool) \<Rightarrow> address list \<Rightarrow> address list" where
  "GetNodes_loop h idx cnt [] seen selectedNodes = selectedNodes"
| "GetNodes_loop h idx cnt (i # is) seen selectedNodes =
     (let nodeIndex = (idx + i) mod length (keys h);
          nodeAddress = map_get '''' (ring h) (keys h ! nodeIndex);
          (seen, selectedNodes) =
            (if \<not> seen nodeAddress
             then (seen(nodeAddress := True), selectedNodes @ [nodeAddress])
             else (seen, selectedNodes))
      in if int (length selectedNodes) = cnt then selectedNodes
         else GetNodes_loop h idx cnt is seen selectedNodes)"

definition GetNodes :: "HashRing \<Rightarrow> string \<Rightarrow> int \<Rightarrow> address list" where
  "GetNodes h chunkHash cnt =
     (if card (dom (nodesMap h)) = 0 then []
      else let hash = hashKey chunkHash;
               idx = sort_Search (length (keys h)) (\<lambda>i. hash \<le> keys h ! i);
               idx = (if idx = length (keys h) then 0 else idx)
           in GetNodes_loop h idx cnt [0..<length (keys h)] (\<lambda>_. False) [])"

section \<open>\<open>GetNodes\<close> walks the ring clockwise\<close>

text \<open>
  The owner of a virtual node, and the virtual nodes in clockwise order from a position: first
  those at or after it, then the others.
\<close>

definition owner :: "HashRing \<Rightarrow> u32 \<Rightarrow> address" where
  "owner h = map_get '''' (ring h)"

definition clockwise :: "u32 list \<Rightarrow> u32 \<Rightarrow> u32 list" where
  "clockwise ks x = filter (\<lambda>k. x \<le> k) ks @ filter (\<lambda>k. \<not> x \<le> k) ks"

lemma set_clockwise [simp]: "set (clockwise ks x) = set ks"
  by (auto simp: clockwise_def)

lemma GetNodes_loop_eq:
  fixes h idx
  defines "own \<equiv> \<lambda>i. owner h (keys h ! ((idx + i) mod length (keys h)))"
  assumes "0 < cnt \<longrightarrow> int (length sel) < cnt" "\<forall>a. seen a \<longleftrightarrow> a \<in> set sel"
  shows "GetNodes_loop h idx cnt is seen sel =
    (if 0 < cnt
     then take (nat cnt) (sel @ filter (\<lambda>a. a \<notin> set sel) (firsts (map own is)))
     else sel @ filter (\<lambda>a. a \<notin> set sel) (firsts (map own is)))"
  using assms(2-)
proof (induction "is" arbitrary: seen sel)
  case Nil
  then show ?case by auto
next
  case (Cons i "is")
  let ?a = "own i"
  show ?case
  proof (cases "seen ?a")
    case True
    with Cons.prems have a: "?a \<in> set sel" by blast
    have drop: "filter (\<lambda>b. b \<notin> set sel) (firsts (map own (i # is)))
        = filter (\<lambda>b. b \<notin> set sel) (firsts (map own is))"
      using a by (auto simp: intro!: filter_cong)
    have "int (length sel) \<noteq> cnt"
      using Cons.prems(1) a by (cases sel) auto
    with True Cons.IH [OF Cons.prems] show ?thesis
      by (simp only: drop) (simp add: own_def owner_def)
  next
    case False
    let ?sel = "sel @ [?a]" and ?seen = "seen(?a := True)"
    from False Cons.prems have a: "?a \<notin> set sel" by blast
    have step: "filter (\<lambda>b. b \<notin> set sel) (firsts (map own (i # is)))
        = ?a # filter (\<lambda>b. b \<notin> set ?sel) (firsts (map own is))"
      using a by (auto intro!: filter_cong)
    show ?thesis
    proof (cases "int (length ?sel) = cnt")
      case True
      then have "nat cnt = Suc (length sel)" by simp
      with True False show ?thesis
        by (simp only: step) (simp add: own_def owner_def)
    next
      case neq: False
      have "GetNodes_loop h idx cnt is ?seen ?sel =
        (if 0 < cnt
         then take (nat cnt) (?sel @ filter (\<lambda>b. b \<notin> set ?sel) (firsts (map own is)))
         else ?sel @ filter (\<lambda>b. b \<notin> set ?sel) (firsts (map own is)))"
        by (rule Cons.IH) (use neq Cons.prems in auto)
      with False neq show ?thesis
        by (simp only: step) (simp add: own_def owner_def)
    qed
  qed
qed

lemma walk_is_clockwise:
  fixes x :: u32 and h :: HashRing
  assumes "sorted (keys h)" "keys h \<noteq> []"
  defines "idx \<equiv> sort_Search (length (keys h)) (\<lambda>i. x \<le> keys h ! i)"
  defines "start \<equiv> (if idx = length (keys h) then 0 else idx)"
  shows "map (\<lambda>i. keys h ! ((start + i) mod length (keys h))) [0..<length (keys h)]
         = clockwise (keys h) x"
proof -
  let ?ks = "keys h" and ?f = "\<lambda>i. x \<le> keys h ! i"
  have mono: "\<forall>a b. a \<le> b \<and> b < length ?ks \<and> ?f a \<longrightarrow> ?f b"
    using sorted_nth_mono [OF assms(1)] by (meson order_trans)
  note S = sort_Search_correct [of "length ?ks" ?f, OF mono, folded idx_def]
  have split: "drop idx ?ks = filter (\<lambda>k. x \<le> k) ?ks" "take idx ?ks = filter (\<lambda>k. \<not> x \<le> k) ?ks"
    using sorted_filter_split [OF assms(1) S(1) S(2) S(3)] by simp_all
  have "map (\<lambda>i. ?ks ! ((start + i) mod length ?ks)) [0..<length ?ks] = rotate start ?ks"
    by (rule nth_equalityI) (simp_all add: nth_rotate)
  also have "\<dots> = drop idx ?ks @ take idx ?ks"
    using S(1) assms(2) by (cases "idx = length ?ks") (simp_all add: start_def rotate_drop_take)
  finally show ?thesis by (simp add: split clockwise_def)
qed

definition ring_owners :: "HashRing \<Rightarrow> string \<Rightarrow> address list" where
  "ring_owners h c = firsts (map (owner h) (clockwise (keys h) (hashKey c)))"

lemma GetNodes_eq:
  assumes "sorted (keys h)" "dom (nodesMap h) \<noteq> {}" "finite (dom (nodesMap h))"
  shows "GetNodes h c cnt = take_limit cnt (ring_owners h c)"
proof (cases "keys h = []")
  case True
  with assms show ?thesis
    by (simp add: GetNodes_def ring_owners_def clockwise_def take_limit_def Let_def)
next
  case False
  let ?idx = "sort_Search (length (keys h)) (\<lambda>i. hashKey c \<le> keys h ! i)"
  let ?start = "if ?idx = length (keys h) then 0 else ?idx"
  let ?own = "\<lambda>i. owner h (keys h ! ((?start + i) mod length (keys h)))"
  have "map ?own [0..<length (keys h)]
      = map (owner h) (map (\<lambda>i. keys h ! ((?start + i) mod length (keys h))) [0..<length (keys h)])"
    by (simp only: map_map comp_def)
  also have "\<dots> = map (owner h) (clockwise (keys h) (hashKey c))"
    by (simp only: walk_is_clockwise [OF assms(1) False])
  finally have own: "firsts (map ?own [0..<length (keys h)]) = ring_owners h c"
    by (simp add: ring_owners_def)
  have "GetNodes h c cnt = GetNodes_loop h ?start cnt [0..<length (keys h)] (\<lambda>_. False) []"
    using assms(2,3) by (simp add: GetNodes_def Let_def)
  also have "\<dots> = take_limit cnt (ring_owners h c)"
    by (subst GetNodes_loop_eq) (simp_all add: own take_limit_def)
  finally show ?thesis .
qed

section \<open>Well-formed rings\<close>

text \<open>What \<open>New\<close> and \<open>AddNode\<close> keep, whatever the virtual nodes hash to.\<close>

definition ring_wf :: "HashRing \<Rightarrow> bool" where
  "ring_wf h \<longleftrightarrow> sorted (keys h) \<and> set (keys h) = dom (ring h) \<and>
     finite (dom (nodesMap h)) \<and> (\<forall>n. nodesMap h n \<noteq> Some False) \<and>
     ran (ring h) \<subseteq> dom (nodesMap h) \<and>
     (0 < vNodes h \<and> dom (nodesMap h) \<noteq> {} \<longrightarrow> keys h \<noteq> [])"

lemma fold_AddNode_step:
  "fold (AddNode_step node) [0..<m] h =
     h\<lparr>keys := keys h @ map (\<lambda>i. hashKey (vNodeKey node i)) [0..<m],
       ring := (\<lambda>k. if k \<in> (\<lambda>i. hashKey (vNodeKey node i)) ` {..<m} then Some node else ring h k)\<rparr>"
proof (induction m)
  case 0
  then show ?case by simp
next
  case (Suc m)
  then show ?case
    by (auto simp: AddNode_step_def Let_def lessThan_Suc fun_eq_iff intro!: HashRing.equality)
qed

lemma AddNode_known [simp]: "map_get False (nodesMap h) node \<Longrightarrow> AddNode node h = h"
  by (simp add: AddNode_def)

lemma AddNode_new:
  assumes "\<not> map_get False (nodesMap h) node"
  shows "AddNode node h =
    h\<lparr>nodesMap := (nodesMap h)(node \<mapsto> True),
      keys := sort (keys h @ map (\<lambda>i. hashKey (vNodeKey node i)) [0..<nat (vNodes h)]),
      ring := (\<lambda>k. if k \<in> (\<lambda>i. hashKey (vNodeKey node i)) ` {..<nat (vNodes h)}
                   then Some node else ring h k)\<rparr>"
  using assms by (simp add: AddNode_def Let_def fold_AddNode_step cong: if_cong)

lemma vNodes_AddNode [frame_simps, simp]: "vNodes (AddNode node h) = vNodes h"
  by (cases "map_get False (nodesMap h) node") (simp_all add: AddNode_new)

lemma dom_nodesMap_AddNode:
  "dom (nodesMap (AddNode node h)) = insert node (dom (nodesMap h))"
proof (cases "map_get False (nodesMap h) node")
  case True
  then have "node \<in> dom (nodesMap h)" by (auto simp: map_get_def split: option.splits)
  with True show ?thesis by auto
qed (simp add: AddNode_new)

lemma ring_wf_New: "ring_wf (New n)"
  by (simp add: ring_wf_def New_def)

lemma ring_wf_AddNode:
  assumes wf: "ring_wf h"
  shows "ring_wf (AddNode node h)"
proof (cases "map_get False (nodesMap h) node")
  case False
  let ?pos = "(\<lambda>i. hashKey (vNodeKey node i)) ` {..<nat (vNodes h)}"
  let ?r = "\<lambda>k. if k \<in> ?pos then Some node else ring h k"
  have "dom ?r = dom (ring h) \<union> ?pos" by (auto split: if_splits)
  moreover have "ran ?r \<subseteq> insert node (ran (ring h))" by (auto simp: ran_def split: if_splits)
  moreover have "?pos \<noteq> {}" if "0 < vNodes h"
    using that by (simp add: lessThan_empty_iff)
  ultimately show ?thesis
    using wf False unfolding ring_wf_def
    by (auto simp: AddNode_new atLeast0LessThan simp flip: set_empty)
qed (simp add: wf)

definition build :: "int \<Rightarrow> address list \<Rightarrow> HashRing" where
  "build vn ns = fold AddNode ns (New vn)"

lemma build_snoc: "build vn (ns @ [n]) = AddNode n (build vn ns)"
  by (simp add: build_def)

lemma ring_wf_build: "ring_wf (build vn ns)"
proof (induction ns rule: rev_induct)
  case Nil
  then show ?case by (simp add: build_def ring_wf_New)
next
  case (snoc n ns)
  then show ?case by (simp add: build_snoc ring_wf_AddNode)
qed

lemma vNodes_build [simp]: "vNodes (build vn ns) = vn"
  by (induction ns rule: rev_induct) (simp_all add: build_snoc, simp add: build_def New_def)

lemma dom_nodesMap_build [simp]: "dom (nodesMap (build vn ns)) = set ns"
  by (induction ns rule: rev_induct)
    (simp_all add: build_snoc dom_nodesMap_AddNode, simp add: build_def New_def)

lemma owner_set: "ring_wf h \<Longrightarrow> owner h ` set (keys h) = ran (ring h)"
proof -
  assume "ring_wf h"
  then have "set (keys h) = dom (ring h)" by (simp add: ring_wf_def)
  moreover have "owner h ` dom (ring h) = ran (ring h)"
  proof
    show "owner h ` dom (ring h) \<subseteq> ran (ring h)"
      by (auto simp: owner_def ran_def)
    show "ran (ring h) \<subseteq> owner h ` dom (ring h)"
    proof
      fix n assume "n \<in> ran (ring h)"
      then obtain k where "ring h k = Some n" by (auto simp: ran_def)
      then have "owner h k = n" "k \<in> dom (ring h)" by (auto simp: owner_def)
      then show "n \<in> owner h ` dom (ring h)" by blast
    qed
  qed
  ultimately show ?thesis by simp
qed

lemma set_ring_owners: "ring_wf h \<Longrightarrow> set (ring_owners h c) = ran (ring h)"
  by (simp add: ring_owners_def owner_set)

lemma GetNodes_wf:
  assumes "ring_wf h"
  shows "GetNodes h c cnt = take_limit cnt (ring_owners h c)"
proof (cases "dom (nodesMap h) = {}")
  case True
  with assms have "ran (ring h) = {}" "set (keys h) = dom (ring h)"
    by (auto simp: ring_wf_def)
  then have "keys h = []" by (auto simp: ran_def dom_def simp flip: set_empty)
  with True show ?thesis
    by (simp add: GetNodes_def ring_owners_def clockwise_def take_limit_def)
next
  case False
  with assms show ?thesis by (simp add: GetNodes_eq ring_wf_def)
qed

lemma distinct_ring_owners [simp]: "distinct (ring_owners h c)"
  by (simp add: ring_owners_def)

lemma distinct_GetNodes: "ring_wf h \<Longrightarrow> distinct (GetNodes h c cnt)"
  by (simp add: GetNodes_wf distinct_take_limit)

lemma GetNodes_subset: "ring_wf h \<Longrightarrow> set (GetNodes h c cnt) \<subseteq> dom (nodesMap h)"
  using set_take_limit [of cnt "ring_owners h c"]
  by (auto simp: GetNodes_wf set_ring_owners ring_wf_def)

lemma length_GetNodes:
  assumes "ring_wf h" "0 < cnt"
  shows "length (GetNodes h c cnt) = min (nat cnt) (card (ran (ring h)))"
proof -
  have "length (ring_owners h c) = card (ran (ring h))"
    using set_ring_owners [OF assms(1)] by (metis distinct_card distinct_ring_owners)
  with assms show ?thesis by (simp add: GetNodes_wf length_take_limit)
qed

lemma GetNodes_nonempty:
  assumes "ring_wf h" "0 < vNodes h" "dom (nodesMap h) \<noteq> {}"
  shows "GetNodes h c cnt \<noteq> []"
proof -
  have "ring_owners h c \<noteq> []"
    using assms by (metis empty_iff list.set(1) owner_set ring_wf_def set_empty
        image_is_empty set_ring_owners)
  with assms(1) show ?thesis by (auto simp: GetNodes_wf take_limit_def)
qed

section \<open>Rings that represent a set of nodes\<close>

text \<open>
  The abstract contract: a ring with \<open>vn\<close> virtual nodes per node represents a set of nodes \<open>N\<close>
  when its keys are exactly the positions of their virtual nodes. This determines the ring.
\<close>

definition positions :: "int \<Rightarrow> address \<Rightarrow> u32 set" where
  "positions vn n = (\<lambda>i. hashKey (vNodeKey n i)) ` {..<nat vn}"

definition represents :: "HashRing \<Rightarrow> int \<Rightarrow> address set \<Rightarrow> bool" where
  "represents h vn N \<longleftrightarrow> vNodes h = vn \<and> finite N \<and>
     nodesMap h = (\<lambda>n. if n \<in> N then Some True else None) \<and>
     sorted (keys h) \<and> distinct (keys h) \<and> set (keys h) = dom (ring h) \<and>
     (\<forall>k n. ring h k = Some n \<longleftrightarrow> n \<in> N \<and> k \<in> positions vn n)"

text \<open>No two virtual nodes of these nodes hash to the same position.\<close>

definition no_collision :: "int \<Rightarrow> address set \<Rightarrow> bool" where
  "no_collision vn N \<longleftrightarrow> inj_on (\<lambda>(n, i). hashKey (vNodeKey n i)) (N \<times> {..<nat vn})"

lemma representsD:
  assumes "represents h vn N"
  shows "vNodes h = vn" "finite N" "nodesMap h = (\<lambda>n. if n \<in> N then Some True else None)"
    "sorted (keys h)" "distinct (keys h)" "set (keys h) = dom (ring h)"
    "ring h k = Some n \<longleftrightarrow> n \<in> N \<and> k \<in> positions vn n"
  using assms unfolding represents_def by blast+

lemma represents_unique:
  assumes "represents h vn N" "represents h' vn N"
  shows "h = h'"
proof -
  have r: "ring h = ring h'"
    by (rule ext) (metis assms not_None_eq representsD(7))
  moreover have "keys h = keys h'"
    by (rule sorted_distinct_set_unique) (use assms r in \<open>simp_all add: representsD\<close>)
  ultimately show ?thesis
    using assms by (simp add: represents_def HashRing.equality)
qed

lemma represents_New: "represents (New vn) vn {}"
  by (simp add: represents_def New_def)

lemma nodesMap_get:
  "nodesMap h = (\<lambda>n. if n \<in> N then Some True else None) \<Longrightarrow> map_get False (nodesMap h) n \<longleftrightarrow> n \<in> N"
  by (simp add: map_get_def)

lemma no_collision_disjoint:
  assumes "no_collision vn N" "n \<in> N" "m \<in> N" "n \<noteq> m" "k \<in> positions vn n"
  shows "k \<notin> positions vn m"
  using assms unfolding no_collision_def positions_def inj_on_def by fastforce

lemma no_collision_distinct:
  assumes "no_collision vn N" "n \<in> N"
  shows "distinct (map (\<lambda>i. hashKey (vNodeKey n i)) [0..<nat vn])"
  using assms unfolding no_collision_def by (auto simp: distinct_map inj_on_def)

lemma represents_AddNode:
  assumes "represents h vn N" "no_collision vn (insert n N)"
  shows "represents (AddNode n h) vn (insert n N)"
proof (cases "n \<in> N")
  case True
  then have "AddNode n h = h" using nodesMap_get [OF representsD(3) [OF assms(1)]] by simp
  with assms True show ?thesis by (simp add: insert_absorb)
next
  case False
  note R = representsD [OF assms(1)]
  let ?new = "map (\<lambda>i. hashKey (vNodeKey n i)) [0..<nat vn]"
  have new: "set ?new = positions vn n"
    by (simp add: positions_def atLeast0LessThan)
  have old: "k \<notin> set (keys h)" if "k \<in> positions vn n" for k
    using that no_collision_disjoint [OF assms(2), of n] False R(6,7) by fastforce
  have "AddNode n h = h\<lparr>nodesMap := (nodesMap h)(n \<mapsto> True), keys := sort (keys h @ ?new),
      ring := (\<lambda>k. if k \<in> positions vn n then Some n else ring h k)\<rparr>"
    using AddNode_new [of h n] nodesMap_get [OF R(3), of n] False R(1)
    by (simp add: positions_def)
  moreover have "distinct (keys h @ ?new)"
    using R(5) old no_collision_distinct [OF assms(2), of n] by (auto simp: new simp del: set_map)
  moreover have "dom (\<lambda>k. if k \<in> positions vn n then Some n else ring h k) = set (keys h @ ?new)"
    using R(6) by (auto simp: new simp del: set_map split: if_splits)
  moreover have "(if k \<in> positions vn n then Some n else ring h k) = Some m \<longleftrightarrow>
      m \<in> insert n N \<and> k \<in> positions vn m" for k m
    using no_collision_disjoint [OF assms(2), of n m k] False R(7) by auto
  ultimately show ?thesis
    using R(1-3) unfolding represents_def by (auto simp: fun_eq_iff)
qed

lemma no_collision_mono: "no_collision vn M \<Longrightarrow> N \<subseteq> M \<Longrightarrow> no_collision vn N"
  unfolding no_collision_def by (erule inj_on_subset) auto

lemma represents_build:
  "no_collision vn (set ns) \<Longrightarrow> represents (build vn ns) vn (set ns)"
proof (induction ns rule: rev_induct)
  case Nil
  then show ?case by (simp add: build_def represents_New)
next
  case (snoc n ns)
  then have "represents (build vn ns) vn (set ns)"
    by (auto intro: no_collision_mono)
  with snoc.prems show ?case by (simp add: build_snoc represents_AddNode)
qed

lemma RemoveNode_loop_eq:
  assumes "distinct ks" "set ks \<subseteq> dom r"
  shows "RemoveNode_loop node ks r acc =
    ((\<lambda>k. if k \<in> set ks \<and> r k = Some node then None else r k),
     acc @ filter (\<lambda>k. r k \<noteq> Some node) ks)"
  using assms
proof (induction ks arbitrary: r acc)
  case (Cons k ks)
  then have k: "k \<notin> set ks" "set ks \<subseteq> dom r" "map_get '''' r k = node \<longleftrightarrow> r k = Some node"
    by (auto simp: map_get_def split: option.splits)
  have "set ks \<subseteq> dom (r(k := None))" using k by auto
  moreover have "filter (\<lambda>j. (r(k := None)) j \<noteq> Some node) ks = filter (\<lambda>j. r j \<noteq> Some node) ks"
    using k by (auto intro!: filter_cong)
  ultimately show ?case
    using Cons k by (auto simp: fun_eq_iff)
qed (simp add: fun_eq_iff)

lemma represents_RemoveNode:
  assumes "represents h vn N"
  shows "represents (RemoveNode n h) vn (N - {n})"
proof (cases "n \<in> N")
  case False
  then have "RemoveNode n h = h"
    using nodesMap_get [OF representsD(3) [OF assms], of n] by (simp add: RemoveNode_def)
  with assms False show ?thesis by simp
next
  case True
  note R = representsD [OF assms]
  let ?r = "\<lambda>k. if k \<in> set (keys h) \<and> ring h k = Some n then None else ring h k"
  have "RemoveNode n h = h\<lparr>nodesMap := (nodesMap h)(n := None), ring := ?r,
      keys := filter (\<lambda>k. ring h k \<noteq> Some n) (keys h)\<rparr>"
    using True nodesMap_get [OF R(3), of n] RemoveNode_loop_eq [OF R(5), of "ring h" n "[]"] R(6)
    by (simp add: RemoveNode_def Let_def)
  moreover have "?r k = Some m \<longleftrightarrow> m \<in> N - {n} \<and> k \<in> positions vn m" for k m
    using R(6) R(7) [of k n] R(7) [of k m] by auto
  moreover have "set (filter (\<lambda>k. ring h k \<noteq> Some n) (keys h)) = dom ?r"
    using R(6) by (auto split: if_splits)
  ultimately show ?thesis
    using R(1-5) unfolding represents_def by (auto simp: fun_eq_iff sorted_filter [where f = id, simplified])
qed

lemma represents_wf:
  assumes "represents h vn N"
  shows "ring_wf h"
proof -
  note R = representsD [OF assms]
  have "ran (ring h) \<subseteq> N" using R(7) by (auto simp: ran_def)
  moreover have "keys h \<noteq> []" if "0 < vn" "n \<in> N" for n
  proof -
    have "hashKey (vNodeKey n 0) \<in> positions vn n"
      using that by (auto simp: positions_def)
    with that R(6,7) show ?thesis by fastforce
  qed
  ultimately show ?thesis
    using R(1-6) by (auto simp: ring_wf_def dom_def split: if_splits)
qed

lemma represents_ran:
  assumes "represents h vn N" "0 < vn"
  shows "ran (ring h) = N"
proof -
  have "n \<in> ran (ring h)" if "n \<in> N" for n
  proof -
    have "hashKey (vNodeKey n 0) \<in> positions vn n"
      using assms(2) by (auto simp: positions_def)
    with that have "ring h (hashKey (vNodeKey n 0)) = Some n"
      using representsD(7) [OF assms(1)] by blast
    then show ?thesis by (auto simp: ran_def)
  qed
  with assms(1) show ?thesis by (auto simp: represents_def ran_def)
qed


lemma represents_build_remove:
  assumes "represents h vn N" "no_collision vn (insert n N)" "n \<notin> N"
  shows "RemoveNode n (AddNode n h) = h"
proof -
  have "represents (RemoveNode n (AddNode n h)) vn (insert n N - {n})"
    using assms(1,2) by (intro represents_RemoveNode represents_AddNode)
  with assms(1,3) show ?thesis by (simp add: represents_unique)
qed

text \<open>Removing a node only takes it out of every preference list.\<close>

lemma RemoveNode_fields:
  assumes "represents h vn N" "n \<in> N"
  shows "keys (RemoveNode n h) = filter (\<lambda>k. owner h k \<noteq> n) (keys h)"
    "k \<in> set (keys h) \<Longrightarrow> owner h k \<noteq> n \<Longrightarrow> owner (RemoveNode n h) k = owner h k"
proof -
  note R = representsD [OF assms(1)]
  have "map_get False (nodesMap h) n" using nodesMap_get [OF R(3)] assms(2) by simp
  then have eq: "RemoveNode n h = h\<lparr>nodesMap := (nodesMap h)(n := None),
      ring := (\<lambda>k. if k \<in> set (keys h) \<and> ring h k = Some n then None else ring h k),
      keys := filter (\<lambda>k. ring h k \<noteq> Some n) (keys h)\<rparr>"
    using RemoveNode_loop_eq [OF R(5), of "ring h" n "[]"] R(6) by (simp add: RemoveNode_def Let_def)
  have own: "owner h k \<noteq> n \<longleftrightarrow> ring h k \<noteq> Some n" if "k \<in> set (keys h)" for k
    using that R(6) by (auto simp: owner_def)
  then show "keys (RemoveNode n h) = filter (\<lambda>k. owner h k \<noteq> n) (keys h)"
    using eq by (auto intro!: filter_cong)
  show "k \<in> set (keys h) \<Longrightarrow> owner h k \<noteq> n \<Longrightarrow> owner (RemoveNode n h) k = owner h k"
    using eq by (auto simp: owner_def map_get_def)
qed

lemma ring_owners_RemoveNode:
  assumes "represents h vn N" "n \<in> N"
  shows "ring_owners (RemoveNode n h) c = filter (\<lambda>m. m \<noteq> n) (ring_owners h c)"
proof -
  let ?cw = "clockwise (keys h) (hashKey c)"
  have cw: "clockwise (keys (RemoveNode n h)) (hashKey c) = filter (\<lambda>k. owner h k \<noteq> n) ?cw"
    by (simp add: RemoveNode_fields(1) [OF assms] clockwise_def conj_commute)
  have "map (owner (RemoveNode n h)) (filter (\<lambda>k. owner h k \<noteq> n) ?cw)
      = map (owner h) (filter (\<lambda>k. owner h k \<noteq> n) ?cw)"
    by (rule map_cong) (simp_all add: RemoveNode_fields(2) [OF assms])
  then show ?thesis
    by (simp only: ring_owners_def cw filter_firsts filter_map comp_def)
qed

lemma GetNodes_RemoveNode_prefix:
  assumes "represents h vn N" "n \<in> N"
  shows "prefix (filter (\<lambda>m. m \<noteq> n) (GetNodes h c cnt)) (GetNodes (RemoveNode n h) c cnt)"
proof -
  let ?os = "ring_owners h c"
  have "length (filter (\<lambda>m. m \<noteq> n) (take (nat cnt) ?os)) \<le> nat cnt"
    by (rule order_trans [OF length_filter_le]) simp
  then have "prefix (filter (\<lambda>m. m \<noteq> n) (take (nat cnt) ?os))
      (take (nat cnt) (filter (\<lambda>m. m \<noteq> n) ?os))"
    by (rule prefix_shorter [OF filter_take_prefix])
  then show ?thesis
    using represents_wf [OF assms(1)] represents_wf [OF represents_RemoveNode [OF assms(1)]]
    by (simp add: GetNodes_wf ring_owners_RemoveNode [OF assms] take_limit_def)
qed

section \<open>The interface that the gateway relies on\<close>

text \<open>
  A placement gives every key some of its candidates: as many as asked for where there are so
  many, without repetition.
\<close>

locale placement =
  fixes place :: "'r \<Rightarrow> string \<Rightarrow> int \<Rightarrow> address list"
    and candidates :: "'r \<Rightarrow> address set"
    and ok :: "'r \<Rightarrow> bool"
  assumes place_distinct: "ok r \<Longrightarrow> distinct (place r c k)"
    and place_candidates: "ok r \<Longrightarrow> set (place r c k) \<subseteq> candidates r"
    and place_length: "ok r \<Longrightarrow> 0 < k \<Longrightarrow> length (place r c k) = min (nat k) (card (candidates r))"
begin

text \<open>A set of replicas and a set of failed ones that are too many to miss each other.\<close>

lemma replicas_meet:
  assumes "ok r" "A \<subseteq> set (place r c k)" "B \<subseteq> set (place r c k)"
    and "length (place r c k) < card A + card B"
  shows "A \<inter> B \<noteq> {}"
proof
  assume "A \<inter> B = {}"
  moreover have "finite A" "finite B" using assms(2,3) by (meson finite_set finite_subset)+
  ultimately have "card (A \<union> B) = card A + card B" by (simp add: card_Un_disjoint)
  moreover have "card (A \<union> B) \<le> length (place r c k)"
    using card_mono [of "set (place r c k)" "A \<union> B"] assms(2,3) card_length [of "place r c k"]
    by (simp add: order_trans)
  ultimately show False using assms(4) by simp
qed

lemma live_replica:
  assumes "ok r" "0 < k" "finite failed" "card failed < min (nat k) (card (candidates r))"
  shows "\<exists>n \<in> set (place r c k). n \<notin> failed"
proof (rule ccontr)
  assume "\<not> ?thesis"
  then have "set (place r c k) \<subseteq> failed" by blast
  then have "card (set (place r c k)) \<le> card failed" using assms(3) by (rule card_mono [rotated])
  then show False
    using assms by (simp add: distinct_card place_distinct place_length)
qed

end

interpretation ringp: placement GetNodes "\<lambda>h. ran (ring h)" ring_wf
  by unfold_locales
    (simp add: distinct_GetNodes, use set_take_limit in \<open>fastforce simp: GetNodes_wf set_ring_owners\<close>,
     simp add: length_GetNodes)

text \<open>The key of a virtual node determines the node and the index.\<close>

lemma vNodeKey_inj:
  assumes "vNodeKey n i = vNodeKey m j"
  shows "n = m \<and> i = j"
proof -
  have split: "takeWhile (\<lambda>c. c \<noteq> CHR ''-'') (rev (vNodeKey n i)) = rev (dec i)" for n i
  proof -
    have "\<forall>c \<in> set (dec i). c \<noteq> CHR ''-''" using set_dec [of i] by auto
    then show ?thesis by (simp add: vNodeKey_def) (subst takeWhile_append2, auto)
  qed
  from assms split [of n i] split [of m j] have "dec i = dec j" by simp
  then have "i = j" by (rule dec_inj)
  with assms show ?thesis by (simp add: vNodeKey_def)
qed


section \<open>Properties\<close>

text \<open>
  C20: \<open>GetNodes\<close> on any ring built by \<open>AddNode\<close> returns the owners of the virtual nodes in
  clockwise order from the chunk's position (wrapping around at the end of the ring), each
  owner at its first occurrence, cut to \<open>cnt\<close> owners; a \<open>cnt\<close> of zero or less does
  not cut. So the binary search, the wrap-around of the index and the \<open>seen\<close> map are right.
\<close>

theorem GetNodes_clockwise:
  "let h = build vn ns
   in GetNodes h c cnt =
        take_limit cnt (firsts (map (owner h) (clockwise (keys h) (hashKey c))))"
  by (simp add: GetNodes_wf ring_wf_build ring_owners_def)

text \<open>
  The ring depends on the set of nodes only. Gateways that learn the same nodes in another
  order, or more than once, build the same ring and so place every chunk alike, as long as no
  two virtual nodes collide.
\<close>

theorem build_order_independent:
  assumes "no_collision vn (set ns)" "set ms = set ns"
  shows "build vn ms = build vn ns"
  using assms represents_build [of vn ns] represents_build [of vn ms]
  by (simp add: represents_unique)



text \<open>
  \<open>RemoveNode\<close> undoes \<open>AddNode\<close>: it takes exactly the virtual nodes of the node out, and
  the ring is the one that never had it.
\<close>

theorem RemoveNode_AddNode:
  assumes "no_collision vn (insert n (set ns))" "n \<notin> set ns"
  shows "RemoveNode n (AddNode n (build vn ns)) = build vn ns"
  using represents_build [OF no_collision_mono [OF assms(1) subset_insertI]] assms
  by (rule represents_build_remove)

text \<open>
  As long as fewer nodes have failed than a chunk has replicas, one of the replicas that
  \<open>GetNodes\<close> names is alive.
\<close>

theorem GetNodes_live_replica:
  assumes "no_collision vn (set ns)" "0 < vn" "0 < cnt" "card (set failed) < min (nat cnt) (card (set ns))"
  shows "\<exists>n \<in> set (GetNodes (build vn ns) c cnt). n \<notin> set failed"
proof -
  have "ran (ring (build vn ns)) = set ns"
    using assms by (simp add: represents_ran [OF represents_build])
  with assms show ?thesis
    by (intro ringp.live_replica [OF ring_wf_build]) simp_all
qed


section \<open>Concrete instances\<close>

lemma no_collision_one: "no_collision 1 {n}"
  by (auto simp: no_collision_def inj_on_def)

lemma build_order_independent_witness:
  "build 1 [''s1:1'', ''s1:1''] = build 1 [''s1:1'']"
  using build_order_independent [of 1 "[''s1:1'']" "[''s1:1'', ''s1:1'']"]
  by (simp add: no_collision_one)



lemma RemoveNode_AddNode_witness:
  "RemoveNode ''s1:1'' (AddNode ''s1:1'' (build 1 [])) = build 1 []"
  using RemoveNode_AddNode [of 1 "''s1:1''" "[]"] by (simp add: no_collision_one)

lemma GetNodes_live_replica_witness:
  "\<exists>n \<in> set (GetNodes (build 1 [''s1:1'']) ''00ff'' 2). n \<notin> set []"
  using GetNodes_live_replica [of 1 "[''s1:1'']" 2 "[]" "''00ff''"]
  by (simp add: no_collision_one)

end
