(* ===== verification/GoJson.thy ===== *)
theory GoJson imports Prelude begin

text \<open>
  \<open>encoding/json\<close> at the level of JSON values: a text is the value it denotes, or \<open>None\<close> when
  it is not JSON. The layout of the text (white space, escapes) is not modelled. What the
  package does to values is: strings are coerced to valid UTF-8 when they are written,
  the keys of a map are written in sorted order, and the fields of a struct are found by name
  with the case ignored, the last one winning.
\<close>

datatype json =
    JNull
  | JBool bool
  | JNum int
  | JStr string
  | JArr "json list"
  | JObj "(string \<times> json) list"

type_synonym json_text = "json option"

section \<open>Strings are coerced to UTF-8\<close>

definition code :: "char \<Rightarrow> nat" where
  "code c = of_char c"

definition cont :: "nat \<Rightarrow> nat \<Rightarrow> string \<Rightarrow> nat \<Rightarrow> bool" where
  "cont lo hi s i \<longleftrightarrow> i < length s \<and> lo \<le> code (s ! i) \<and> code (s ! i) \<le> hi"

text \<open>The length of the encoded character at the head of the string, 0 for an invalid byte.\<close>

definition rune_len :: "string \<Rightarrow> nat" where
  "rune_len s =
     (let b = code (hd s); c = cont 0x80 0xBF s
      in if b < 0x80 then 1
         else if 0xC2 \<le> b \<and> b \<le> 0xDF \<and> c 1 then 2
         else if b = 0xE0 \<and> cont 0xA0 0xBF s 1 \<and> c 2 then 3
         else if b = 0xED \<and> cont 0x80 0x9F s 1 \<and> c 2 then 3
         else if 0xE1 \<le> b \<and> b \<le> 0xEF \<and> b \<noteq> 0xED \<and> c 1 \<and> c 2 then 3
         else if b = 0xF0 \<and> cont 0x90 0xBF s 1 \<and> c 2 \<and> c 3 then 4
         else if 0xF1 \<le> b \<and> b \<le> 0xF3 \<and> c 1 \<and> c 2 \<and> c 3 then 4
         else if b = 0xF4 \<and> cont 0x80 0x8F s 1 \<and> c 2 \<and> c 3 then 4
         else 0)"

definition replacement_char :: string where
  "replacement_char = [CHR 0xEF, CHR 0xBF, CHR 0xBD]"

function to_valid_utf8 :: "string \<Rightarrow> string" where
  "to_valid_utf8 s =
     (if s = [] then []
      else if rune_len s = 0 then replacement_char @ to_valid_utf8 (tl s)
      else take (rune_len s) s @ to_valid_utf8 (drop (rune_len s) s))"
  by pat_completeness auto
termination
  by (relation "measure length") auto

declare to_valid_utf8.simps [simp del]

lemma to_valid_utf8_Nil [simp]: "to_valid_utf8 [] = []"
  by (simp add: to_valid_utf8.simps)

definition ascii :: "string \<Rightarrow> bool" where
  "ascii s \<longleftrightarrow> (\<forall>c \<in> set s. code c < 128)"

lemma to_valid_utf8_ascii: "ascii s \<Longrightarrow> to_valid_utf8 s = s"
proof (induction s)
  case (Cons c s)
  then have "rune_len (c # s) = 1" by (simp add: rune_len_def ascii_def)
  with Cons show ?case
    by (subst to_valid_utf8.simps) (simp add: ascii_def)
qed simp

section \<open>Names of struct fields\<close>

text \<open>
  The canonical form under which field names are compared: lower case letters, and the two
  characters outside ASCII that fold to a letter (the long s and the Kelvin sign).
\<close>

definition lower :: "char \<Rightarrow> char" where
  "lower c = (if 65 \<le> code c \<and> code c \<le> 90 then char_of (code c + 32) else c)"

fun fold_name :: "string \<Rightarrow> string" where
  "fold_name [] = []"
| "fold_name (a # b # c # s) =
     (if a = CHR 0xC5 \<and> b = CHR 0xBF then CHR ''s'' # fold_name (c # s)
      else if a = CHR 0xE2 \<and> b = CHR 0x84 \<and> c = CHR 0xAA then CHR ''k'' # fold_name s
      else lower a # fold_name (b # c # s))"
| "fold_name [a, b] =
     (if a = CHR 0xC5 \<and> b = CHR 0xBF then ''s'' else [lower a, lower b])"
| "fold_name [a] = [lower a]"

declare fold_name.simps [simp del]

section \<open>\<open>map[string]bool\<close>\<close>

text \<open>A Go map as the list of its entries; the keys of a map are distinct.\<close>

type_synonym bool_map = "(string \<times> bool) list"

definition json_of_map :: "bool_map \<Rightarrow> json" where
  "json_of_map m =
     JObj (map (\<lambda>(k, v). (to_valid_utf8 k, JBool v)) (sort_key fst m))"

definition is_bool_or_null :: "json \<Rightarrow> bool" where
  "is_bool_or_null v \<longleftrightarrow> (case v of JNull \<Rightarrow> True | JBool _ \<Rightarrow> True | _ \<Rightarrow> False)"

text \<open>
  Decoding into a map: \<open>null\<close> leaves the nil map, a \<open>null\<close> member stores the zero value, and
  a member of another type is an error that is reported after the whole object was read.
\<close>

fun map_of_json :: "json \<Rightarrow> go_error + bool_map option" where
  "map_of_json JNull = Inr None"
| "map_of_json (JObj ms) =
     (if list_all (\<lambda>(k, v). is_bool_or_null v) ms
      then Inr (Some (fold (\<lambda>(k, v). AList.update k (v = JBool True)) ms []))
      else Inl (Errorf ''json: cannot unmarshal into Go value of type bool''))"
| "map_of_json _ = Inl (Errorf ''json: cannot unmarshal into Go value of type map[string]bool'')"

end
