(* ===== verification/ClusterFSM.thy ===== *)
theory ClusterFSM imports GoJson begin

text \<open>
  The replicated state machine of \<open>pkg/raft\<close>: the commands and their encoding
  (\<open>commands.go\<close>), and \<^verbatim>\<open>ClusterFSM\<close> with \<open>Apply\<close>, \<open>GetNodes\<close>, \<open>Snapshot\<close>, \<open>Restore\<close> and
  the snapshot's \<open>Persist\<close> (\<open>fsm.go\<close>). Go maps are references, and raft persists a snapshot
  while it goes on applying entries, so the maps live in a store and the state machine and its
  snapshots hold references into it.
  The file shows that applying an entry is the abstract membership operation, that the members
  after a log are decided by the last command on each address, and that a snapshot is not
  changed by what is applied after it.
\<close>

section \<open>Commands\<close>

record Command =
  Type :: string
  Address :: string

definition CmdNodeJoin :: string where
  "CmdNodeJoin = ''node_join''"

definition CmdNodeLeave :: string where
  "CmdNodeLeave = ''node_leave''"

definition Encode :: "Command \<Rightarrow> json_text" where
  "Encode c = Some (JObj [(''type'', JStr (to_valid_utf8 (Type c))),
                          (''address'', JStr (to_valid_utf8 (Address c)))])"

text \<open>
  \<open>json.Unmarshal\<close> into a \<open>Command\<close>: a member of the wrong type is remembered as an error while
  the others are still stored; \<open>null\<close> stores nothing; other members are skipped.
\<close>

fun decode_member :: "string \<times> json \<Rightarrow> Command \<times> bool \<Rightarrow> Command \<times> bool" where
  "decode_member (k, v) (c, ok) =
     (if fold_name k = ''type''
      then (case v of JStr s \<Rightarrow> (c\<lparr>Type := s\<rparr>, ok) | JNull \<Rightarrow> (c, ok) | _ \<Rightarrow> (c, False))
      else if fold_name k = ''address''
      then (case v of JStr s \<Rightarrow> (c\<lparr>Address := s\<rparr>, ok) | JNull \<Rightarrow> (c, ok) | _ \<Rightarrow> (c, False))
      else (c, ok))"

definition DecodeCommand :: "json_text \<Rightarrow> go_error + Command" where
  "DecodeCommand data =
     (case data of
        None \<Rightarrow> Inl (Errorf ''invalid JSON'')
      | Some JNull \<Rightarrow> Inr \<lparr>Type = '''', Address = ''''\<rparr>
      | Some (JObj ms) \<Rightarrow>
          (let (c, ok) = fold decode_member ms (\<lparr>Type = '''', Address = ''''\<rparr>, True)
           in if ok then Inr c else Inl (Errorf ''json: cannot unmarshal into Command''))
      | Some _ \<Rightarrow> Inl (Errorf ''json: cannot unmarshal into Command''))"

section \<open>The state machine\<close>

text \<open>
  The maps that were made, by reference; the reference to hand out next; and the field
  \<open>nodes\<close>, where \<open>None\<close> is the nil map.
\<close>

record ClusterFSM =
  maps :: "nat \<rightharpoonup> bool_map"
  next_ref :: nat
  nodes :: "nat option"

definition NewClusterFSM :: ClusterFSM where
  "NewClusterFSM = \<lparr>maps = [0 \<mapsto> []], next_ref = 1, nodes = Some 0\<rparr>"

text \<open>The entries of the map behind a reference; a nil map reads as an empty one.\<close>

definition deref :: "ClusterFSM \<Rightarrow> nat option \<Rightarrow> bool_map" where
  "deref f r = (case r of None \<Rightarrow> [] | Some r \<Rightarrow> (case maps f r of None \<Rightarrow> [] | Some m \<Rightarrow> m))"

text \<open>\<open>Apply\<close> returns nil or the decoding error. Assigning to an entry of a nil map panics.\<close>

datatype apply_result = ApplyNil | ApplyErr go_error | ApplyPanic

definition Apply :: "json_text \<Rightarrow> ClusterFSM \<Rightarrow> apply_result \<times> ClusterFSM" where
  "Apply data f =
     (case DecodeCommand data of
        Inl err \<Rightarrow> (ApplyErr err, f)
      | Inr cmd \<Rightarrow>
          if Type cmd = CmdNodeJoin
          then (case nodes f of
                  None \<Rightarrow> (ApplyPanic, f)
                | Some r \<Rightarrow>
                    (ApplyNil,
                     f\<lparr>maps := (maps f)(r \<mapsto> AList.update (Address cmd) True (deref f (nodes f)))\<rparr>))
          else if Type cmd = CmdNodeLeave
          then (case nodes f of
                  None \<Rightarrow> (ApplyNil, f)
                | Some r \<Rightarrow>
                    (ApplyNil,
                     f\<lparr>maps := (maps f)(r \<mapsto> AList.delete (Address cmd) (deref f (nodes f)))\<rparr>))
          else (ApplyNil, f))"

text \<open>
  \<open>GetNodes\<close> ranges over the map, in an order that the runtime picks (\<open>rng\<close>, a permutation).
\<close>

definition fsm_GetNodes :: "(address list \<Rightarrow> address list) \<Rightarrow> ClusterFSM \<Rightarrow> address list" where
  "fsm_GetNodes rng f = rng (map fst (deref f (nodes f)))"

text \<open>\<open>Snapshot\<close> makes a new map and copies the entries; the result is the reference to it.\<close>

definition Snapshot :: "ClusterFSM \<Rightarrow> nat \<times> ClusterFSM" where
  "Snapshot f =
     (let r = next_ref f;
          copy = fold (\<lambda>(k, v) m. AList.update k v m) (deref f (nodes f)) []
      in (r, f\<lparr>maps := (maps f)(r \<mapsto> copy), next_ref := Suc r\<rparr>))"

text \<open>
  \<open>Persist\<close> writes the snapshot's map to the sink. The sink is raft's: \<open>write_err\<close> and
  \<open>close_err\<close> are what its \<open>Write\<close> and \<open>Close\<close> return. The result is the error, if any, whether
  the sink was cancelled, and the text in the sink.
\<close>

definition Persist ::
  "nat \<Rightarrow> go_error option \<Rightarrow> go_error option \<Rightarrow> ClusterFSM \<Rightarrow> go_error option \<times> bool \<times> json_text" where
  "Persist snap write_err close_err f =
     (case write_err of
        Some e \<Rightarrow> (Some e, True, None)
      | None \<Rightarrow> (close_err, False, Some (json_of_map (deref f (Some snap)))))"

definition Restore :: "json_text \<Rightarrow> ClusterFSM \<Rightarrow> go_error option \<times> ClusterFSM" where
  "Restore snapshot f =
     (case snapshot of
        None \<Rightarrow> (Some (Errorf ''invalid JSON''), f)
      | Some j \<Rightarrow>
          (case map_of_json j of
             Inl err \<Rightarrow> (Some err, f)
           | Inr None \<Rightarrow> (None, f\<lparr>nodes := None\<rparr>)
           | Inr (Some m) \<Rightarrow>
               (let r = next_ref f
                in (None, f\<lparr>maps := (maps f)(r \<mapsto> m), next_ref := Suc r, nodes := Some r\<rparr>))))"

text \<open>Applying the entries of a log one after another.\<close>

definition apply_log :: "json_text list \<Rightarrow> ClusterFSM \<Rightarrow> ClusterFSM" where
  "apply_log log f = fold (\<lambda>data f. snd (Apply data f)) log f"

section \<open>The abstract membership\<close>

definition members :: "ClusterFSM \<Rightarrow> address set" where
  "members f = fst ` set (deref f (nodes f))"

definition apply_members :: "Command \<Rightarrow> address set \<Rightarrow> address set" where
  "apply_members c A =
     (if Type c = CmdNodeJoin then insert (Address c) A
      else if Type c = CmdNodeLeave then A - {Address c}
      else A)"

text \<open>
  The invariant: the field \<open>nodes\<close> refers to a map that exists, every reference handed out is
  below \<open>next_ref\<close>, and every map has distinct keys.
\<close>

definition fsm_inv :: "ClusterFSM \<Rightarrow> bool" where
  "fsm_inv f \<longleftrightarrow> (\<exists>r m. nodes f = Some r \<and> maps f r = Some m) \<and> dom (maps f) \<subseteq> {..<next_ref f} \<and>
     (\<forall>r m. maps f r = Some m \<longrightarrow> distinct (map fst m))"

lemma fsm_inv_New: "fsm_inv NewClusterFSM" "members NewClusterFSM = {}"
  by (auto simp: fsm_inv_def NewClusterFSM_def members_def deref_def)

lemma fsm_inv_Apply:
  assumes "fsm_inv f"
  shows "fsm_inv (snd (Apply data f))"
proof -
  obtain r m where r: "nodes f = Some r" "maps f r = Some m"
    using assms by (auto simp: fsm_inv_def)
  moreover have "r < next_ref f" "distinct (map fst m)"
    using assms r by (auto simp: fsm_inv_def)
  moreover have "distinct (map fst (AList.update a True m))" "distinct (map fst (AList.delete a m))" for a
    using \<open>distinct (map fst m)\<close> by (simp_all add: distinct_update distinct_delete)
  ultimately show ?thesis
    using assms unfolding fsm_inv_def
    by (auto simp: Apply_def deref_def split: sum.splits if_splits)
qed


lemma keys_update [simp]: "fst ` set (AList.update k v m) = insert k (fst ` set m)"
  by (simp add: AList.dom_update)

lemma keys_delete [simp]: "fst ` set (AList.delete k m) = fst ` set m - {k}"
proof -
  have "set (map fst (AList.delete k m)) = set (map fst m) - {k}"
    by (simp only: AList.delete_keys) (simp add: set_removeAll)
  then show ?thesis by simp
qed

lemma members_Apply:
  assumes "fsm_inv f"
  shows "members (snd (Apply data f)) =
    (case DecodeCommand data of Inl err \<Rightarrow> members f | Inr c \<Rightarrow> apply_members c (members f))"
proof -
  obtain r m where r: "nodes f = Some r" "maps f r = Some m"
    using assms by (auto simp: fsm_inv_def)
  then have "deref f (nodes f) = m" by (simp add: deref_def)
  with r show ?thesis
    by (simp add: Apply_def members_def apply_members_def CmdNodeJoin_def CmdNodeLeave_def
        split: sum.split) (simp add: deref_def)
qed

lemma Apply_result:
  assumes "fsm_inv f"
  shows "fst (Apply data f) =
    (case DecodeCommand data of Inl err \<Rightarrow> ApplyErr err | Inr c \<Rightarrow> ApplyNil)"
  using assms by (auto simp: fsm_inv_def Apply_def split: sum.splits)

lemma apply_log_Nil [simp]: "apply_log [] f = f"
  by (simp add: apply_log_def)

lemma apply_log_Cons: "apply_log (d # log) f = apply_log log (snd (Apply d f))"
  by (simp add: apply_log_def)

lemma apply_log_snoc: "apply_log (log @ [d]) f = snd (Apply d (apply_log log f))"
  by (simp add: apply_log_def)

lemma fsm_inv_apply_log: "fsm_inv f \<Longrightarrow> fsm_inv (apply_log log f)"
  by (induction log arbitrary: f) (simp_all add: apply_log_Cons fsm_inv_Apply)

lemma members_apply_log_cong:
  "fsm_inv f \<Longrightarrow> fsm_inv g \<Longrightarrow> members f = members g \<Longrightarrow>
   members (apply_log log f) = members (apply_log log g)"
proof (induction log arbitrary: f g)
  case (Cons d log)
  have "members (snd (Apply d f)) = members (snd (Apply d g))"
    using Cons.prems by (simp add: members_Apply split: sum.split)
  then show ?case
    using Cons.prems by (simp add: apply_log_Cons Cons.IH fsm_inv_Apply)
qed simp

section \<open>Encoding\<close>

text \<open>A command as it comes out of its encoding.\<close>

definition utf8_command :: "Command \<Rightarrow> Command" where
  "utf8_command c = \<lparr>Type = to_valid_utf8 (Type c), Address = to_valid_utf8 (Address c)\<rparr>"

lemma fold_name_fields [simp]:
  "fold_name ''type'' = ''type''" "fold_name ''address'' = ''address''"
  by (simp_all add: fold_name.simps lower_def code_def)

lemma DecodeCommand_Encode: "DecodeCommand (Encode c) = Inr (utf8_command c)"
  by (simp add: DecodeCommand_def Encode_def utf8_command_def)

section \<open>Snapshots\<close>

lemma keys_fold_update:
  "fst ` set (fold (\<lambda>(k, v). AList.update k v) ms m) = fst ` set m \<union> fst ` set ms"
  by (induction ms arbitrary: m) (simp_all add: split_beta)

lemma distinct_fold_update:
  "distinct (map fst m) \<Longrightarrow> distinct (map fst (fold (\<lambda>(k, v). AList.update k v) ms m))"
  by (induction ms arbitrary: m) (auto simp: distinct_update split_beta)

lemma fold_update_distinct:
  "distinct (map fst (m @ ms)) \<Longrightarrow> fold (\<lambda>(k, v). AList.update k v) ms m = m @ ms"
proof (induction ms arbitrary: m)
  case (Cons kv ms)
  obtain k v where kv: "kv = (k, v)" by (cases kv)
  have "AList.update k v m = m @ [(k, v)]" if "k \<notin> fst ` set m" for m
    using that by (induction m) auto
  with Cons kv show ?case by auto
qed simp

lemma Snapshot_eq:
  assumes "fsm_inv f"
  shows "Snapshot f =
    (next_ref f, f\<lparr>maps := (maps f)(next_ref f \<mapsto> deref f (nodes f)), next_ref := Suc (next_ref f)\<rparr>)"
proof -
  have "distinct (map fst (deref f (nodes f)))"
    using assms by (auto simp: fsm_inv_def deref_def)
  then show ?thesis
    by (simp add: Snapshot_def Let_def fold_update_distinct)
qed

lemma Snapshot_props:
  assumes "fsm_inv f" "Snapshot f = (r, f1)"
  shows "fsm_inv f1" "members f1 = members f" "maps f1 r = Some (deref f (nodes f))"
    "nodes f1 \<noteq> Some r" "r < next_ref f1"
proof -
  obtain q m where q: "nodes f = Some q" "maps f q = Some m" "q < next_ref f"
    using assms(1) by (auto simp: fsm_inv_def)
  then have m: "deref f (nodes f) = m" by (simp add: deref_def)
  have f1: "r = next_ref f"
    "f1 = f\<lparr>maps := (maps f)(next_ref f \<mapsto> m), next_ref := Suc (next_ref f)\<rparr>"
    using assms(2) Snapshot_eq [OF assms(1)] m by auto
  show "members f1 = members f" "maps f1 r = Some (deref f (nodes f))" "nodes f1 \<noteq> Some r"
    "r < next_ref f1"
    using q by (simp_all add: f1 members_def deref_def)
  have "dom (maps f) \<subseteq> {..<Suc (next_ref f)}" "distinct (map fst m)"
    using assms(1) q by (auto simp: fsm_inv_def intro: less_SucI)
  with q assms(1) show "fsm_inv f1" by (simp add: f1 fsm_inv_def)
qed

text \<open>An entry only touches the map of the field \<open>nodes\<close>.\<close>

lemma Apply_frame:
  "nodes (snd (Apply data f)) = nodes f"
  "nodes f \<noteq> Some r \<Longrightarrow> maps (snd (Apply data f)) r = maps f r"
  by (auto simp: Apply_def split: sum.splits option.splits)

lemma apply_log_frame:
  "nodes (apply_log log f) = nodes f \<and>
   (nodes f \<noteq> Some r \<longrightarrow> maps (apply_log log f) r = maps f r)"
  by (induction log arbitrary: f) (simp_all add: apply_log_Cons Apply_frame)

lemma map_of_json_of_map:
  "\<exists>m'. map_of_json (json_of_map m) = Inr (Some m') \<and> distinct (map fst m') \<and>
        fst ` set m' = to_valid_utf8 ` fst ` set m"
proof -
  let ?ms = "map (\<lambda>(k, v). (to_valid_utf8 k, JBool v)) (sort_key fst m)"
  let ?es = "map (\<lambda>(k, v). (k, v = JBool True)) ?ms"
  let ?m' = "fold (\<lambda>(k, v). AList.update k v) ?es []"
  have fold_eq: "fold (\<lambda>(k, v). AList.update k (v = JBool True)) ms n =
      fold (\<lambda>(k, v). AList.update k v) (map (\<lambda>(k, v). (k, v = JBool True)) ms) n" for ms n
    by (induction ms arbitrary: n) auto
  have "list_all (\<lambda>(k, v). is_bool_or_null v) ?ms"
    by (auto simp: list_all_iff is_bool_or_null_def)
  then have "map_of_json (json_of_map m) = Inr (Some ?m')"
    by (simp add: json_of_map_def fold_eq del: list.map_comp map_map)
  moreover have "distinct (map fst ?m')"
    by (rule distinct_fold_update) simp
  moreover have "fst ` set ?m' = to_valid_utf8 ` fst ` set m"
    by (simp only: keys_fold_update) (simp add: image_image split_beta)
  ultimately show ?thesis by blast
qed

lemma Restore_json_of_map:
  assumes "fsm_inv g"
  shows "fst (Restore (Some (json_of_map m)) g) = None"
    "fsm_inv (snd (Restore (Some (json_of_map m)) g))"
    "members (snd (Restore (Some (json_of_map m)) g)) = to_valid_utf8 ` fst ` set m"
proof -
  obtain m' where m': "map_of_json (json_of_map m) = Inr (Some m')" "distinct (map fst m')"
    "fst ` set m' = to_valid_utf8 ` fst ` set m"
    using map_of_json_of_map by blast
  then show "fst (Restore (Some (json_of_map m)) g) = None"
    "fsm_inv (snd (Restore (Some (json_of_map m)) g))"
    "members (snd (Restore (Some (json_of_map m)) g)) = to_valid_utf8 ` fst ` set m"
    using assms by (auto simp: Restore_def Let_def fsm_inv_def members_def deref_def split: if_splits)
qed


section \<open>The last command decides\<close>

text \<open>
  Whether the address is a member after the commands: its last join or leave says, and where
  there is none, nothing has changed.
\<close>

fun last_join :: "address \<Rightarrow> Command list \<Rightarrow> bool option" where
  "last_join a [] = None"
| "last_join a (c # cs) =
     (case last_join a cs of
        Some b \<Rightarrow> Some b
      | None \<Rightarrow>
          if Address c = a \<and> Type c = CmdNodeJoin then Some True
          else if Address c = a \<and> Type c = CmdNodeLeave then Some False
          else None)"

lemma join_not_leave [simp]: "CmdNodeJoin \<noteq> CmdNodeLeave" "CmdNodeLeave \<noteq> CmdNodeJoin"
  by (simp_all add: CmdNodeJoin_def CmdNodeLeave_def)

lemma fold_apply_members:
  "a \<in> fold apply_members cs A \<longleftrightarrow>
     (case last_join a cs of Some b \<Rightarrow> b | None \<Rightarrow> a \<in> A)"
  by (induction cs arbitrary: A) (auto simp: apply_members_def split: option.split)

lemma members_apply_log_Encode:
  "fsm_inv f \<Longrightarrow> members (apply_log (map Encode cs) f) = fold apply_members (map utf8_command cs) (members f)"
  by (induction cs arbitrary: f)
    (simp_all add: apply_log_Cons members_Apply DecodeCommand_Encode fsm_inv_Apply)

section \<open>Properties\<close>

text \<open>
  C23: \<open>Apply\<close> implements the abstract membership operation: from any state that a log can
  reach, applying an encoded command adds the address for a join, removes it for a leave,
  ignores any other type, reports no error and never panics.
\<close>

theorem Apply_refines:
  "let f = apply_log log NewClusterFSM; (r, f') = Apply (Encode c) f
   in r = ApplyNil \<and> members f' = apply_members (utf8_command c) (members f)"
  using Apply_result [OF fsm_inv_apply_log [OF fsm_inv_New(1)], of "Encode c" log]
    members_Apply [OF fsm_inv_apply_log [OF fsm_inv_New(1)], of "Encode c" log]
  by (simp add: DecodeCommand_Encode split_beta Let_def)

text \<open>
  An entry that does not decode is reported as the decoding error and changes nothing, so a
  corrupt entry cannot damage the membership of a node that replays the log.
\<close>

theorem Apply_decode_error:
  assumes "DecodeCommand data = Inl err"
  shows "Apply data f = (ApplyErr err, f)"
  using assms by (simp add: Apply_def)

text \<open>
  After any log of commands, the members that \<open>GetNodes\<close> returns (in whatever order the
  runtime ranges over the map) are exactly the addresses whose last command is a join.
\<close>

theorem members_last_command_wins:
  assumes "\<And>xs. set (rng xs) = set xs"
  shows "set (fsm_GetNodes rng (apply_log (map Encode cs) NewClusterFSM)) =
         {a. last_join a (map utf8_command cs) = Some True}"
proof -
  have "set (fsm_GetNodes rng (apply_log (map Encode cs) NewClusterFSM))
      = members (apply_log (map Encode cs) NewClusterFSM)"
    by (simp add: fsm_GetNodes_def assms members_def)
  also have "\<dots> = {a. a \<in> fold apply_members (map utf8_command cs) {}}"
    by (simp add: members_apply_log_Encode fsm_inv_New)
  also have "\<dots> = {a. last_join a (map utf8_command cs) = Some True}"
    by (simp add: fold_apply_members) (auto split: option.splits)
  finally show ?thesis .
qed

text \<open>
  C24: crash recovery. A snapshot taken at some point of the log, persisted only after further
  entries were applied, restored into a fresh state machine, and followed by the replay of
  those entries, gives the members of the state machine that never crashed (member addresses
  are read back with invalid UTF-8 replaced).
\<close>

theorem snapshot_recovery:
  assumes "Snapshot (apply_log log1 NewClusterFSM) = (snap, f)"
    and "Persist snap None None (apply_log log2 f) = (err, cancelled, sink)"
    and "\<forall>a \<in> members f. to_valid_utf8 a = a"
  shows "err = None \<and> \<not> cancelled \<and>
         (case Restore sink NewClusterFSM of (rerr, g) \<Rightarrow>
            rerr = None \<and>
            members (apply_log log2 g) = members (apply_log (log1 @ log2) NewClusterFSM))"
proof -
  let ?f0 = "apply_log log1 NewClusterFSM"
  have inv: "fsm_inv ?f0" by (simp add: fsm_inv_apply_log fsm_inv_New)
  note S = Snapshot_props [OF inv assms(1)]
  have "maps (apply_log log2 f) snap = Some (deref ?f0 (nodes ?f0))"
    using apply_log_frame [of log2 f snap] S(3,4) by simp
  then have P: "err = None" "\<not> cancelled" "sink = Some (json_of_map (deref ?f0 (nodes ?f0)))"
    using assms(2) by (simp_all add: Persist_def deref_def)
  obtain rerr g where g: "Restore sink NewClusterFSM = (rerr, g)" by fastforce
  note R = Restore_json_of_map [OF fsm_inv_New(1), of "deref ?f0 (nodes ?f0)", folded P(3), unfolded g]
  have "to_valid_utf8 ` members ?f0 = members ?f0"
    using assms(3) S(2) by simp
  then have "members g = members ?f0"
    using R(3) by (simp add: members_def)
  with R(2) inv have "members (apply_log log2 g) = members (apply_log log2 ?f0)"
    by (intro members_apply_log_cong) simp_all
  with P R(1) g show ?thesis by (simp add: apply_log_def)
qed

section \<open>Concrete instances\<close>

lemma Apply_decode_error_witness:
  "Apply (Some (JObj [(''type'', JNum 1)])) NewClusterFSM =
     (ApplyErr (Errorf ''json: cannot unmarshal into Command''), NewClusterFSM)"
  by (rule Apply_decode_error) (simp add: DecodeCommand_def)

lemma members_last_command_wins_witness:
  "set (fsm_GetNodes rev (apply_log (map Encode
      [\<lparr>Type = CmdNodeJoin, Address = ''a''\<rparr>, \<lparr>Type = CmdNodeJoin, Address = ''b''\<rparr>,
       \<lparr>Type = CmdNodeLeave, Address = ''a''\<rparr>]) NewClusterFSM)) = {''b''}"
  using members_last_command_wins [of rev
      "[\<lparr>Type = CmdNodeJoin, Address = ''a''\<rparr>, \<lparr>Type = CmdNodeJoin, Address = ''b''\<rparr>,
        \<lparr>Type = CmdNodeLeave, Address = ''a''\<rparr>]"]
  by (auto simp: utf8_command_def to_valid_utf8_ascii ascii_def code_def CmdNodeJoin_def
      CmdNodeLeave_def)

lemma snapshot_recovery_witness:
  "let c = (\<lambda>t a. Encode \<lparr>Type = t, Address = a\<rparr>);
       log1 = [c CmdNodeJoin ''a'', c CmdNodeJoin ''b'']; log2 = [c CmdNodeLeave ''a''];
       (snap, f) = Snapshot (apply_log log1 NewClusterFSM);
       (err, cancelled, sink) = Persist snap None None (apply_log log2 f);
       (rerr, g) = Restore sink NewClusterFSM
   in err = None \<and> rerr = None \<and>
      members (apply_log log2 g) = members (apply_log (log1 @ log2) NewClusterFSM)"
proof -
  let ?c = "\<lambda>t a. Encode \<lparr>Type = t, Address = a\<rparr>"
  let ?log1 = "[?c CmdNodeJoin ''a'', ?c CmdNodeJoin ''b'']" and ?log2 = "[?c CmdNodeLeave ''a'']"
  obtain snap f where S: "Snapshot (apply_log ?log1 NewClusterFSM) = (snap, f)" by fastforce
  obtain err cancelled sink where P: "Persist snap None None (apply_log ?log2 f) = (err, cancelled, sink)"
    by (metis prod_cases3)
  have inv: "fsm_inv (apply_log ?log1 NewClusterFSM)" by (simp add: fsm_inv_apply_log fsm_inv_New)
  have utf: "to_valid_utf8 ''a'' = ''a''" "to_valid_utf8 ''b'' = ''b''"
    "to_valid_utf8 CmdNodeJoin = CmdNodeJoin"
    by (simp_all add: to_valid_utf8_ascii ascii_def code_def CmdNodeJoin_def)
  have "members f = {''a'', ''b''}"
    using Snapshot_props(2) [OF inv S]
    by (simp add: apply_log_Cons members_Apply fsm_inv_Apply fsm_inv_New DecodeCommand_Encode
        utf8_command_def utf apply_members_def insert_commute)
  with snapshot_recovery [OF S P] utf S P show ?thesis
    by (simp add: Let_def split_beta)
qed

end
