(* ===== verification/Disk.thy ===== *)
theory Disk imports Prelude begin

text \<open>
  The storage node's disk (\<open>internal/storage/disk.go\<close>): \<open>SaveChunk\<close>, \<open>GetChunk\<close>,
  \<open>DeleteChunk\<close> and \<open>Health\<close> over a file system, with \<open>filepath.Join\<close> and the calls of
  package \<open>os\<close> written out. The disk can fail at every call (\<open>io_env\<close>), and a failed write
  leaves the bytes written so far in the file. The tracing spans are left out.
  The locale \<open>chunk_store\<close> is what the gateway relies on: a chunk that was saved is held, and
  stays held while other chunks are saved and deleted.
\<close>

section \<open>Paths: \<open>filepath.Join\<close> and \<open>filepath.Clean\<close>\<close>

text \<open>A cleaned path: whether it is absolute, and its components.\<close>

type_synonym path = "bool \<times> string list"

fun split_slash :: "string \<Rightarrow> string list" where
  "split_slash [] = [[]]"
| "split_slash (c # s) =
     (if c = CHR ''/'' then [] # split_slash s
      else (case split_slash s of [] \<Rightarrow> [[c]] | w # ws \<Rightarrow> (c # w) # ws))"

text \<open>\<open>out\<close> holds the components kept so far, the last one first.\<close>

fun clean_loop :: "bool \<Rightarrow> string list \<Rightarrow> string list \<Rightarrow> string list" where
  "clean_loop rooted out [] = out"
| "clean_loop rooted out (w # ws) =
     (if w = [] \<or> w = ''.'' then clean_loop rooted out ws
      else if w = ''..''
      then (if out \<noteq> [] \<and> hd out \<noteq> ''..'' then clean_loop rooted (tl out) ws
            else if rooted then clean_loop rooted out ws
            else clean_loop rooted (w # out) ws)
      else clean_loop rooted (w # out) ws)"

definition Clean :: "string \<Rightarrow> path" where
  "Clean s = (let rooted = (s \<noteq> [] \<and> hd s = CHR ''/'')
              in (rooted, rev (clean_loop rooted [] (split_slash s))))"

definition Join :: "string \<Rightarrow> string \<Rightarrow> path" where
  "Join a b = (if a = [] then Clean b else if b = [] then Clean a else Clean (a @ ''/'' @ b))"

text \<open>A file name that is one component: what a chunk hash is.\<close>

definition plain_name :: "string \<Rightarrow> bool" where
  "plain_name h \<longleftrightarrow> h \<noteq> [] \<and> h \<noteq> ''.'' \<and> h \<noteq> ''..'' \<and> CHR ''/'' \<notin> set h"

lemma split_slash_not_Nil [simp]: "split_slash s \<noteq> []"
  by (induction s) (auto split: list.splits)

lemma split_slash_plain: "CHR ''/'' \<notin> set h \<Longrightarrow> split_slash h = [h]"
  by (induction h) auto

lemma split_slash_append: "split_slash (a @ CHR ''/'' # b) = split_slash a @ split_slash b"
  by (induction a) (auto simp: neq_Nil_conv split: list.splits)

lemma clean_loop_append:
  "clean_loop rooted out (xs @ ys) = clean_loop rooted (clean_loop rooted out xs) ys"
  by (induction rooted out xs rule: clean_loop.induct) auto

lemma Join_plain:
  assumes "plain_name h"
  shows "Join d h = (fst (Clean d), snd (Clean d) @ [h])"
proof -
  have h: "h \<noteq> []" "hd h \<noteq> CHR ''/''" "split_slash h = [h]"
    using assms by (cases h; auto simp: plain_name_def split_slash_plain)+
  then have "hd (d @ CHR ''/'' # h) = (if d = [] then CHR ''/'' else hd d)" by simp
  with h assms show ?thesis
    by (simp add: Join_def Clean_def Let_def split_slash_append clean_loop_append plain_name_def)
qed

lemma Join_inj: "plain_name g \<Longrightarrow> plain_name h \<Longrightarrow> Join d g = Join d h \<longleftrightarrow> g = h"
  by (simp add: Join_plain)

section \<open>The file system\<close>

datatype entry = File bytes | Dir

text \<open>
  The entries of the file system by their path, and the node's \<open>DataDir\<close>. The directory the
  process runs in and the root directory always exist.
\<close>

record NodeHandler =
  DataDir :: string
  entries :: "(path \<times> entry) list"

definition entry_at :: "NodeHandler \<Rightarrow> path \<Rightarrow> entry option" where
  "entry_at n p = (if snd p = [] then Some Dir else map_of (entries n) p)"

definition parent :: "path \<Rightarrow> path" where
  "parent p = (fst p, butlast (snd p))"

definition ancestors :: "path \<Rightarrow> path list" where
  "ancestors p = map (\<lambda>k. (fst p, take k (snd p))) [1..<length (snd p)]"

definition is_file :: "entry option \<Rightarrow> bool" where
  "is_file e \<longleftrightarrow> (case e of Some (File _) \<Rightarrow> True | _ \<Rightarrow> False)"

text \<open>
  Which calls the disk fails in one request: \<open>write_short\<close> is the number of bytes that reach
  the file before the write fails.
\<close>

record io_env =
  mkdir_fails :: bool
  create_fails :: bool
  write_short :: "nat option"
  read_fails :: bool
  remove_fails :: bool

definition io_ok :: io_env where
  "io_ok = \<lparr>mkdir_fails = False, create_fails = False, write_short = None, read_fails = False,
            remove_fails = False\<rparr>"

text \<open>\<open>os.MkdirAll\<close> makes the missing directories from the top; a file in the way is an error.\<close>

fun mkdir_loop :: "path list \<Rightarrow> NodeHandler \<Rightarrow> bool \<times> NodeHandler" where
  "mkdir_loop [] n = (True, n)"
| "mkdir_loop (p # ps) n =
     (case entry_at n p of
        Some Dir \<Rightarrow> mkdir_loop ps n
      | Some (File _) \<Rightarrow> (False, n)
      | None \<Rightarrow> mkdir_loop ps (n\<lparr>entries := AList.update p Dir (entries n)\<rparr>))"

definition os_MkdirAll :: "io_env \<Rightarrow> string \<Rightarrow> NodeHandler \<Rightarrow> bool \<times> NodeHandler" where
  "os_MkdirAll io d n =
     (if d = [] \<or> mkdir_fails io then (False, n)
      else mkdir_loop (ancestors (Clean d) @ [Clean d]) n)"

text \<open>\<open>os.Create\<close> makes or truncates a file in an existing directory.\<close>

definition os_Create :: "io_env \<Rightarrow> path \<Rightarrow> NodeHandler \<Rightarrow> bool \<times> NodeHandler" where
  "os_Create io p n =
     (if create_fails io \<or> entry_at n (parent p) \<noteq> Some Dir \<or> entry_at n p = Some Dir
      then (False, n)
      else (True, n\<lparr>entries := AList.update p (File []) (entries n)\<rparr>))"

definition os_Write :: "io_env \<Rightarrow> path \<Rightarrow> bytes \<Rightarrow> NodeHandler \<Rightarrow> bool \<times> NodeHandler" where
  "os_Write io p data n =
     (case write_short io of
        None \<Rightarrow> (True, n\<lparr>entries := AList.update p (File data) (entries n)\<rparr>)
      | Some k \<Rightarrow> (False, n\<lparr>entries := AList.update p (File (take k data)) (entries n)\<rparr>))"

datatype os_error = NotExist | OsErr

definition missing :: "NodeHandler \<Rightarrow> path \<Rightarrow> os_error" where
  "missing n p = (if \<exists>q \<in> set (ancestors p). is_file (entry_at n q) then OsErr else NotExist)"

definition os_ReadFile :: "io_env \<Rightarrow> path \<Rightarrow> NodeHandler \<Rightarrow> os_error + bytes" where
  "os_ReadFile io p n =
     (case entry_at n p of
        None \<Rightarrow> Inl (missing n p)
      | Some Dir \<Rightarrow> Inl OsErr
      | Some (File b) \<Rightarrow> if read_fails io then Inl OsErr else Inr b)"

text \<open>\<open>os.Remove\<close> removes a file or an empty directory.\<close>

definition os_Remove :: "io_env \<Rightarrow> path \<Rightarrow> NodeHandler \<Rightarrow> os_error option \<times> NodeHandler" where
  "os_Remove io p n =
     (let n' = n\<lparr>entries := AList.delete p (entries n)\<rparr>
      in case entry_at n p of
           None \<Rightarrow> (Some (missing n p), n)
         | Some (File _) \<Rightarrow> if remove_fails io then (Some OsErr, n) else (None, n')
         | Some Dir \<Rightarrow>
             if remove_fails io \<or> snd p = [] \<or> (\<exists>(q, e) \<in> set (entries n). q \<noteq> p \<and> parent q = p)
             then (Some OsErr, n) else (None, n'))"

section \<open>The handlers\<close>

definition node_SaveChunk ::
  "io_env \<Rightarrow> string \<Rightarrow> bytes \<Rightarrow> NodeHandler \<Rightarrow> (go_error + bool) \<times> NodeHandler" where
  "node_SaveChunk io hash data n =
     (if hash = [] then (Inl (Errorf ''hash required''), n)
      else let (ok, n) = os_MkdirAll io (DataDir n) n
           in if \<not> ok then (Inl (Errorf ''failed to create storage dir''), n)
              else let (ok, n) = os_Create io (Join (DataDir n) hash) n
                   in if \<not> ok then (Inl (Errorf ''failed to create chunk file''), n)
                      else let (ok, n) = os_Write io (Join (DataDir n) hash) data n
                           in if \<not> ok then (Inl (Errorf ''failed to write chunk''), n)
                              else (Inr True, n))"

definition node_GetChunk :: "io_env \<Rightarrow> string \<Rightarrow> NodeHandler \<Rightarrow> go_error + bytes" where
  "node_GetChunk io hash n =
     (case os_ReadFile io (Join (DataDir n) hash) n of
        Inl NotExist \<Rightarrow> Inl (Errorf ''chunk not found'')
      | Inl OsErr \<Rightarrow> Inl (Errorf ''failed to read chunk'')
      | Inr data \<Rightarrow> Inr data)"

definition node_DeleteChunk ::
  "io_env \<Rightarrow> string \<Rightarrow> NodeHandler \<Rightarrow> (go_error + bool) \<times> NodeHandler" where
  "node_DeleteChunk io hash n =
     (case os_Remove io (Join (DataDir n) hash) n of
        (Some NotExist, n) \<Rightarrow> (Inl (Errorf ''chunk not found''), n)
      | (Some OsErr, n) \<Rightarrow> (Inl (Errorf ''failed to delete chunk''), n)
      | (None, n) \<Rightarrow> (Inr True, n))"

definition node_Health :: "NodeHandler \<Rightarrow> string \<times> string" where
  "node_Health n = (''ok'', DataDir n)"

section \<open>What a node holds\<close>

definition chunk_at :: "NodeHandler \<Rightarrow> string \<Rightarrow> bytes option" where
  "chunk_at n h = (case entry_at n (Join (DataDir n) h) of Some (File b) \<Rightarrow> Some b | _ \<Rightarrow> None)"

lemma entry_at_update:
  "snd p \<noteq> [] \<Longrightarrow> entry_at (n\<lparr>entries := AList.update p e (entries n)\<rparr>) q =
     (if q = p then Some e else entry_at n q)"
  by (auto simp: entry_at_def AList.update_conv')

lemma entry_at_delete:
  "snd p \<noteq> [] \<Longrightarrow> entry_at (n\<lparr>entries := AList.delete p (entries n)\<rparr>) q =
     (if q = p then None else entry_at n q)"
  by (auto simp: entry_at_def AList.delete_conv')

lemma mkdir_loop_DataDir [simp]: "DataDir (snd (mkdir_loop ps n)) = DataDir n"
  by (induction ps arbitrary: n) (auto split: option.splits entry.splits)

lemma mkdir_loop_entry:
  assumes "q \<notin> set ps \<or> entry_at n q \<noteq> None"
  shows "entry_at (snd (mkdir_loop ps n)) q = entry_at n q"
  using assms
proof (induction ps arbitrary: n)
  case (Cons p ps)
  show ?case
  proof (cases "entry_at n p")
    case None
    then have "snd p \<noteq> []" by (auto simp: entry_at_def)
    then have "entry_at (n\<lparr>entries := AList.update p Dir (entries n)\<rparr>) q =
        (if q = p then Some Dir else entry_at n q)"
      by (rule entry_at_update)
    with None Cons show ?thesis by (auto split: if_splits)
  next
    case (Some e)
    with Cons show ?thesis by (cases e) auto
  qed
qed simp

lemma os_DataDir [simp]:
  "DataDir (snd (os_MkdirAll io d n)) = DataDir n"
  "DataDir (snd (os_Create io p n)) = DataDir n"
  "DataDir (snd (os_Write io p data n)) = DataDir n"
  "DataDir (snd (os_Remove io p n)) = DataDir n"
  by (simp_all add: os_MkdirAll_def os_Create_def os_Write_def os_Remove_def Let_def
      split: option.split entry.split)

lemma Join_not_root: "plain_name h \<Longrightarrow> snd (Join d h) \<noteq> []"
  by (simp add: Join_plain)

text \<open>The four outcomes of \<open>SaveChunk\<close>, in the order of its early returns.\<close>

lemma node_SaveChunk_cases:
  obtains (error) msg n' where "node_SaveChunk io h data n = (Inl (Errorf msg), n')"
    "n' = n \<or> n' = snd (os_MkdirAll io (DataDir n) n)"
  | (short) k n1 where "write_short io = Some k" "n1 = snd (os_MkdirAll io (DataDir n) n)"
    "snd (Join (DataDir n) h) \<noteq> []"
    "node_SaveChunk io h data n = (Inl (Errorf ''failed to write chunk''),
       n1\<lparr>entries := AList.update (Join (DataDir n) h) (File (take k data)) (entries n1)\<rparr>)"
  | (saved) n1 where "n1 = snd (os_MkdirAll io (DataDir n) n)" "snd (Join (DataDir n) h) \<noteq> []"
    "node_SaveChunk io h data n = (Inr True,
       n1\<lparr>entries := AList.update (Join (DataDir n) h) (File data) (entries n1)\<rparr>)"
proof (cases "h = []")
  case True
  then show thesis using error [of "''hash required''" n] by (simp add: node_SaveChunk_def)
next
  case False
  obtain ok n1 where m: "os_MkdirAll io (DataDir n) n = (ok, n1)" by fastforce
  then have d: "DataDir n1 = DataDir n" using os_DataDir(1) [of io "DataDir n" n] by simp
  let ?p = "Join (DataDir n) h"
  have n1: "n1 = snd (os_MkdirAll io (DataDir n) n)" using m by simp
  show thesis
  proof (cases "ok \<and> fst (os_Create io ?p n1)")
    case True
    then have c: "os_Create io ?p n1 = (True, n1\<lparr>entries := AList.update ?p (File []) (entries n1)\<rparr>)"
      and "snd ?p \<noteq> []"
      by (auto simp: os_Create_def entry_at_def split: if_splits)
    have eq: "node_SaveChunk io h data n =
        (case write_short io of
           None \<Rightarrow> (Inr True, n1\<lparr>entries := AList.update ?p (File data) (entries n1)\<rparr>)
         | Some k \<Rightarrow> (Inl (Errorf ''failed to write chunk''),
             n1\<lparr>entries := AList.update ?p (File (take k data)) (entries n1)\<rparr>))"
      using False True m d c
      by (simp add: node_SaveChunk_def os_Write_def split: option.split)
    show thesis
    proof (cases "write_short io")
      case None
      with eq n1 \<open>snd ?p \<noteq> []\<close> show thesis by (intro saved [of n1]) simp_all
    next
      case (Some k)
      with eq n1 \<open>snd ?p \<noteq> []\<close> show thesis by (intro short [of k n1]) simp_all
    qed
  next
    case no: False
    then have c: "os_Create io ?p n1 = (False, n1)" if ok
      using that by (auto simp: os_Create_def split: if_splits)
    show thesis
    proof (cases ok)
      case True
      with False m d c show thesis
        by (intro error [of "''failed to create chunk file''" n1]) (simp_all add: node_SaveChunk_def)
    next
      case not_ok: False
      with False m show thesis
        by (intro error [of "''failed to create storage dir''" n1]) (simp_all add: node_SaveChunk_def)
    qed
  qed
qed

lemma os_MkdirAll_entry:
  assumes "entry_at n q \<noteq> None"
  shows "entry_at (snd (os_MkdirAll io d n)) q = entry_at n q"
  using assms by (simp add: os_MkdirAll_def mkdir_loop_entry)

lemma mkdir_loop_new:
  "entry_at (snd (mkdir_loop ps n)) q = entry_at n q \<or> entry_at (snd (mkdir_loop ps n)) q = Some Dir"
proof (induction ps arbitrary: n)
  case (Cons p ps)
  show ?case
  proof (cases "entry_at n p")
    case None
    then have "snd p \<noteq> []" by (auto simp: entry_at_def)
    then have "entry_at (n\<lparr>entries := AList.update p Dir (entries n)\<rparr>) q =
        (if q = p then Some Dir else entry_at n q)"
      by (rule entry_at_update)
    with None Cons [of "n\<lparr>entries := AList.update p Dir (entries n)\<rparr>"] show ?thesis
      by (auto split: if_splits)
  next
    case (Some e)
    with Cons show ?thesis by (cases e) auto
  qed
qed simp

lemma chunk_at_MkdirAll [simp]: "chunk_at (snd (os_MkdirAll io d n)) h = chunk_at n h"
proof -
  have "entry_at (snd (os_MkdirAll io d n)) q = entry_at n q \<or>
      (entry_at n q = None \<and> entry_at (snd (os_MkdirAll io d n)) q = Some Dir)" for q
    using mkdir_loop_new [of "ancestors (Clean d) @ [Clean d]" n q] os_MkdirAll_entry [of n q io d]
    by (cases "entry_at n q") (auto simp: os_MkdirAll_def)
  from this [of "Join (DataDir n) h"] show ?thesis
    by (auto simp: chunk_at_def)
qed

lemma chunk_at_upd:
  "DataDir n = d \<Longrightarrow> snd (Join d h) \<noteq> [] \<Longrightarrow>
   chunk_at (n\<lparr>entries := AList.update (Join d h) (File b) (entries n)\<rparr>) g =
     (if Join d g = Join d h then Some b else chunk_at n g)"
  by (auto simp: chunk_at_def entry_at_def AList.update_conv')

lemma node_SaveChunk_DataDir [simp]: "DataDir (snd (node_SaveChunk io h data n)) = DataDir n"
  by (cases rule: node_SaveChunk_cases [of io h data n]) auto

text \<open>A save that reports success holds exactly the data.\<close>

lemma node_SaveChunk_holds:
  assumes "node_SaveChunk io h data n = (Inr b, n')"
  shows "chunk_at n' h = Some data"
  using assms
  by (cases rule: node_SaveChunk_cases [of io h data n]) (auto simp: chunk_at_upd)

text \<open>A save of one chunk does not touch another one, whatever it reports.\<close>

lemma node_SaveChunk_frame:
  assumes "plain_name g" "plain_name h" "g \<noteq> h"
  shows "chunk_at (snd (node_SaveChunk io h data n)) g = chunk_at n g"
  using assms
  by (cases rule: node_SaveChunk_cases [of io h data n])
    (auto simp: chunk_at_upd Join_inj)

lemma node_GetChunk_eq:
  "node_GetChunk io h n = Inr data \<longleftrightarrow> chunk_at n h = Some data \<and> \<not> read_fails io"
  by (auto simp: node_GetChunk_def os_ReadFile_def chunk_at_def
      split: option.splits entry.splits os_error.splits sum.splits if_splits)

lemma snd_node_DeleteChunk:
  "snd (node_DeleteChunk io h n) = snd (os_Remove io (Join (DataDir n) h) n)"
  by (auto simp: node_DeleteChunk_def split: prod.splits option.splits os_error.splits)

lemma node_DeleteChunk_DataDir [simp]: "DataDir (snd (node_DeleteChunk io h n)) = DataDir n"
  by (simp add: snd_node_DeleteChunk)

lemma os_Remove_entry:
  "entry_at (snd (os_Remove io p n)) q = entry_at n q \<or>
   (q = p \<and> fst (os_Remove io p n) = None \<and> entry_at (snd (os_Remove io p n)) q = None)"
proof (cases "snd p = []")
  case True
  then show ?thesis by (auto simp: os_Remove_def Let_def entry_at_def)
next
  case False
  with entry_at_delete [where p = p and n = n and q = q] show ?thesis
    by (auto simp: os_Remove_def Let_def split: option.splits entry.splits)
qed

lemma node_DeleteChunk_frame:
  assumes "plain_name g" "plain_name h" "g \<noteq> h"
  shows "chunk_at (snd (node_DeleteChunk io h n)) g = chunk_at n g"
proof -
  have "entry_at (snd (os_Remove io (Join (DataDir n) h) n)) (Join (DataDir n) g) =
      entry_at n (Join (DataDir n) g)"
    using os_Remove_entry [of io "Join (DataDir n) h" n "Join (DataDir n) g"] assms
    by (simp add: Join_inj)
  then show ?thesis
    by (simp add: chunk_at_def snd_node_DeleteChunk)
qed

lemma node_DeleteChunk_gone:
  assumes "node_DeleteChunk io h n = (Inr b, n')"
  shows "chunk_at n' h = None"
proof -
  have r: "os_Remove io (Join (DataDir n) h) n = (None, n')"
    using assms by (auto simp: node_DeleteChunk_def split: prod.splits option.splits os_error.splits)
  then have "snd (Join (DataDir n) h) \<noteq> []"
    by (auto simp: os_Remove_def entry_at_def Let_def split: if_splits)
  with r have "entry_at n' (Join (DataDir n) h) = None"
    using entry_at_delete [where p = "Join (DataDir n) h" and n = n]
    by (auto simp: os_Remove_def Let_def split: option.splits entry.splits if_splits)
  moreover have "DataDir n' = DataDir n" using r os_DataDir(4) [of io _ n] by (metis snd_conv)
  ultimately show ?thesis by (simp add: chunk_at_def)
qed

section \<open>A node that can save\<close>

text \<open>
  The data directory can be made (no file is in its way) and holds files only.
\<close>

definition data_dirs :: "NodeHandler \<Rightarrow> path list" where
  "data_dirs n = ancestors (Clean (DataDir n)) @ [Clean (DataDir n)]"

definition node_ok :: "NodeHandler \<Rightarrow> bool" where
  "node_ok n \<longleftrightarrow> DataDir n \<noteq> [] \<and> (\<forall>q \<in> set (data_dirs n). \<not> is_file (entry_at n q)) \<and>
     (\<forall>(p, e) \<in> set (entries n). snd p \<noteq> [] \<and> parent p = Clean (DataDir n) \<longrightarrow> is_file (Some e))"

lemma data_dirs_length: "q \<in> set (data_dirs n) \<Longrightarrow> length (snd q) \<le> length (snd (Clean (DataDir n)))"
  by (auto simp: data_dirs_def ancestors_def)

lemma data_dirs_not_below:
  assumes "q \<in> set (data_dirs n)" "snd q \<noteq> []"
  shows "parent q \<noteq> Clean (DataDir n)"
proof
  assume "parent q = Clean (DataDir n)"
  then have "length (snd q) - 1 = length (snd (Clean (DataDir n)))"
    by (metis length_butlast parent_def snd_conv)
  with data_dirs_length [OF assms(1)] assms(2) show False by (cases "snd q") auto
qed

lemma data_dirs_not_chunk: "q \<in> set (data_dirs n) \<Longrightarrow> plain_name h \<Longrightarrow> q \<noteq> Join (DataDir n) h"
  using data_dirs_length [of q n] by (auto simp: Join_plain)

lemma node_ok_no_dir:
  assumes "node_ok n" "plain_name h"
  shows "entry_at n (Join (DataDir n) h) \<noteq> Some Dir"
proof
  let ?p = "Join (DataDir n) h"
  assume "entry_at n ?p = Some Dir"
  moreover have p: "snd ?p \<noteq> []" "parent ?p = Clean (DataDir n)"
    using assms(2) by (simp_all add: Join_plain parent_def)
  ultimately have "(?p, Dir) \<in> set (entries n)"
    by (auto simp: entry_at_def dest: map_of_SomeD)
  with p assms(1) show False
    by (auto simp: node_ok_def is_file_def)
qed

lemma mkdir_loop_dirs:
  assumes "\<forall>q \<in> set ps. \<not> is_file (entry_at n q)"
  shows "fst (mkdir_loop ps n) \<and> (\<forall>q \<in> set ps. entry_at (snd (mkdir_loop ps n)) q = Some Dir)"
  using assms
proof (induction ps arbitrary: n)
  case (Cons p ps)
  show ?case
  proof (cases "entry_at n p")
    case None
    let ?n = "n\<lparr>entries := AList.update p Dir (entries n)\<rparr>"
    have "snd p \<noteq> []" using None by (auto simp: entry_at_def)
    then have upd: "entry_at ?n q = (if q = p then Some Dir else entry_at n q)" for q
      by (rule entry_at_update)
    with Cons.prems have "\<forall>q \<in> set ps. \<not> is_file (entry_at ?n q)"
      by (simp add: is_file_def)
    from Cons.IH [OF this] None upd [of p] show ?thesis
      using mkdir_loop_entry [of p ps ?n] by simp
  next
    case (Some e)
    with Cons show ?thesis
      using mkdir_loop_entry [of p ps n] by (cases e) (simp_all add: is_file_def)
  qed
qed simp

lemma mkdir_loop_entries:
  "set (entries (snd (mkdir_loop ps n))) \<subseteq> set (entries n) \<union> (\<lambda>p. (p, Dir)) ` set ps"
proof (induction ps arbitrary: n)
  case (Cons p ps)
  show ?case
    using Cons [of n] Cons [of "n\<lparr>entries := AList.update p Dir (entries n)\<rparr>"]
      set_update_subset [of p Dir "entries n"]
    by (auto split: option.splits entry.splits)
qed simp

lemma node_ok_MkdirAll:
  assumes "node_ok n"
  shows "node_ok (snd (os_MkdirAll io (DataDir n) n))"
proof -
  let ?n = "snd (mkdir_loop (data_dirs n) n)"
  have d: "DataDir ?n = DataDir n" by simp
  have "\<not> is_file (entry_at ?n q)" if "q \<in> set (data_dirs n)" for q
    using assms that mkdir_loop_new [of "data_dirs n" n q]
    by (auto simp: node_ok_def is_file_def)
  moreover have "is_file (Some e)"
    if "(p, e) \<in> set (entries ?n)" "snd p \<noteq> []" "parent p = Clean (DataDir n)" for p e
    using that assms mkdir_loop_entries [of "data_dirs n" n] data_dirs_not_below [of p n]
    by (fastforce simp: node_ok_def)
  ultimately have "node_ok ?n"
    using assms d unfolding node_ok_def data_dirs_def by auto
  with assms show ?thesis
    by (auto simp: os_MkdirAll_def data_dirs_def)
qed

lemma node_ok_put:
  assumes "node_ok n" "plain_name h" "DataDir n = d"
  shows "node_ok (n\<lparr>entries := AList.update (Join d h) (File b) (entries n)\<rparr>)"
proof -
  let ?n = "n\<lparr>entries := AList.update (Join d h) (File b) (entries n)\<rparr>"
  have "entry_at ?n q = entry_at n q" if "q \<in> set (data_dirs n)" for q
    using that assms data_dirs_not_chunk [of q n h] entry_at_update [where p = "Join d h" and n = n and q = q]
    by (simp add: Join_not_root)
  moreover have "is_file (Some e)"
    if "(p, e) \<in> set (entries ?n)" "snd p \<noteq> []" "parent p = Clean d" for p e
    using that assms set_update_subset [of "Join d h" "File b" "entries n"]
    by (fastforce simp: node_ok_def is_file_def)
  ultimately show ?thesis
    using assms unfolding node_ok_def data_dirs_def by auto
qed

lemma node_ok_SaveChunk:
  assumes "node_ok n" "plain_name h"
  shows "node_ok (snd (node_SaveChunk io h data n))"
  using assms node_ok_MkdirAll [OF assms(1), of io]
  by (cases rule: node_SaveChunk_cases [of io h data n]) (auto simp: node_ok_put)

lemma node_ok_DeleteChunk:
  assumes "node_ok n" "plain_name h"
  shows "node_ok (snd (node_DeleteChunk io h n))"
proof -
  let ?p = "Join (DataDir n) h"
  let ?n = "n\<lparr>entries := AList.delete ?p (entries n)\<rparr>"
  have "snd (os_Remove io ?p n) = n \<or> snd (os_Remove io ?p n) = ?n"
    by (auto simp: os_Remove_def Let_def split: option.splits entry.splits)
  moreover have "node_ok ?n"
  proof -
    have "entry_at ?n q = entry_at n q" if "q \<in> set (data_dirs n)" for q
      using that assms data_dirs_not_chunk [of q n h] entry_at_delete [where p = ?p and n = n and q = q]
      by (simp add: Join_not_root)
    moreover have "set (entries ?n) \<subseteq> set (entries n)"
      by (auto simp: AList.delete_eq)
    ultimately show ?thesis
      using assms unfolding node_ok_def data_dirs_def by auto
  qed
  ultimately show ?thesis
    using assms(1) by (auto simp: snd_node_DeleteChunk)
qed

text \<open>On a usable node only the write decides.\<close>

lemma node_SaveChunk_open:
  assumes "node_ok n" "plain_name h" "\<not> mkdir_fails io" "\<not> create_fails io"
  shows "\<exists>n1. DataDir n1 = DataDir n \<and> node_SaveChunk io h data n =
    (case write_short io of
       None \<Rightarrow> (Inr True, n1\<lparr>entries := AList.update (Join (DataDir n) h) (File data) (entries n1)\<rparr>)
     | Some k \<Rightarrow> (Inl (Errorf ''failed to write chunk''),
         n1\<lparr>entries := AList.update (Join (DataDir n) h) (File (take k data)) (entries n1)\<rparr>))"
proof -
  have h: "h \<noteq> []" using assms(2) by (simp add: plain_name_def)
  obtain n1 where m: "os_MkdirAll io (DataDir n) n = (True, n1)" "entry_at n1 (Clean (DataDir n)) = Some Dir"
    using assms(1,3) mkdir_loop_dirs [of "data_dirs n" n]
    by (cases "mkdir_loop (data_dirs n) n") (auto simp: os_MkdirAll_def node_ok_def data_dirs_def)
  have n1: "node_ok n1" "DataDir n1 = DataDir n"
    using node_ok_MkdirAll [OF assms(1), of io] os_DataDir(1) [of io "DataDir n" n] m(1)
    by simp_all
  have "parent (Join (DataDir n) h) = Clean (DataDir n)"
    using assms(2) by (simp add: Join_plain parent_def)
  with m(2) n1 assms(4) node_ok_no_dir [OF n1(1) assms(2)]
  have "os_Create io (Join (DataDir n) h) n1 =
      (True, n1\<lparr>entries := AList.update (Join (DataDir n) h) (File []) (entries n1)\<rparr>)"
    by (simp add: os_Create_def)
  with h m(1) n1(2) show ?thesis
    by (intro exI [of _ n1]) (simp add: node_SaveChunk_def os_Write_def split: option.split)
qed

lemma node_SaveChunk_live:
  "node_ok n \<Longrightarrow> plain_name h \<Longrightarrow> fst (node_SaveChunk io_ok h data n) = Inr True"
  using node_SaveChunk_open [of n h io_ok data] by (auto simp: io_ok_def)

section \<open>The interface that the gateway relies on\<close>

datatype store_op = OpSave string bytes | OpDelete string

fun op_name :: "store_op \<Rightarrow> string" where
  "op_name (OpSave h d) = h"
| "op_name (OpDelete h) = h"

text \<open>A sequence of requests, each with the disk faults it meets.\<close>

fun run_store ::
  "('io \<Rightarrow> string \<Rightarrow> bytes \<Rightarrow> 's \<Rightarrow> ('e + 'r) \<times> 's) \<Rightarrow> ('io \<Rightarrow> string \<Rightarrow> 's \<Rightarrow> ('e + 'r) \<times> 's) \<Rightarrow>
   ('io \<times> store_op) list \<Rightarrow> 's \<Rightarrow> 's" where
  "run_store sv dl [] s = s"
| "run_store sv dl ((io, OpSave h d) # ops) s = run_store sv dl ops (snd (sv io h d s))"
| "run_store sv dl ((io, OpDelete h) # ops) s = run_store sv dl ops (snd (dl io h s))"

locale chunk_store =
  fixes sv :: "'io \<Rightarrow> string \<Rightarrow> bytes \<Rightarrow> 's \<Rightarrow> ('e + 'r) \<times> 's"
    and gt :: "'io \<Rightarrow> string \<Rightarrow> 's \<Rightarrow> 'e + bytes"
    and dl :: "'io \<Rightarrow> string \<Rightarrow> 's \<Rightarrow> ('e + 'r) \<times> 's"
    and holds :: "'s \<Rightarrow> string \<Rightarrow> bytes option"
    and name_ok :: "string \<Rightarrow> bool"
  assumes sv_holds: "sv io h d s = (Inr r, s') \<Longrightarrow> holds s' h = Some d"
    and sv_frame: "name_ok g \<Longrightarrow> name_ok h \<Longrightarrow> g \<noteq> h \<Longrightarrow> holds (snd (sv io h d s)) g = holds s g"
    and dl_gone: "dl io h s = (Inr r, s') \<Longrightarrow> holds s' h = None"
    and dl_frame: "name_ok g \<Longrightarrow> name_ok h \<Longrightarrow> g \<noteq> h \<Longrightarrow> holds (snd (dl io h s)) g = holds s g"
    and gt_holds: "gt io h s = Inr d \<Longrightarrow> holds s h = Some d"
begin

lemma run_frame:
  "name_ok g \<Longrightarrow> \<forall>(io, p) \<in> set ops. name_ok (op_name p) \<and> op_name p \<noteq> g \<Longrightarrow>
   holds (run_store sv dl ops s) g = holds s g"
proof (induction ops arbitrary: s)
  case (Cons op ops)
  obtain io p where "op = (io, p)" by (cases op)
  with Cons show ?case by (cases p) (auto simp: sv_frame dl_frame)
qed simp

lemma saved_then_read:
  assumes "sv io h d s = (Inr r, s')" "name_ok h"
    and "\<forall>(io, p) \<in> set ops. name_ok (op_name p) \<and> op_name p \<noteq> h"
    and "gt io' h (run_store sv dl ops s') = Inr d'"
  shows "d' = d"
  using gt_holds [OF assms(4)] run_frame [OF assms(2,3)] sv_holds [OF assms(1)] by simp

end

interpretation disk: chunk_store node_SaveChunk node_GetChunk node_DeleteChunk chunk_at plain_name
  by unfold_locales
    (simp_all add: node_SaveChunk_holds node_SaveChunk_frame node_DeleteChunk_gone
      node_DeleteChunk_frame node_GetChunk_eq)

section \<open>Properties\<close>

text \<open>
  C25: a chunk that \<open>SaveChunk\<close> acknowledged is what every later successful \<open>GetChunk\<close> returns,
  through any sequence of saves and deletes of other chunks and whatever the disk does to them.
\<close>

theorem disk_read_your_writes:
  assumes "node_SaveChunk io h data n = (Inr r, n')" "plain_name h"
    and "\<forall>(io, p) \<in> set ops. plain_name (op_name p) \<and> op_name p \<noteq> h"
    and "node_GetChunk io' h (run_store node_SaveChunk node_DeleteChunk ops n') = Inr data'"
  shows "data' = data"
  using assms by (rule disk.saved_then_read)

text \<open>
  \<open>DataDir\<close> is no boundary. A name with \<open>../\<close> in it is joined and cleaned like any other, so
  a save on one node's handler overwrites a file in a sibling directory, and succeeds.
\<close>

theorem disk_path_traversal:
  "let n = \<lparr>DataDir = ''./data/nodeA'',
            entries = [((False, [''data'']), Dir), ((False, [''data'', ''nodeA'']), Dir),
                       ((False, [''data'', ''nodeB'']), Dir),
                       ((False, [''data'', ''nodeB'', ''c'']), File [1, 2])]\<rparr>;
       (r, n') = node_SaveChunk io_ok ''../nodeB/c'' [9] n
   in r = Inr True \<and> entry_at n' (False, [''data'', ''nodeB'', ''c'']) = Some (File [9])"
  by (simp add: node_SaveChunk_def os_MkdirAll_def os_Create_def os_Write_def io_ok_def Clean_def
      Join_def ancestors_def entry_at_def parent_def upt_conv_Cons Let_def)

text \<open>
  C26: a save is not atomic. When the write fails after some bytes, \<open>SaveChunk\<close> reports an error
  but leaves the truncated file under the chunk's name, and a later \<open>GetChunk\<close> returns those
  bytes without an error, even where the node held the whole chunk before.
\<close>

theorem disk_torn_write:
  assumes "node_ok n" "plain_name h" "write_short io = Some k"
    and "\<not> mkdir_fails io" "\<not> create_fails io"
  shows "\<exists>n'. node_SaveChunk io h data n = (Inl (Errorf ''failed to write chunk''), n') \<and>
           node_GetChunk io_ok h n' = Inr (take k data)"
proof -
  obtain n1 where "DataDir n1 = DataDir n" "node_SaveChunk io h data n =
      (Inl (Errorf ''failed to write chunk''),
       n1\<lparr>entries := AList.update (Join (DataDir n) h) (File (take k data)) (entries n1)\<rparr>)"
    using node_SaveChunk_open [OF assms(1,2,4,5), of data] assms(3) by auto
  then show ?thesis
    using chunk_at_upd [of n1 "DataDir n" h "take k data" h] Join_not_root [OF assms(2)]
    by (simp add: node_GetChunk_eq io_ok_def)
qed


section \<open>Concrete instances\<close>

definition disk_example :: NodeHandler where
  "disk_example = \<lparr>DataDir = ''./data'', entries = [((False, [''data'']), Dir)]\<rparr>"

lemmas disk_eval = node_SaveChunk_def node_GetChunk_def node_DeleteChunk_def os_MkdirAll_def
  os_Create_def os_Write_def os_ReadFile_def os_Remove_def io_ok_def Clean_def Join_def
  ancestors_def entry_at_def parent_def upt_conv_Cons Let_def

lemma plain_c: "plain_name ''c''" "plain_name ''d''"
  by (simp_all add: plain_name_def)

definition disk_example_ops :: "(io_env \<times> store_op) list" where
  "disk_example_ops = [(io_ok, OpSave ''d'' [3]), (io_ok, OpDelete ''d'')]"

definition disk_example_run :: "go_error + bytes" where
  "disk_example_run = node_GetChunk io_ok ''c'' (run_store node_SaveChunk node_DeleteChunk
     disk_example_ops (snd (node_SaveChunk io_ok ''c'' [1, 2] disk_example)))"

lemma disk_example_evals: "disk_example_run = Inr [1, 2]"
  by (simp add: disk_eval disk_example_def disk_example_run_def disk_example_ops_def)

lemma disk_read_your_writes_witness:
  "disk_example_run = Inr [1, 2]"
proof -
  obtain data where data: "disk_example_run = Inr data" using disk_example_evals by blast
  have "node_SaveChunk io_ok ''c'' [1, 2] disk_example =
      (Inr True, snd (node_SaveChunk io_ok ''c'' [1, 2] disk_example))"
    by (simp add: disk_eval disk_example_def)
  moreover have "\<forall>(io, p) \<in> set disk_example_ops. plain_name (op_name p) \<and> op_name p \<noteq> ''c''"
    by (simp add: disk_example_ops_def plain_c)
  ultimately have "data = [1, 2]"
    using data plain_c(1) unfolding disk_example_run_def by (intro disk_read_your_writes)
  with data show ?thesis by simp
qed

lemma disk_torn_write_witness:
  "\<exists>n'. node_SaveChunk (io_ok\<lparr>write_short := Some 1\<rparr>) ''c'' [1, 2] disk_example =
          (Inl (Errorf ''failed to write chunk''), n') \<and>
        node_GetChunk io_ok ''c'' n' = Inr [1]"
  using disk_torn_write [of disk_example "''c''" "io_ok\<lparr>write_short := Some 1\<rparr>" 1 "[1, 2]"] plain_c
  by (auto simp: node_ok_def disk_example_def data_dirs_def ancestors_def Clean_def Let_def
      entry_at_def is_file_def io_ok_def parent_def)

end
