(* ===== verification/AesBox.thy ===== *)
theory AesBox imports GoCrypto begin

text \<open>
  Encryption of chunks at rest: \<open>Encrypt\<close> and \<open>Decrypt\<close> of \<open>internal/crypto/aes.go\<close>, over the
  AES-GCM of theory \<open>GoCrypto\<close>. The random bytes that the system has to give are an argument.
  The file shows that \<open>Decrypt\<close> accepts exactly the outputs of \<open>Encrypt\<close>.
\<close>

section \<open>The code\<close>

definition NewCipher :: "bytes \<Rightarrow> go_error + bytes" where
  "NewCipher key = (if aes_key_ok key then Inr key else Inl (Errorf ''crypto/aes: invalid key size''))"

text \<open>\<open>io.ReadFull\<close> from a reader that has these bytes left.\<close>

definition ReadFull_random :: "bytes \<Rightarrow> nat \<Rightarrow> go_error + bytes" where
  "ReadFull_random rand n =
     (if length rand < n then Inl (Errorf ''unexpected EOF'') else Inr (take n rand))"

definition Encrypt :: "bytes \<Rightarrow> bytes \<Rightarrow> bytes \<Rightarrow> go_error + bytes" where
  "Encrypt rand plaintext key =
     (case NewCipher key of
        Inl err \<Rightarrow> Inl err
      | Inr block \<Rightarrow>
          (case ReadFull_random rand gcm_NonceSize of
             Inl err \<Rightarrow> Inl err
           | Inr nonce \<Rightarrow> Inr (gcm_Seal block nonce nonce plaintext)))"

definition Decrypt :: "bytes \<Rightarrow> bytes \<Rightarrow> go_error + bytes" where
  "Decrypt ciphertext key =
     (case NewCipher key of
        Inl err \<Rightarrow> Inl err
      | Inr block \<Rightarrow>
          (let nonceSize = gcm_NonceSize
           in if length ciphertext < nonceSize then Inl (Errorf ''ciphertext too short'')
              else let nonce = take nonceSize ciphertext;
                       encryptedText = drop nonceSize ciphertext
                   in case gcm_Open block nonce encryptedText of
                        None \<Rightarrow> Inl (Errorf ''cipher: message authentication failed'')
                      | Some plaintext \<Rightarrow> Inr plaintext))"

section \<open>Lemmas\<close>

lemma gcm_Open_is_Seal:
  assumes "aes_key_ok key" "length nonce = 12" "gcm_Open key nonce s = Some m"
  shows "s = gcm_Seal key [] nonce m"
proof -
  have c: "gcm_crypt key nonce = gcm_crypt_from key nonce 0"
    by (rule ext) (simp add: gcm_crypt_def gcm_crypt_from_def)
  let ?c = "take (length s - gcm_TagSize) s" and ?tag = "drop (length s - gcm_TagSize) s"
  from assms(3) have "?tag = gcm_tag key nonce ?c" "m = gcm_crypt key nonce ?c"
    by (auto simp: gcm_Open_def Let_def split: if_splits)
  moreover from this have "gcm_crypt key nonce m = ?c"
    by (simp add: c gcm_crypt_from_involution [OF assms(1,2)])
  ultimately have "gcm_Seal key [] nonce m = ?c @ ?tag"
    by (simp add: gcm_Seal_def Let_def)
  then show ?thesis by simp
qed

lemma Encrypt_eq:
  "Encrypt rand m key = Inr c \<longleftrightarrow>
     aes_key_ok key \<and> 12 \<le> length rand \<and> c = take 12 rand @ gcm_Seal key [] (take 12 rand) m"
  using gcm_Seal_append [of key "take 12 rand" "take 12 rand" m]
  by (auto simp: Encrypt_def NewCipher_def ReadFull_random_def gcm_NonceSize_def)

lemma Decrypt_eq:
  "Decrypt c key = Inr m \<longleftrightarrow>
     aes_key_ok key \<and> 12 \<le> length c \<and> gcm_Open key (take 12 c) (drop 12 c) = Some m"
  by (auto simp: Decrypt_def NewCipher_def gcm_NonceSize_def Let_def split: option.splits)

lemma Decrypt_Encrypt: "Encrypt rand m key = Inr c \<Longrightarrow> Decrypt c key = Inr m"
  by (auto simp: Encrypt_eq Decrypt_eq gcm_Open_Seal)

lemma Encrypt_live: "aes_key_ok key \<Longrightarrow> 12 \<le> length rand \<Longrightarrow> \<exists>c. Encrypt rand m key = Inr c"
  by (simp add: Encrypt_eq)

lemma length_Encrypt: "Encrypt rand m key = Inr c \<Longrightarrow> length c = length m + 28"
  by (auto simp: Encrypt_eq length_gcm_Seal gcm_TagSize_def)

lemma Encrypt_error:
  "(\<exists>e. Encrypt rand m key = Inl e) \<longleftrightarrow> \<not> aes_key_ok key \<or> length rand < 12"
  by (auto simp: Encrypt_def NewCipher_def ReadFull_random_def gcm_NonceSize_def)

lemma Decrypt_error: "\<not> aes_key_ok key \<or> length c < 28 \<Longrightarrow> \<exists>e. Decrypt c key = Inl e"
  by (auto simp: Decrypt_def NewCipher_def gcm_NonceSize_def gcm_Open_def gcm_TagSize_def Let_def)

section \<open>Properties\<close>

text \<open>
  C30: \<open>Decrypt\<close> accepts exactly what \<open>Encrypt\<close> makes: it returns a plaintext if and only if
  the ciphertext is the encryption of that plaintext under the same key with some nonce. So
  decryption undoes encryption, and nothing else decrypts.
\<close>

theorem Decrypt_iff_Encrypt:
  "Decrypt c key = Inr m \<longleftrightarrow> (\<exists>nonce. length nonce = 12 \<and> Encrypt nonce m key = Inr c)"
proof
  assume D: "Decrypt c key = Inr m"
  then have "Encrypt (take 12 c) m key = Inr c"
    using gcm_Open_is_Seal [of key "take 12 c" "drop 12 c" m] by (simp add: Encrypt_eq Decrypt_eq)
      (metis append_take_drop_id)
  with D show "\<exists>nonce. length nonce = 12 \<and> Encrypt nonce m key = Inr c"
    by (intro exI [of _ "take 12 c"]) (simp add: Decrypt_eq)
next
  assume "\<exists>nonce. length nonce = 12 \<and> Encrypt nonce m key = Inr c"
  then show "Decrypt c key = Inr m" using Decrypt_Encrypt by blast
qed

end
