(* ===== verification/StorageClient.thy ===== *)
theory StorageClient imports Disk begin

text \<open>
  The gateway's client of the storage nodes (\<open>internal/api/storage_client.go\<close>): the circuit
  breaker of every node, the cache of connections, and \<open>SaveChunk\<close>, \<open>GetChunk\<close>, \<open>DeleteChunk\<close>
  and \<open>Health\<close>, which call the handlers of theory \<open>Disk\<close> over a network that may lose a request
  or a reply. A call that goes through the breaker is three atomic steps (entering, the remote
  call, leaving), and calls made by several goroutines interleave step by step under a
  schedule that is an argument.
  The file shows what the breaker promises under every interleaving, and that a save that was
  acknowledged is held by its node.
\<close>

section \<open>The circuit breaker\<close>

datatype CircuitState = StateClosed | StateOpen | StateHalfOpen

text \<open>Times are in nanoseconds; 0 stands for the zero \<open>time.Time\<close>, which is never read.\<close>

record CircuitBreaker =
  state :: CircuitState
  failures :: int
  lastFailure :: int

definition seconds :: "int \<Rightarrow> int" where
  "seconds s = s * 1000000000"

definition new_breaker :: CircuitBreaker where
  "new_breaker = \<lparr>state = StateClosed, failures = 0, lastFailure = 0\<rparr>"

text \<open>The two critical sections of \<open>executewithBreaker\<close>, before and after the operation.\<close>

definition cb_enter :: "int \<Rightarrow> CircuitBreaker \<Rightarrow> bool \<times> CircuitBreaker" where
  "cb_enter t cb =
     (if state cb = StateOpen
      then (if t - lastFailure cb > seconds 30
            then (True, cb\<lparr>state := StateHalfOpen\<rparr>)
            else (False, cb))
      else (True, cb))"

definition cb_leave :: "int \<Rightarrow> bool \<Rightarrow> CircuitBreaker \<Rightarrow> CircuitBreaker" where
  "cb_leave t failed cb =
     (if failed
      then let cb = cb\<lparr>failures := failures cb + 1, lastFailure := t\<rparr>
           in if failures cb \<ge> 3 then cb\<lparr>state := StateOpen\<rparr> else cb
      else cb\<lparr>failures := 0, state := StateClosed\<rparr>)"

section \<open>The client and the storage nodes\<close>

text \<open>The connections that were made, and the breaker of each node that was called.\<close>

record StorageClient =
  conns :: "address set"
  breakers :: "address \<rightharpoonup> CircuitBreaker"

text \<open>
  What the client runs in: the storage nodes by the address they listen on, how many calls were
  sent to each address, and the time.
\<close>

record cluster = StorageClient +
  storage_nodes :: "address \<rightharpoonup> NodeHandler"
  rpc_no :: "address \<Rightarrow> nat"
  now :: int

text \<open>
  What the environment decides: for the \<open>k\<close>-th call to an address what becomes of it, what the
  disk does, and how long it takes; and whether \<open>grpc.NewClient\<close> refuses the address. A call
  that runs into its deadline is one whose reply is lost.
\<close>

record net_env =
  rpc_fault :: "address \<Rightarrow> nat \<Rightarrow> fault"
  rpc_io :: "address \<Rightarrow> nat \<Rightarrow> io_env"
  rpc_time :: "address \<Rightarrow> nat \<Rightarrow> nat"
  dial_err :: "address \<Rightarrow> bool"

definition net_ok :: net_env where
  "net_ok = \<lparr>rpc_fault = (\<lambda>a k. Deliver), rpc_io = (\<lambda>a k. io_ok), rpc_time = (\<lambda>a k. 0),
             dial_err = (\<lambda>a. False)\<rparr>"

definition NewStorageClient :: StorageClient where
  "NewStorageClient = \<lparr>conns = {}, breakers = Map.empty\<rparr>"

definition getBreaker :: "address \<Rightarrow> cluster \<Rightarrow> CircuitBreaker \<times> cluster" where
  "getBreaker address c =
     (case breakers c address of
        Some b \<Rightarrow> (b, c)
      | None \<Rightarrow> let b = new_breaker in (b, c\<lparr>breakers := (breakers c)(address \<mapsto> b)\<rparr>))"

definition breaker_enter :: "address \<Rightarrow> cluster \<Rightarrow> bool \<times> cluster" where
  "breaker_enter address c =
     (let (cb, c) = getBreaker address c;
          (admitted, cb) = cb_enter (now c) cb
      in (admitted, c\<lparr>breakers := (breakers c)(address \<mapsto> cb)\<rparr>))"

definition breaker_leave :: "address \<Rightarrow> bool \<Rightarrow> cluster \<Rightarrow> cluster" where
  "breaker_leave address failed c =
     (let (cb, c) = getBreaker address c
      in c\<lparr>breakers := (breakers c)(address \<mapsto> cb_leave (now c) failed cb)\<rparr>)"

definition circuit_open :: "address \<Rightarrow> go_error" where
  "circuit_open address = Errorf (''circuit breaker open for node '' @ address)"

fun is_err :: "go_error + 'a \<Rightarrow> bool" where
  "is_err (Inl e) = True"
| "is_err (Inr v) = False"

definition executewithBreaker ::
  "address \<Rightarrow> (cluster \<Rightarrow> (go_error + 'a) \<times> cluster) \<Rightarrow> cluster \<Rightarrow> (go_error + 'a) \<times> cluster" where
  "executewithBreaker address operation c =
     (let (admitted, c) = breaker_enter address c
      in if \<not> admitted then (Inl (circuit_open address), c)
         else let (r, c) = operation c
              in (r, breaker_leave address (is_err r) c))"

definition getClient :: "net_env \<Rightarrow> address \<Rightarrow> cluster \<Rightarrow> (go_error + address) \<times> cluster" where
  "getClient net address c =
     (if address \<in> conns c then (Inr address, c)
      else if dial_err net address then (Inl (Errorf ''grpc: failed to build resolver''), c)
      else (Inr address, c\<lparr>conns := insert address (conns c)\<rparr>))"

section \<open>Remote calls\<close>

datatype node_request =
    ReqSave string bytes
  | ReqGet string
  | ReqDelete string
  | ReqHealth

datatype node_reply =
    RepSaved bool
  | RepData bytes
  | RepDeleted bool
  | RepHealth string string

text \<open>The handler that the storage node's gRPC server runs.\<close>

fun serve :: "io_env \<Rightarrow> node_request \<Rightarrow> NodeHandler \<Rightarrow> (go_error + node_reply) \<times> NodeHandler" where
  "serve io (ReqSave h d) n =
     (let (r, n) = node_SaveChunk io h d n in (map_sum id RepSaved r, n))"
| "serve io (ReqGet h) n = (map_sum id RepData (node_GetChunk io h n), n)"
| "serve io (ReqDelete h) n =
     (let (r, n) = node_DeleteChunk io h n in (map_sum id RepDeleted r, n))"
| "serve io ReqHealth n = (Inr (RepHealth (fst (node_Health n)) (snd (node_Health n))), n)"

definition rpc :: "net_env \<Rightarrow> address \<Rightarrow> node_request \<Rightarrow> cluster \<Rightarrow> (go_error + node_reply) \<times> cluster" where
  "rpc net address req c =
     (let k = rpc_no c address;
          c = c\<lparr>rpc_no := (rpc_no c)(address := Suc k), now := now c + int (rpc_time net address k)\<rparr>
      in case storage_nodes c address of
           None \<Rightarrow> (Inl (Errorf ''rpc error: Unavailable''), c)
         | Some n \<Rightarrow>
             (let (r, n') = serve (rpc_io net address k) req n;
                  served = c\<lparr>storage_nodes := (storage_nodes c)(address \<mapsto> n')\<rparr>
              in case rpc_fault net address k of
                   Deliver \<Rightarrow> (r, served)
                 | DropRequest \<Rightarrow> (Inl (Errorf ''rpc error: Unavailable''), c)
                 | DropReply \<Rightarrow> (Inl (Errorf ''rpc error: DeadlineExceeded''), served)))"

text \<open>The operation that every method of the client passes to \<open>executewithBreaker\<close>.\<close>

definition client_operation ::
  "net_env \<Rightarrow> address \<Rightarrow> node_request \<Rightarrow> cluster \<Rightarrow> (go_error + node_reply) \<times> cluster" where
  "client_operation net address req c =
     (case getClient net address c of
        (Inl err, c) \<Rightarrow> (Inl err, c)
      | (Inr client, c) \<Rightarrow> rpc net client req c)"

definition client_call ::
  "net_env \<Rightarrow> address \<Rightarrow> node_request \<Rightarrow> cluster \<Rightarrow> (go_error + node_reply) \<times> cluster" where
  "client_call net address req = executewithBreaker address (client_operation net address req)"

definition client_GetChunk :: "net_env \<Rightarrow> address \<Rightarrow> string \<Rightarrow> cluster \<Rightarrow> (go_error + bytes) \<times> cluster" where
  "client_GetChunk net address hash c =
     (case client_call net address (ReqGet hash) c of
        (Inr (RepData d), c) \<Rightarrow> (Inr d, c)
      | (Inr _, c) \<Rightarrow> (Inr [], c)
      | (Inl err, c) \<Rightarrow> (Inl err, c))"

definition client_DeleteChunk :: "net_env \<Rightarrow> address \<Rightarrow> string \<Rightarrow> cluster \<Rightarrow> go_error option \<times> cluster" where
  "client_DeleteChunk net address hash c =
     (case client_call net address (ReqDelete hash) c of
        (Inr _, c) \<Rightarrow> (None, c)
      | (Inl err, c) \<Rightarrow> (Some err, c))"

definition client_Health :: "net_env \<Rightarrow> address \<Rightarrow> cluster \<Rightarrow> bool \<times> cluster" where
  "client_Health net address c =
     (let (r, c) = client_call net address ReqHealth c in (\<not> is_err r, c))"

section \<open>Calls of several goroutines\<close>

datatype phase =
    Waiting
  | Sent
  | Replied "go_error + node_reply"
  | Finished "go_error + node_reply"

type_synonym call = "address \<times> node_request"

text \<open>One atomic step of one call.\<close>

fun call_step :: "net_env \<Rightarrow> call \<Rightarrow> phase \<times> cluster \<Rightarrow> phase \<times> cluster" where
  "call_step net (a, req) (Waiting, c) =
     (let (admitted, c) = breaker_enter a c
      in (if admitted then Sent else Finished (Inl (circuit_open a)), c))"
| "call_step net (a, req) (Sent, c) =
     (let (r, c) = client_operation net a req c in (Replied r, c))"
| "call_step net (a, req) (Replied r, c) = (Finished r, breaker_leave a (is_err r) c)"
| "call_step net (a, req) (Finished r, c) = (Finished r, c)"

text \<open>
  The calls in flight: the phase of each, the calls that have finished in the order in which
  they did, and the cluster. An entry \<open>(i, t)\<close> of a schedule lets \<open>t\<close> nanoseconds pass and then
  runs call \<open>i\<close> for one step. \<open>fan_out\<close> runs a schedule and then what is left of every call:
  the \<open>Wait\<close> of a wait group returns only when all goroutines have finished.
\<close>

type_synonym flight = "phase list \<times> nat list \<times> cluster"

definition finished :: "phase \<Rightarrow> bool" where
  "finished p \<longleftrightarrow> (case p of Finished _ \<Rightarrow> True | _ \<Rightarrow> False)"

definition flight_step :: "net_env \<Rightarrow> call list \<Rightarrow> nat \<times> nat \<Rightarrow> flight \<Rightarrow> flight" where
  "flight_step net cs it fl =
     (let (i, t) = it; (ps, fin, c) = fl
      in if length cs \<le> i then fl
         else let c = c\<lparr>now := now c + int t\<rparr>;
                  (p, c) = call_step net (cs ! i) (ps ! i, c)
              in (ps[i := p], if finished p \<and> \<not> finished (ps ! i) then fin @ [i] else fin, c))"

definition rest_schedule :: "nat \<Rightarrow> (nat \<times> nat) list" where
  "rest_schedule n = concat (map (\<lambda>i. [(i, 0), (i, 0), (i, 0)]) [0..<n])"

definition fan_out :: "net_env \<Rightarrow> call list \<Rightarrow> (nat \<times> nat) list \<Rightarrow> cluster \<Rightarrow> flight" where
  "fan_out net cs sched c =
     fold (flight_step net cs) (sched @ rest_schedule (length cs))
       (replicate (length cs) Waiting, [], c)"

fun result :: "phase \<Rightarrow> go_error + node_reply" where
  "result (Finished r) = r"
| "result (Replied r) = r"
| "result _ = Inl (Errorf '''')"

definition save_error :: "address \<Rightarrow> go_error \<Rightarrow> go_error" where
  "save_error a e = Wrapf (''save chunk to '' @ a) e"

fun errors_of :: "address \<Rightarrow> go_error + 'a \<Rightarrow> go_error list" where
  "errors_of a (Inl e) = [save_error a e]"
| "errors_of a (Inr v) = []"

definition client_SaveChunk ::
  "net_env \<Rightarrow> (nat \<times> nat) list \<Rightarrow> address list \<Rightarrow> string \<Rightarrow> bytes \<Rightarrow> cluster \<Rightarrow>
   (address list \<times> go_error list) \<times> cluster" where
  "client_SaveChunk net sched nodeAddresses hash data c =
     (let (ps, fin, c) = fan_out net (map (\<lambda>a. (a, ReqSave hash data)) nodeAddresses) sched c;
          successAddrs = map ((!) nodeAddresses) (filter (\<lambda>i. \<not> is_err (result (ps ! i))) fin);
          errs = concat (map (\<lambda>i. errors_of (nodeAddresses ! i) (result (ps ! i))) fin)
      in ((successAddrs, errs), c))"


section \<open>What a breaker goes through\<close>

text \<open>
  One breaker, the time and the number of admitted calls that have not left yet: time passes,
  a call enters and is admitted or rejected, an admitted call leaves. Any number of calls can
  be in flight.
\<close>

inductive cb_step :: "CircuitBreaker \<times> int \<times> nat \<Rightarrow> CircuitBreaker \<times> int \<times> nat \<Rightarrow> bool" where
  tick: "0 \<le> d \<Longrightarrow> cb_step (cb, t, n) (cb, t + d, n)"
| admit: "cb_enter t cb = (True, cb') \<Longrightarrow> cb_step (cb, t, n) (cb', t, Suc n)"
| reject: "cb_enter t cb = (False, cb') \<Longrightarrow> cb_step (cb, t, n) (cb', t, n)"
| leave: "cb_step (cb, t, Suc n) (cb_leave t failed cb, t, n)"

inductive cb_reachable :: "CircuitBreaker \<times> int \<times> nat \<Rightarrow> bool" where
  start: "cb_reachable (new_breaker, t, 0)"
| step: "cb_reachable s \<Longrightarrow> cb_step s s' \<Longrightarrow> cb_reachable s'"

inductive_cases cb_stepE: "cb_step (cb, t, n) s'"

definition cb_inv :: "int \<Rightarrow> CircuitBreaker \<Rightarrow> bool" where
  "cb_inv t cb \<longleftrightarrow> 0 \<le> failures cb \<and> (state cb = StateClosed \<longleftrightarrow> failures cb < 3) \<and>
     (0 < failures cb \<longrightarrow> lastFailure cb \<le> t)"

lemma cb_inv_new [simp]: "cb_inv t new_breaker"
  by (simp add: cb_inv_def new_breaker_def)

lemma cb_inv_mono: "cb_inv t cb \<Longrightarrow> t \<le> t' \<Longrightarrow> cb_inv t' cb"
  by (auto simp: cb_inv_def)

lemma cb_inv_enter: "cb_inv t cb \<Longrightarrow> cb_inv t (snd (cb_enter t cb))"
  by (auto simp: cb_inv_def cb_enter_def)

lemma cb_inv_leave: "cb_inv t cb \<Longrightarrow> cb_inv t (cb_leave t failed cb)"
  by (auto simp: cb_inv_def cb_leave_def Let_def)

lemma cb_inv_step: "cb_step s s' \<Longrightarrow> cb_inv (fst (snd s)) (fst s) \<Longrightarrow> cb_inv (fst (snd s')) (fst s')"
proof (induction rule: cb_step.induct)
  case (tick d cb t n)
  then show ?case by (auto intro: cb_inv_mono)
next
  case (admit t cb cb' n)
  then show ?case using cb_inv_enter [of t cb] by simp
next
  case (reject t cb cb' n)
  then show ?case using cb_inv_enter [of t cb] by simp
qed (simp add: cb_inv_leave)

interpretation breaker: state_machine "\<lambda>s. fst s = new_breaker \<and> snd (snd s) = 0" cb_step "\<lambda>s. cb_inv (fst (snd s)) (fst s)"
  by unfold_locales (auto intro: cb_inv_step)

lemma cb_reachable_run: "cb_reachable s \<Longrightarrow> \<exists>t. cb_step\<^sup>*\<^sup>* (new_breaker, t, 0) s"
  by (induction rule: cb_reachable.induct) (auto intro: rtranclp.rtrancl_into_rtrancl)

lemma cb_inv_reachable: "cb_reachable s \<Longrightarrow> cb_inv (fst (snd s)) (fst s)"
proof -
  assume "cb_reachable s"
  then obtain t where "cb_step\<^sup>*\<^sup>* (new_breaker, t, 0) s" using cb_reachable_run by blast
  from breaker.reachable_inv [OF _ this] show ?thesis by simp
qed

lemma cb_leave_failed:
  "cb_inv t cb \<Longrightarrow>
   state (cb_leave t True cb) = (if failures cb < 2 then StateClosed else StateOpen) \<and>
   failures (cb_leave t True cb) = failures cb + 1 \<and> lastFailure (cb_leave t True cb) = t"
  by (auto simp: cb_inv_def cb_leave_def Let_def)

lemma cb_leave_ok [simp]:
  "state (cb_leave t False cb) = StateClosed" "failures (cb_leave t False cb) = 0"
  by (simp_all add: cb_leave_def)

section \<open>The breakers of the client\<close>

text \<open>The breaker that a call to the address meets.\<close>

definition breaker_of :: "cluster \<Rightarrow> address \<Rightarrow> CircuitBreaker" where
  "breaker_of c a = (case breakers c a of None \<Rightarrow> new_breaker | Some cb \<Rightarrow> cb)"

lemma getBreaker_eq: "fst (getBreaker a c) = breaker_of c a"
  "breaker_of (snd (getBreaker a c)) b = breaker_of c b"
  by (simp_all add: getBreaker_def breaker_of_def Let_def split: option.split)

lemma breaker_enter_eq:
  "breaker_enter a c =
     (fst (cb_enter (now c) (breaker_of c a)),
      c\<lparr>breakers := (breakers c)(a \<mapsto> snd (cb_enter (now c) (breaker_of c a)))\<rparr>)"
  by (simp add: breaker_enter_def getBreaker_def breaker_of_def Let_def split_beta split: option.split)

lemma breaker_leave_eq:
  "breaker_leave a failed c =
     c\<lparr>breakers := (breakers c)(a \<mapsto> cb_leave (now c) failed (breaker_of c a))\<rparr>"
  by (simp add: breaker_leave_def getBreaker_def breaker_of_def Let_def split: option.split)

lemma breaker_of_upd [simp]:
  "breaker_of (c\<lparr>breakers := (breakers c)(a \<mapsto> cb)\<rparr>) b = (if b = a then cb else breaker_of c b)"
  by (simp add: breaker_of_def)

lemma breaker_of_frame [simp]:
  "breaker_of (c\<lparr>now := t\<rparr>) a = breaker_of c a"
  "breaker_of (c\<lparr>conns := cs\<rparr>) a = breaker_of c a"
  "breaker_of (c\<lparr>rpc_no := k\<rparr>) a = breaker_of c a"
  "breaker_of (c\<lparr>storage_nodes := s\<rparr>) a = breaker_of c a"
  by (simp_all add: breaker_of_def)

lemma client_operation_frame [frame_simps]:
  "breakers (snd (client_operation net a req c)) = breakers c"
  "now c \<le> now (snd (client_operation net a req c))"
  "b \<noteq> a \<Longrightarrow> storage_nodes (snd (client_operation net a req c)) b = storage_nodes c b"
  "b \<noteq> a \<Longrightarrow> rpc_no (snd (client_operation net a req c)) b = rpc_no c b"
  by (auto simp: client_operation_def getClient_def rpc_def Let_def split_beta
      split: option.split fault.split)

lemma breaker_of_operation [simp]:
  "breaker_of (snd (client_operation net a req c)) b = breaker_of c b"
  by (simp add: breaker_of_def client_operation_frame)

text \<open>The invariant of all breakers of a client.\<close>

definition client_inv :: "cluster \<Rightarrow> bool" where
  "client_inv c \<longleftrightarrow> (\<forall>a. cb_inv (now c) (breaker_of c a))"

lemma client_inv_call_step:
  assumes "client_inv c"
  shows "client_inv (snd (call_step net cl (p, c)))"
proof -
  obtain a req where cl: "cl = (a, req)" by (cases cl)
  show ?thesis
  proof (cases p)
    case Waiting
    then show ?thesis
      using assms cb_inv_enter by (auto simp: cl client_inv_def breaker_enter_eq Let_def)
  next
    case Sent
    then show ?thesis
      using assms client_operation_frame(2) [of c net a req]
      by (auto simp: cl client_inv_def split_beta Let_def intro: cb_inv_mono)
  next
    case (Replied r)
    then show ?thesis
      using assms cb_inv_leave by (auto simp: cl client_inv_def breaker_leave_eq)
  qed (use assms cl in simp)
qed

lemma client_inv_later: "client_inv c \<Longrightarrow> client_inv (c\<lparr>now := now c + int t\<rparr>)"
  by (auto simp: client_inv_def intro: cb_inv_mono)

lemma client_inv_flight:
  "client_inv (snd (snd fl)) \<Longrightarrow> client_inv (snd (snd (flight_step net cs it fl)))"
  by (cases it; cases fl)
    (simp add: flight_step_def split_beta Let_def client_inv_call_step client_inv_later)

lemma client_inv_fan_out: "client_inv c \<Longrightarrow> client_inv (snd (snd (fan_out net cs sched c)))"
  unfolding fan_out_def
  by (rule fold_invariant [where P = "\<lambda>fl. client_inv (snd (snd fl))"])
    (simp_all add: client_inv_flight)

lemma client_inv_new:
  "breakers c = Map.empty \<Longrightarrow> client_inv c"
  by (simp add: client_inv_def breaker_of_def)

text \<open>A call by one goroutine is its three steps in a row.\<close>

lemma client_call_steps:
  "client_call net a req c =
     (let (p, c) = call_step net (a, req) (call_step net (a, req) (call_step net (a, req) (Waiting, c)))
      in (result p, c))"
  by (simp add: client_call_def executewithBreaker_def Let_def split_beta)

lemma client_inv_call: "client_inv c \<Longrightarrow> client_inv (snd (client_call net a req c))"
  by (simp only: client_call_steps Let_def split_beta snd_conv)
    (metis client_inv_call_step prod.collapse)

lemma client_call_cases:
  obtains (rejected) "\<not> fst (cb_enter (now c) (breaker_of c a))" "state (breaker_of c a) = StateOpen"
    "now c - lastFailure (breaker_of c a) \<le> seconds 30"
    "client_call net a req c = (Inl (circuit_open a), c)"
  | (ran) c1 r c2 where "fst (cb_enter (now c) (breaker_of c a))"
    "c1 = c\<lparr>breakers := (breakers c)(a \<mapsto> snd (cb_enter (now c) (breaker_of c a)))\<rparr>"
    "client_operation net a req c1 = (r, c2)"
    "client_call net a req c = (r, breaker_leave a (is_err r) c2)"
proof (cases "fst (cb_enter (now c) (breaker_of c a))")
  case True
  then show thesis
    by (intro ran [OF True refl prod.collapse [symmetric]])
      (simp add: client_call_def executewithBreaker_def breaker_enter_eq Let_def split_beta)
next
  case False
  then have "state (breaker_of c a) = StateOpen" "now c - lastFailure (breaker_of c a) \<le> seconds 30"
    "snd (cb_enter (now c) (breaker_of c a)) = breaker_of c a"
    by (auto simp: cb_enter_def split: if_splits)
  moreover from this have "breakers c a = Some (breaker_of c a)"
    by (auto simp: breaker_of_def new_breaker_def split: option.splits)
  then have "c\<lparr>breakers := (breakers c)(a \<mapsto> breaker_of c a)\<rparr> = c"
    by (simp add: fun_upd_idem)
  ultimately show thesis using False
    by (intro rejected) (simp_all add: client_call_def executewithBreaker_def breaker_enter_eq)
qed


lemma client_call_error:
  assumes "client_inv c" "client_call net a req c = (Inl e, c')"
  shows "state (breaker_of c' a) = StateOpen \<or>
    (failures (breaker_of c a) < 2 \<and> failures (breaker_of c' a) = failures (breaker_of c a) + 1)"
proof (cases rule: client_call_cases [of c a net req])
  case rejected
  then show ?thesis using assms(2) by simp
next
  case (ran c1 r c2)
  let ?cb = "snd (cb_enter (now c) (breaker_of c a))"
  have inv: "cb_inv (now c2) ?cb"
    using cb_inv_enter [of "now c" "breaker_of c a"] assms(1) ran(2,3)
      client_operation_frame(2) [of c1 net a req]
    by (auto simp: client_inv_def intro: cb_inv_mono)
  moreover have "failures ?cb = failures (breaker_of c a)" by (simp add: cb_enter_def)
  moreover have "breaker_of c2 a = ?cb"
    using ran(2,3) breaker_of_operation [of net a req c1 a] by simp
  moreover have "r = Inl e" "c' = breaker_leave a True c2" using ran(4) assms(2) by auto
  ultimately show ?thesis
    using cb_leave_failed [OF inv] by (simp add: breaker_leave_eq)
qed

lemma client_call_success:
  assumes "client_call net a req c = (Inr v, c')"
  shows "state (breaker_of c' a) = StateClosed" "failures (breaker_of c' a) = 0"
  using assms by (cases rule: client_call_cases [of c a net req]; auto simp: breaker_leave_eq)+

lemma getClient_frame [simp]:
  "storage_nodes (snd (getClient net a c)) = storage_nodes c"
  "rpc_no (snd (getClient net a c)) = rpc_no c"
  by (simp_all add: getClient_def)

section \<open>What the nodes hold\<close>

definition node_holds :: "cluster \<Rightarrow> address \<Rightarrow> string \<Rightarrow> bytes \<Rightarrow> bool" where
  "node_holds c a h d \<longleftrightarrow> (\<exists>n. storage_nodes c a = Some n \<and> chunk_at n h = Some d)"

lemma node_holds_frame [simp]:
  "node_holds (c\<lparr>now := t\<rparr>) = node_holds c"
  "node_holds (c\<lparr>conns := cs\<rparr>) = node_holds c"
  "node_holds (c\<lparr>rpc_no := k\<rparr>) = node_holds c"
  "node_holds (c\<lparr>breakers := b\<rparr>) = node_holds c"
  by (auto simp: node_holds_def fun_eq_iff)

text \<open>The chunk that a request changes on the node, if any.\<close>

fun changes :: "node_request \<Rightarrow> string \<Rightarrow> bool" where
  "changes (ReqSave g d) h \<longleftrightarrow> g = h"
| "changes (ReqDelete g) h \<longleftrightarrow> g = h"
| "changes _ h \<longleftrightarrow> False"

fun request_ok :: "node_request \<Rightarrow> bool" where
  "request_ok (ReqSave g d) \<longleftrightarrow> plain_name g"
| "request_ok (ReqDelete g) \<longleftrightarrow> plain_name g"
| "request_ok _ \<longleftrightarrow> True"

lemma serve_frame:
  "plain_name h \<Longrightarrow> request_ok req \<Longrightarrow> \<not> changes req h \<Longrightarrow>
   chunk_at (snd (serve io req n)) h = chunk_at n h"
  by (cases req) (simp_all add: split_beta node_SaveChunk_frame node_DeleteChunk_frame Let_def)

lemma serve_save:
  "serve io (ReqSave h d) n = (Inr r, n') \<Longrightarrow> chunk_at n' h = Some d"
  by (cases "node_SaveChunk io h d n"; cases "fst (node_SaveChunk io h d n)")
    (auto dest: node_SaveChunk_holds)

lemma rpc_storage:
  "storage_nodes (snd (rpc net a req c)) b =
     (if b = a then
        (case storage_nodes c a of
           None \<Rightarrow> None
         | Some n \<Rightarrow>
             Some (if rpc_fault net a (rpc_no c a) = DropRequest then n
                   else snd (serve (rpc_io net a (rpc_no c a)) req n)))
      else storage_nodes c b)"
  by (auto simp: rpc_def Let_def split_beta split: option.split fault.split)

lemma client_operation_storage:
  "storage_nodes (snd (client_operation net a req c)) b = storage_nodes c b \<or>
   (b = a \<and> (\<exists>n k. storage_nodes c a = Some n \<and>
      storage_nodes (snd (client_operation net a req c)) a = Some (snd (serve (rpc_io net a k) req n))))"
proof (cases "getClient net a c")
  case (Pair r c1)
  then have c1: "storage_nodes c1 = storage_nodes c" by (metis getClient_frame(1) snd_conv)
  have "r = Inr a \<or> (\<exists>e. r = Inl e)" using Pair by (auto simp: getClient_def split: if_splits)
  then have "snd (client_operation net a req c) = c1 \<or> snd (client_operation net a req c) = snd (rpc net a req c1)"
    using Pair by (auto simp: client_operation_def)
  moreover have "storage_nodes (snd (rpc net a req c1)) b = storage_nodes c1 b \<or>
      (b = a \<and> (\<exists>n k. storage_nodes c1 a = Some n \<and>
        storage_nodes (snd (rpc net a req c1)) a = Some (snd (serve (rpc_io net a k) req n))))"
    unfolding rpc_storage by (cases "storage_nodes c1 a") auto
  ultimately show ?thesis using c1 by auto
qed

lemma client_operation_frame_chunk:
  assumes "plain_name h" "request_ok req" "b = a \<longrightarrow> \<not> changes req h"
  shows "node_holds (snd (client_operation net a req c)) b h d = node_holds c b h d"
proof (cases "storage_nodes (snd (client_operation net a req c)) b = storage_nodes c b")
  case True
  then show ?thesis by (simp add: node_holds_def)
next
  case False
  with client_operation_storage [of net a req c b] serve_frame [OF assms(1,2)] assms(3)
  show ?thesis by (auto simp: node_holds_def)
qed

lemma client_operation_save:
  assumes "client_operation net a (ReqSave h d) c = (Inr r, c')"
  shows "node_holds c' a h d"
proof -
  obtain c1 where c1: "getClient net a c = (Inr a, c1)" "rpc net a (ReqSave h d) c1 = (Inr r, c')"
    using assms by (auto simp: client_operation_def getClient_def split: if_splits)
  then obtain n where n: "fst (serve (rpc_io net a (rpc_no c1 a)) (ReqSave h d) n) = Inr r"
    "storage_nodes c' a = Some (snd (serve (rpc_io net a (rpc_no c1 a)) (ReqSave h d) n))"
    by (auto simp: rpc_def Let_def split_beta simp del: serve.simps split: option.splits fault.splits)
  then show ?thesis
    using serve_save [of _ h d n r, OF prod_eqI] by (auto simp: node_holds_def simp del: serve.simps)
qed


section \<open>Flights\<close>

definition flight_wf :: "call list \<Rightarrow> flight \<Rightarrow> bool" where
  "flight_wf cs fl \<longleftrightarrow> (case fl of (ps, fin, c) \<Rightarrow>
     length ps = length cs \<and> distinct fin \<and> set fin = {i. i < length cs \<and> finished (ps ! i)})"

fun rank :: "phase \<Rightarrow> nat" where
  "rank Waiting = 3"
| "rank Sent = 2"
| "rank (Replied r) = 1"
| "rank (Finished r) = 0"

lemma rank_0: "rank p = 0 \<longleftrightarrow> finished p"
  by (cases p) (simp_all add: finished_def)

lemma rank_call_step: "rank (fst (call_step net cl (p, c))) \<le> rank p - 1"
  by (cases cl; cases p) (simp_all add: Let_def split_beta)

lemma finished_call_step: "finished p \<Longrightarrow> fst (call_step net cl (p, c)) = p"
  by (cases cl; cases p) (simp_all add: finished_def)

lemma flight_step_eq:
  "flight_step net cs (i, t) (ps, fin, c) =
     (if length cs \<le> i then (ps, fin, c)
      else let pc = call_step net (cs ! i) (ps ! i, c\<lparr>now := now c + int t\<rparr>)
           in (ps[i := fst pc], if finished (fst pc) \<and> \<not> finished (ps ! i) then fin @ [i] else fin, snd pc))"
  by (simp add: flight_step_def split_beta Let_def)

lemma flight_wf_step: "flight_wf cs fl \<Longrightarrow> flight_wf cs (flight_step net cs it fl)"
proof -
  assume wf: "flight_wf cs fl"
  obtain i t ps fin c where [simp]: "it = (i, t)" "fl = (ps, fin, c)" by (cases it; cases fl)
  let ?p = "fst (call_step net (cs ! i) (ps ! i, c\<lparr>now := now c + int t\<rparr>))"
  from wf have wf': "length ps = length cs" "distinct fin"
    "set fin = {i. i < length cs \<and> finished (ps ! i)}" by (simp_all add: flight_wf_def)
  show ?thesis
  proof (cases "length cs \<le> i")
    case True
    then show ?thesis using wf by (simp add: flight_step_eq)
  next
    case False
    then have s: "flight_step net cs it fl = (ps[i := ?p],
        if finished ?p \<and> \<not> finished (ps ! i) then fin @ [i] else fin,
        snd (call_step net (cs ! i) (ps ! i, c\<lparr>now := now c + int t\<rparr>)))"
      by (simp add: flight_step_eq Let_def)
    have upd: "{j. j < length cs \<and> finished (ps[i := ?p] ! j)} =
        (if finished ?p then insert i {j. j < length cs \<and> finished (ps ! j)}
         else {j. j < length cs \<and> finished (ps ! j)} - {i})"
      using False wf'(1) by (auto simp: nth_list_update split: if_splits)
    have i: "i \<in> set fin \<longleftrightarrow> finished (ps ! i)" using False wf'(3) by simp
    have keep: "finished (ps ! i) \<Longrightarrow> finished ?p" using finished_call_step by metis
    show ?thesis
    proof (cases "finished ?p \<and> \<not> finished (ps ! i)")
      case True
      with wf' i show ?thesis
        unfolding s flight_wf_def prod.case upd by simp
    next
      case no: False
      with keep i have "finished ?p \<longleftrightarrow> i \<in> set fin" by blast
      with wf' no show ?thesis
        unfolding s flight_wf_def prod.case upd by (simp add: insert_absorb)
    qed
  qed
qed

lemma flight_wf_fan_out: "flight_wf cs (fan_out net cs sched c)"
  unfolding fan_out_def
proof (rule fold_invariant)
  show "flight_wf cs (replicate (length cs) Waiting, [], c)"
    by (auto simp: flight_wf_def finished_def)
qed (rule flight_wf_step)

lemma rank_fold:
  assumes "length ps = length cs" "i < length cs"
  shows "rank (fst (fold (flight_step net cs) its (ps, fin, c)) ! i)
    \<le> rank (ps ! i) - length (filter (\<lambda>it. fst it = i) its)"
  using assms(1)
proof (induction its arbitrary: ps fin c)
  case (Cons it its)
  obtain j t where it: "it = (j, t)" by (cases it)
  obtain ps' fin' c' where s: "flight_step net cs it (ps, fin, c) = (ps', fin', c')" by (metis prod_cases3)
  have "rank (ps' ! i) \<le> rank (ps ! i) - (if j = i then 1 else 0)" "length ps' = length cs"
    using s Cons.prems assms(2) rank_call_step [of net "cs ! i" "ps ! i" "c\<lparr>now := now c + int t\<rparr>"]
    by (auto simp: it flight_step_eq Let_def nth_list_update split: if_splits)
  with Cons.IH [of ps' fin' c'] s it show ?case by (auto split: if_splits)
qed simp

lemma filter_rest: "i < n \<Longrightarrow> length (filter (\<lambda>it. fst it = i) (rest_schedule n)) = 3"
proof (induction n)
  case (Suc n)
  have less: "filter (\<lambda>it. fst it = n) (rest_schedule n) = []"
    by (auto simp: rest_schedule_def filter_empty_conv)
  have "rest_schedule (Suc n) = rest_schedule n @ [(n, 0), (n, 0), (n, 0)]"
    by (simp add: rest_schedule_def)
  with Suc less show ?case by (cases "i = n") simp_all
qed simp

text \<open>Every call has finished when \<open>fan_out\<close> returns, whatever the schedule.\<close>

lemma fan_out_finished:
  assumes "fan_out net cs sched c = (ps, fin, c')"
  shows "length ps = length cs" "i < length cs \<Longrightarrow> finished (ps ! i)" "mset fin = mset [0..<length cs]"
proof -
  have wf: "flight_wf cs (ps, fin, c')" using flight_wf_fan_out [of cs net sched c] assms by simp
  then show "length ps = length cs" by (simp add: flight_wf_def)
  show fin: "finished (ps ! i)" if i: "i < length cs" for i
  proof -
    have "rank (fst (fan_out net cs sched c) ! i)
        \<le> rank (replicate (length cs) Waiting ! i) - length (filter (\<lambda>it. fst it = i) (sched @ rest_schedule (length cs)))"
      unfolding fan_out_def by (rule rank_fold) (simp_all add: i)
    then have "rank (ps ! i) = 0" using i filter_rest [OF i] assms by simp
    then show ?thesis by (simp add: rank_0)
  qed
  have "set fin = {0..<length cs}" "distinct fin" using wf fin by (auto simp: flight_wf_def)
  then show "mset fin = mset [0..<length cs]"
    by (metis set_eq_iff_mset_eq_distinct atLeastLessThan_upt distinct_upt)
qed

text \<open>
  A save that was answered with success is held by its node, as long as every other call of the
  flight that changes the same chunk on the same node is a save as well, of data that serves as
  well (in the set \<open>D\<close>), to a disk that never cuts a write short. Usually there is no other such call.
\<close>

definition torn :: "net_env \<Rightarrow> address \<Rightarrow> bool" where
  "torn net a \<longleftrightarrow> (\<exists>k. write_short (rpc_io net a k) \<noteq> None)"

definition compatible :: "net_env \<Rightarrow> call list \<Rightarrow> nat \<Rightarrow> address \<Rightarrow> string \<Rightarrow> bytes set \<Rightarrow> bool" where
  "compatible net cs i a h D \<longleftrightarrow> plain_name h \<and>
     (\<forall>j < length cs. request_ok (snd (cs ! j)) \<and>
        (j \<noteq> i \<longrightarrow> fst (cs ! j) = a \<longrightarrow> changes (snd (cs ! j)) h \<longrightarrow>
           \<not> torn net a \<and> (\<exists>d \<in> D. snd (cs ! j) = ReqSave h d)))"

definition holds_in :: "cluster \<Rightarrow> address \<Rightarrow> string \<Rightarrow> bytes set \<Rightarrow> bool" where
  "holds_in c a h D \<longleftrightarrow> (\<exists>d \<in> D. node_holds c a h d)"

lemma holds_in_cong: "storage_nodes c' = storage_nodes c \<Longrightarrow> holds_in c' a h D = holds_in c a h D"
  by (simp add: holds_in_def node_holds_def)

lemma client_operation_resave:
  assumes "\<not> torn net a" "d \<in> D" "holds_in c a h D"
  shows "holds_in (snd (client_operation net a (ReqSave h d) c)) a h D"
proof (cases "storage_nodes (snd (client_operation net a (ReqSave h d) c)) a = storage_nodes c a")
  case True
  with assms(3) show ?thesis by (simp add: holds_in_def node_holds_def)
next
  case False
  then obtain n k where n: "storage_nodes c a = Some n"
    "storage_nodes (snd (client_operation net a (ReqSave h d) c)) a = Some (snd (node_SaveChunk (rpc_io net a k) h d n))"
    using client_operation_storage [of net a "ReqSave h d" c a] by (auto simp: Let_def split_beta)
  show ?thesis
  proof (cases rule: node_SaveChunk_cases [of "rpc_io net a k" h d n])
    case (error msg n')
    with n assms(3) show ?thesis by (auto simp: holds_in_def node_holds_def)
  next
    case (short m n1)
    with assms(1) show ?thesis by (auto simp: torn_def)
  next
    case (saved n1)
    with node_SaveChunk_holds [OF saved(3)] n assms(2) show ?thesis by (auto simp: holds_in_def node_holds_def)
  qed
qed

definition answered :: "phase \<Rightarrow> bool" where
  "answered p \<longleftrightarrow> (case p of Replied r \<Rightarrow> \<not> is_err r | Finished r \<Rightarrow> \<not> is_err r | _ \<Rightarrow> False)"

definition save_held :: "call list \<Rightarrow> nat \<Rightarrow> address \<Rightarrow> string \<Rightarrow> bytes set \<Rightarrow> flight \<Rightarrow> bool" where
  "save_held cs i a h D fl \<longleftrightarrow> (case fl of (ps, fin, c) \<Rightarrow>
     length ps = length cs \<and> (answered (ps ! i) \<longrightarrow> holds_in c a h D))"

lemma not_is_err: "\<not> is_err r \<longleftrightarrow> (\<exists>v. r = Inr v)"
  by (cases r) simp_all

lemma save_held_own:
  assumes "answered p \<longrightarrow> holds_in c a h D" "d \<in> D"
    and "answered (fst (call_step net (a, ReqSave h d) (p, c)))"
  shows "holds_in (snd (call_step net (a, ReqSave h d) (p, c))) a h D"
proof (cases p)
  case Sent
  with assms(2,3) show ?thesis
    using client_operation_save [of net a h d c, OF prod_eqI]
    by (auto simp: answered_def Let_def split_beta not_is_err holds_in_def)
qed (use assms in \<open>auto simp: answered_def Let_def split_beta breaker_leave_eq holds_in_def split: if_splits\<close>)

lemma save_held_other:
  assumes "plain_name h" "request_ok req" "b = a \<longrightarrow> \<not> changes req h"
  shows "node_holds (snd (call_step net (b, req) (p, c))) a h d = node_holds c a h d"
  using client_operation_frame_chunk [OF assms(1,2), of a b] assms(3)
  by (cases p) (auto simp: Let_def split_beta breaker_enter_eq breaker_leave_eq)

lemma save_held_again:
  assumes "\<not> torn net a" "d \<in> D" "holds_in c a h D"
  shows "holds_in (snd (call_step net (a, ReqSave h d) (p, c))) a h D"
  using client_operation_resave [OF assms] assms(3)
  by (cases p) (auto simp: Let_def split_beta breaker_enter_eq breaker_leave_eq holds_in_def)

text \<open>Data that a node holds under a name stays, or is replaced by data that serves as well.\<close>

definition replaces :: "net_env \<Rightarrow> call \<Rightarrow> address \<Rightarrow> string \<Rightarrow> bytes set \<Rightarrow> bool" where
  "replaces net cl a h D \<longleftrightarrow> request_ok (snd cl) \<and>
     (fst cl = a \<longrightarrow> changes (snd cl) h \<longrightarrow> \<not> torn net a \<and> (\<exists>d \<in> D. snd cl = ReqSave h d))"

lemma holds_in_call_step:
  assumes "plain_name h" "replaces net (b, req) a h D" "holds_in c a h D"
  shows "holds_in (snd (call_step net (b, req) (p, c))) a h D"
proof (cases "b = a \<and> changes req h")
  case True
  with assms(2) obtain d' where "\<not> torn net a" "d' \<in> D" "req = ReqSave h d'" by (auto simp: replaces_def)
  with save_held_again [OF this(1,2) assms(3)] True show ?thesis by simp
next
  case no: False
  with save_held_other [OF assms(1), of req b a net p c] assms(2,3) show ?thesis
    by (auto simp: holds_in_def replaces_def)
qed

lemma save_held_step:
  assumes "i < length cs" "cs ! i = (a, ReqSave h d)" "d \<in> D" "compatible net cs i a h D" "save_held cs i a h D fl"
  shows "save_held cs i a h D (flight_step net cs it fl)"
proof -
  obtain j t ps fin c where [simp]: "it = (j, t)" "fl = (ps, fin, c)" by (cases it; cases fl)
  let ?c = "c\<lparr>now := now c + int t\<rparr>"
  have h: "length ps = length cs" "answered (ps ! i) \<longrightarrow> holds_in ?c a h D"
    using assms(5) holds_in_cong [of ?c c] by (simp_all add: save_held_def)
  show ?thesis
  proof (cases "j = i")
    case True
    then show ?thesis
      using assms(1,2) h save_held_own [OF h(2) assms(3), of net]
      by (auto simp: flight_step_eq Let_def save_held_def)
  next
    case False
    obtain b req where cj: "cs ! j = (b, req)" by (cases "cs ! j")
    show ?thesis
    proof (cases "j < length cs")
      case True
      with assms(4) False cj have "plain_name h" "replaces net (b, req) a h D"
        by (auto simp: compatible_def replaces_def)
      from holds_in_call_step [OF this, of ?c "ps ! j"] False True h show ?thesis
        by (simp add: flight_step_eq Let_def save_held_def cj)
    next
      case no: False
      with assms(5) show ?thesis by (simp add: flight_step_eq)
    qed
  qed
qed

lemma fan_out_save:
  assumes "fan_out net cs sched c = (ps, fin, c')" "i < length cs" "cs ! i = (a, ReqSave h d)" "d \<in> D"
    and "compatible net cs i a h D" "\<not> is_err (result (ps ! i))"
  shows "\<exists>d \<in> D. node_holds c' a h d"
proof -
  have "save_held cs i a h D (fan_out net cs sched c)"
    unfolding fan_out_def
  proof (rule fold_invariant)
    show "save_held cs i a h D (replicate (length cs) Waiting, [], c)"
      using assms(2) by (simp add: save_held_def answered_def)
  qed (rule save_held_step [OF assms(2-5)])
  moreover have "answered (ps ! i)"
    using fan_out_finished(2) [OF assms(1,2)] assms(6)
    by (auto simp: answered_def finished_def split: phase.splits)
  ultimately show ?thesis using assms(1) by (simp add: save_held_def holds_in_def)
qed


lemma fan_out_holds_in:
  assumes "plain_name h" "\<forall>cl \<in> set cs. replaces net cl a h D" "holds_in c a h D"
  shows "holds_in (snd (snd (fan_out net cs sched c))) a h D"
  unfolding fan_out_def
proof (rule fold_invariant [where P = "\<lambda>fl. holds_in (snd (snd fl)) a h D"])
  fix it :: "nat \<times> nat" and fl :: flight assume held: "holds_in (snd (snd fl)) a h D"
  obtain j t ps fin c where [simp]: "it = (j, t)" "fl = (ps, fin, c)" by (cases it; cases fl)
  obtain b req where cj: "cs ! j = (b, req)" by (cases "cs ! j")
  have "holds_in (c\<lparr>now := now c + int t\<rparr>) a h D" using held holds_in_cong [of "c\<lparr>now := now c + int t\<rparr>" c] by simp
  moreover have "j < length cs \<Longrightarrow> replaces net (b, req) a h D" using assms(2) cj by (metis nth_mem)
  ultimately show "holds_in (snd (snd (flight_step net cs it fl))) a h D"
    using held holds_in_call_step [OF assms(1)] cj by (simp add: flight_step_eq Let_def)
qed (use assms(3) in simp)

lemma node_holds_flight_step:
  assumes "plain_name h"
    and "\<forall>j < length cs. request_ok (snd (cs ! j)) \<and> (fst (cs ! j) = a \<longrightarrow> \<not> changes (snd (cs ! j)) h)"
  shows "node_holds (snd (snd (flight_step net cs it fl))) a h d = node_holds (snd (snd fl)) a h d"
proof -
  obtain j t ps fin c where [simp]: "it = (j, t)" "fl = (ps, fin, c)" by (cases it; cases fl)
  obtain b req where cj: "cs ! j = (b, req)" by (cases "cs ! j")
  show ?thesis
  proof (cases "j < length cs")
    case True
    with assms(2) cj have "request_ok req" "b = a \<longrightarrow> \<not> changes req h" by fastforce+
    from save_held_other [OF assms(1) this, of net "ps ! j" "c\<lparr>now := now c + int t\<rparr>" d] True
    show ?thesis by (simp add: flight_step_eq Let_def cj)
  qed (simp add: flight_step_eq)
qed

lemma fan_out_frame:
  assumes "plain_name h"
    and "\<forall>j < length cs. request_ok (snd (cs ! j)) \<and> (fst (cs ! j) = a \<longrightarrow> \<not> changes (snd (cs ! j)) h)"
  shows "node_holds (snd (snd (fan_out net cs sched c))) a h d = node_holds c a h d"
  unfolding fan_out_def
  by (rule fold_invariant [where P = "\<lambda>fl. node_holds (snd (snd fl)) a h d = node_holds c a h d"])
    (simp_all add: node_holds_flight_step [OF assms])

section \<open>Nodes that work\<close>

text \<open>
  A set of nodes to which every call arrives and is answered in time, whose disks work, and
  whose breakers are not open. Nothing is said about the other nodes.
\<close>

definition net_calm :: "net_env \<Rightarrow> address set \<Rightarrow> bool" where
  "net_calm net A \<longleftrightarrow>
     (\<forall>a \<in> A. \<not> dial_err net a \<and> (\<forall>k. rpc_fault net a k = Deliver \<and> rpc_io net a k = io_ok))"

lemma net_calm_ok [simp]: "net_calm net_ok A"
  by (simp add: net_calm_def net_ok_def)

definition node_live :: "cluster \<Rightarrow> address \<Rightarrow> bool" where
  "node_live c a \<longleftrightarrow> (\<exists>n. storage_nodes c a = Some n \<and> node_ok n)"

definition cluster_calm :: "cluster \<Rightarrow> address set \<Rightarrow> bool" where
  "cluster_calm c A \<longleftrightarrow> (\<forall>a \<in> A. state (breaker_of c a) \<noteq> StateOpen \<and> node_live c a)"

lemma node_live_frame [simp]:
  "node_live (c\<lparr>now := t\<rparr>) = node_live c"
  "node_live (c\<lparr>conns := cs\<rparr>) = node_live c"
  "node_live (c\<lparr>rpc_no := k\<rparr>) = node_live c"
  "node_live (c\<lparr>breakers := b\<rparr>) = node_live c"
  by (auto simp: node_live_def fun_eq_iff)

lemma cluster_calm_later [simp]: "cluster_calm (c\<lparr>now := t\<rparr>) A = cluster_calm c A"
  by (simp add: cluster_calm_def)

lemma serve_ok: "node_ok n \<Longrightarrow> request_ok req \<Longrightarrow> node_ok (snd (serve io req n))"
  by (cases req) (simp_all add: split_beta Let_def node_ok_SaveChunk node_ok_DeleteChunk)

lemma client_operation_calm:
  assumes "net_calm net A" "a \<in> A" "storage_nodes c a = Some n"
  shows "fst (client_operation net a req c) = fst (serve io_ok req n)"
  using assms
  by (auto simp: client_operation_def getClient_def rpc_def net_calm_def Let_def split_beta)

lemma node_live_operation:
  assumes "node_live c b" "request_ok req"
  shows "node_live (snd (client_operation net a req c)) b"
  using client_operation_storage [of net a req c b] assms serve_ok
  by (fastforce simp: node_live_def)

lemma cluster_calm_operation:
  "cluster_calm c A \<Longrightarrow> request_ok req \<Longrightarrow> cluster_calm (snd (client_operation net a req c)) A"
  by (simp add: cluster_calm_def node_live_operation)

text \<open>The requests that such a node always serves: it need not hold anything for them.\<close>

fun sure :: "node_request \<Rightarrow> bool" where
  "sure (ReqSave h d) \<longleftrightarrow> plain_name h"
| "sure ReqHealth \<longleftrightarrow> True"
| "sure _ \<longleftrightarrow> False"

lemma sure_request_ok: "sure req \<Longrightarrow> request_ok req"
  by (cases req) simp_all

lemma sure_calm:
  assumes "net_calm net A" "a \<in> A" "node_live c a" "sure req"
  shows "\<not> is_err (fst (client_operation net a req c))"
  using assms node_SaveChunk_live
  by (cases req) (auto simp: node_live_def client_operation_calm split_beta Let_def)

lemma client_operation_down:
  "storage_nodes c a = None \<Longrightarrow> is_err (fst (client_operation net a req c))"
  by (simp add: client_operation_def getClient_def rpc_def Let_def)

definition phase_calm :: "phase \<Rightarrow> bool" where
  "phase_calm p \<longleftrightarrow> (case p of Replied r \<Rightarrow> \<not> is_err r | Finished r \<Rightarrow> \<not> is_err r | _ \<Rightarrow> True)"

lemma call_step_calm:
  assumes "net_calm net A" "cluster_calm c A" "sure req" "a \<in> A \<longrightarrow> phase_calm p"
  shows "(a \<in> A \<longrightarrow> phase_calm (fst (call_step net (a, req) (p, c)))) \<and>
    cluster_calm (snd (call_step net (a, req) (p, c))) A"
proof (cases p)
  case Waiting
  with assms(2) show ?thesis
    by (auto simp: Let_def breaker_enter_eq cb_enter_def phase_calm_def cluster_calm_def)
next
  case Sent
  with assms show ?thesis
    using sure_calm [of net A a c req] cluster_calm_operation [OF assms(2) sure_request_ok, of req net a]
    by (auto simp: Let_def split_beta phase_calm_def cluster_calm_def)
next
  case (Replied r)
  with assms(2,4) show ?thesis
    by (cases r) (auto simp: phase_calm_def cluster_calm_def breaker_leave_eq cb_leave_def)
qed (use assms in simp)

definition flight_calm :: "call list \<Rightarrow> address set \<Rightarrow> flight \<Rightarrow> bool" where
  "flight_calm cs A fl \<longleftrightarrow> (case fl of (ps, fin, c) \<Rightarrow> length ps = length cs \<and>
     (\<forall>j < length cs. fst (cs ! j) \<in> A \<longrightarrow> phase_calm (ps ! j)) \<and> cluster_calm c A)"

definition sure_calls :: "call list \<Rightarrow> bool" where
  "sure_calls cs \<longleftrightarrow> (\<forall>(a, req) \<in> set cs. sure req)"

lemma flight_calm_step:
  assumes "net_calm net A" "sure_calls cs" "flight_calm cs A fl"
  shows "flight_calm cs A (flight_step net cs it fl)"
proof -
  obtain j t ps fin c where [simp]: "it = (j, t)" "fl = (ps, fin, c)" by (cases it; cases fl)
  show ?thesis
  proof (cases "j < length cs")
    case True
    obtain a req where cj: "cs ! j = (a, req)" "sure req"
      using assms(2) nth_mem [OF True] by (cases "cs ! j") (auto simp: sure_calls_def)
    from assms(3) have fl: "length ps = length cs" "\<forall>j < length cs. fst (cs ! j) \<in> A \<longrightarrow> phase_calm (ps ! j)"
      "cluster_calm c A"
      by (simp_all add: flight_calm_def)
    with True cj(1) have "a \<in> A \<longrightarrow> phase_calm (ps ! j)" by force
    with call_step_calm [OF assms(1) _ cj(2), of "c\<lparr>now := now c + int t\<rparr>" a "ps ! j"] fl True
    show ?thesis
      by (auto simp: flight_step_eq Let_def flight_calm_def cj(1) nth_list_update)
  qed (use assms(3) in \<open>simp add: flight_step_eq\<close>)
qed

lemma fan_out_calm:
  assumes "net_calm net A" "sure_calls cs" "cluster_calm c A" "fan_out net cs sched c = (ps, fin, c')"
  shows "i < length cs \<Longrightarrow> fst (cs ! i) \<in> A \<Longrightarrow> \<not> is_err (result (ps ! i))" "cluster_calm c' A"
proof -
  have "flight_calm cs A (fan_out net cs sched c)"
    unfolding fan_out_def
  proof (rule fold_invariant)
    show "flight_calm cs A (replicate (length cs) Waiting, [], c)"
      using assms(3) by (simp add: flight_calm_def phase_calm_def)
  qed (rule flight_calm_step [OF assms(1,2)])
  with assms(4) have fl: "length ps = length cs" "\<forall>j < length cs. fst (cs ! j) \<in> A \<longrightarrow> phase_calm (ps ! j)"
    "cluster_calm c' A"
    by (simp_all add: flight_calm_def)
  then show "cluster_calm c' A" by simp
  assume i: "i < length cs" "fst (cs ! i) \<in> A"
  with fl have "phase_calm (ps ! i)" "finished (ps ! i)"
    using fan_out_finished(2) [OF assms(4)] by simp_all
  then show "\<not> is_err (result (ps ! i))" by (auto simp: phase_calm_def finished_def split: phase.splits)
qed

text \<open>A call to a node that is down fails, whatever the schedule.\<close>

lemma dom_client_operation:
  "dom (storage_nodes (snd (client_operation net a req c))) = dom (storage_nodes c)"
proof -
  have "storage_nodes (snd (client_operation net a req c)) b = None \<longleftrightarrow> storage_nodes c b = None" for b
    using client_operation_storage [of net a req c b] by auto
  then show ?thesis by (auto simp: dom_def)
qed

lemma dom_call_step: "dom (storage_nodes (snd (call_step net cl pc))) = dom (storage_nodes (snd pc))"
  by (cases "(net, cl, pc)" rule: call_step.cases)
    (simp_all add: Let_def split_beta breaker_enter_eq breaker_leave_eq dom_client_operation)

lemma dom_fan_out: "dom (storage_nodes (snd (snd (fan_out net cs sched c)))) = dom (storage_nodes c)"
  unfolding fan_out_def
proof (rule fold_invariant [where P = "\<lambda>fl. dom (storage_nodes (snd (snd fl))) = dom (storage_nodes c)"])
  fix it :: "nat \<times> nat" and fl :: flight
  assume "dom (storage_nodes (snd (snd fl))) = dom (storage_nodes c)"
  then show "dom (storage_nodes (snd (snd (flight_step net cs it fl)))) = dom (storage_nodes c)"
    by (cases it; cases fl) (simp add: flight_step_eq Let_def dom_call_step)
qed simp

definition flight_down :: "call list \<Rightarrow> cluster \<Rightarrow> flight \<Rightarrow> bool" where
  "flight_down cs c0 fl \<longleftrightarrow> (case fl of (ps, fin, c) \<Rightarrow> length ps = length cs \<and>
     dom (storage_nodes c) = dom (storage_nodes c0) \<and>
     (\<forall>j < length cs. storage_nodes c0 (fst (cs ! j)) = None \<longrightarrow> \<not> answered (ps ! j)))"

lemma call_step_down:
  assumes "storage_nodes c a = None" "\<not> answered p"
  shows "\<not> answered (fst (call_step net (a, req) (p, c)))"
  using assms client_operation_down [of c a net req]
  by (cases p) (auto simp: Let_def split_beta answered_def)

lemma flight_down_step:
  assumes "flight_down cs c0 fl"
  shows "flight_down cs c0 (flight_step net cs it fl)"
proof -
  obtain j t ps fin c where [simp]: "it = (j, t)" "fl = (ps, fin, c)" by (cases it; cases fl)
  show ?thesis
  proof (cases "j < length cs")
    case True
    obtain a req where cj: "cs ! j = (a, req)" by fastforce
    have fl: "length ps = length cs" "dom (storage_nodes c) = dom (storage_nodes c0)"
      "\<forall>j < length cs. storage_nodes c0 (fst (cs ! j)) = None \<longrightarrow> \<not> answered (ps ! j)"
      using assms by (simp_all add: flight_down_def)
    have "\<not> answered (fst (call_step net (a, req) (ps ! j, c\<lparr>now := now c + int t\<rparr>)))"
      if none: "storage_nodes c0 a = None"
    proof (rule call_step_down)
      show "storage_nodes (c\<lparr>now := now c + int t\<rparr>) a = None" using none fl(2) by simp (metis domIff)
      show "\<not> answered (ps ! j)" using none fl(3) True cj by force
    qed
    with fl True show ?thesis
      by (auto simp: flight_step_eq Let_def flight_down_def cj nth_list_update dom_call_step)
  qed (use assms in \<open>simp add: flight_step_eq\<close>)
qed

lemma fan_out_down:
  assumes "fan_out net cs sched c = (ps, fin, c')" "i < length cs" "storage_nodes c (fst (cs ! i)) = None"
  shows "is_err (result (ps ! i))"
proof -
  have "flight_down cs c (fan_out net cs sched c)"
    unfolding fan_out_def
  proof (rule fold_invariant)
    show "flight_down cs c (replicate (length cs) Waiting, [], c)"
      by (simp add: flight_down_def answered_def)
  qed (rule flight_down_step)
  with assms have "\<not> answered (ps ! i)" by (simp add: flight_down_def)
  moreover have "finished (ps ! i)" using fan_out_finished(2) [OF assms(1,2)] .
  ultimately show ?thesis by (auto simp: answered_def finished_def split: phase.splits)
qed

section \<open>\<open>SaveChunk\<close>\<close>

lemma map_nth_mset: "mset fin = mset [0..<length xs] \<Longrightarrow> mset (map ((!) xs) fin) = mset xs"
  by (metis map_nth mset_map)

lemma length_errors: "length (errors_of a r) = (if is_err r then 1 else 0)"
  by (cases r) simp_all

lemma length_concat_filter:
  "length (filter (\<lambda>i. \<not> is_err (f i)) xs) + length (concat (map (\<lambda>i. errors_of (g i) (f i)) xs)) = length xs"
  by (induction xs) (simp_all add: length_errors)

lemma SaveChunk_success:
  assumes "client_SaveChunk net sched addrs h d c = ((succ, errs), c')"
    and "distinct addrs" "plain_name h"
  shows "distinct succ" "set succ \<subseteq> set addrs" "length succ + length errs = length addrs"
    "a \<in> set succ \<Longrightarrow> node_holds c' a h d"
proof -
  let ?cs = "map (\<lambda>a. (a, ReqSave h d)) addrs"
  obtain ps fin where f: "fan_out net ?cs sched c = (ps, fin, c')"
    and succ: "succ = map ((!) addrs) (filter (\<lambda>i. \<not> is_err (result (ps ! i))) fin)"
    and errs: "errs = concat (map (\<lambda>i. errors_of (addrs ! i) (result (ps ! i))) fin)"
    using assms(1) by (auto simp: client_SaveChunk_def Let_def split: prod.splits)
  have fin: "mset fin = mset [0..<length addrs]" using fan_out_finished(3) [OF f] by simp
  have idx: "set fin = {0..<length addrs}" "distinct fin"
    using mset_eq_setD [OF fin] mset_eq_imp_distinct_iff [OF fin] by simp_all
  have inj: "inj_on ((!) addrs) (set fin)"
    using assms(2) idx by (auto simp: inj_on_def nth_eq_iff_index_eq)
  show "distinct succ"
    using idx(2) inj by (auto simp: succ distinct_map intro: inj_on_subset)
  show "set succ \<subseteq> set addrs" using idx by (auto simp: succ)
  show "length succ + length errs = length addrs"
    using mset_eq_length [OF fin] by (simp add: succ errs length_concat_filter)
  assume "a \<in> set succ"
  then obtain i where i: "i < length addrs" "a = addrs ! i" "\<not> is_err (result (ps ! i))"
    using idx by (auto simp: succ)
  have "compatible net ?cs i a h {d}"
    using assms(2,3) i by (auto simp: compatible_def nth_eq_iff_index_eq)
  with fan_out_save [OF f, of i a h d "{d}"] i show "node_holds c' a h d" by simp
qed

lemma SaveChunk_calm:
  assumes "client_SaveChunk net sched addrs h d c = ((succ, errs), c')"
    and "net_calm net A" "cluster_calm c A" "plain_name h"
  shows "set addrs \<inter> A \<subseteq> set succ" "set addrs \<subseteq> A \<Longrightarrow> mset succ = mset addrs \<and> errs = []"
    "cluster_calm c' A"
proof -
  let ?cs = "map (\<lambda>a. (a, ReqSave h d)) addrs"
  obtain ps fin where f: "fan_out net ?cs sched c = (ps, fin, c')"
    and succ: "succ = map ((!) addrs) (filter (\<lambda>i. \<not> is_err (result (ps ! i))) fin)"
    and errs: "errs = concat (map (\<lambda>i. errors_of (addrs ! i) (result (ps ! i))) fin)"
    using assms(1) by (auto simp: client_SaveChunk_def Let_def split: prod.splits)
  have fin: "mset fin = mset [0..<length addrs]" using fan_out_finished(3) [OF f] by simp
  have idx: "set fin = {0..<length addrs}" using mset_eq_setD [OF fin] by simp
  have "sure_calls ?cs" using assms(4) by (auto simp: sure_calls_def)
  note calm = fan_out_calm [OF assms(2) this assms(3) f]
  show "cluster_calm c' A" by (rule calm(2))
  have ok: "\<not> is_err (result (ps ! i))" if "i < length addrs" "addrs ! i \<in> A" for i
    using that calm(1) by simp
  then show "set addrs \<inter> A \<subseteq> set succ"
    using idx by (fastforce simp: succ in_set_conv_nth)
  assume sub: "set addrs \<subseteq> A"
  then have all: "\<not> is_err (result (ps ! i))" if "i \<in> set fin" for i
    using that ok idx by (auto simp: subset_iff)
  then have "filter (\<lambda>i. \<not> is_err (result (ps ! i))) fin = fin" by (simp add: filter_id_conv)
  then have "mset succ = mset addrs" by (simp only: succ map_nth_mset [OF fin])
  moreover have "errors_of (addrs ! i) (result (ps ! i)) = []" if "i \<in> set fin" for i
    using all [OF that] by (cases "result (ps ! i)") simp_all
  ultimately show "mset succ = mset addrs \<and> errs = []" by (simp add: errs)
qed

section \<open>Properties\<close>

text \<open>
  C27: whatever calls are in flight through a breaker, in whatever order they enter and leave, a
  breaker is closed exactly while fewer than three failures have been counted since the last
  success, and it rejects a call exactly while it is open and at most 30 seconds have passed
  since the last failure it counted.
\<close>

theorem breaker_state:
  assumes "cb_reachable (cb, t, n)"
  shows "(state cb = StateClosed \<longleftrightarrow> failures cb < 3) \<and>
         (fst (cb_enter t cb) \<longleftrightarrow>
            state cb = StateClosed \<or> state cb = StateHalfOpen \<or> t - lastFailure cb > seconds 30)"
  using cb_inv_reachable [OF assms] by (cases "state cb") (auto simp: cb_inv_def cb_enter_def)

text \<open>
  A call to a node whose breaker has been open for at most 30 seconds since its last failure
  fails at once with the breaker's error and does nothing else: no request is sent, nothing
  changes and no time passes.
\<close>

theorem open_breaker_rejects:
  assumes "state (breaker_of c a) = StateOpen" "now c - lastFailure (breaker_of c a) \<le> seconds 30"
  shows "client_call net a req c = (Inl (circuit_open a), c)"
  using assms by (cases rule: client_call_cases [of c a net req]) (auto simp: cb_enter_def)

text \<open>
  Three calls to a node in a row that fail, for whatever reason, leave its breaker open,
  from any state the client can be in.
\<close>

theorem breaker_trips:
  assumes "client_inv c" "client_call net a r1 c = (Inl e1, c1)"
    and "client_call net a r2 c1 = (Inl e2, c2)" "client_call net a r3 c2 = (Inl e3, c3)"
  shows "state (breaker_of c3 a) = StateOpen"
proof -
  have inv: "client_inv c1" "client_inv c2" "client_inv c3"
    using client_inv_call assms by (metis snd_conv)+
  have f: "0 \<le> failures (breaker_of c' a)"
    and opn: "state (breaker_of c' a) = StateOpen \<Longrightarrow> 3 \<le> failures (breaker_of c' a)" if "client_inv c'" for c'
  proof -
    have "cb_inv (now c') (breaker_of c' a)" using that by (simp add: client_inv_def)
    then show "0 \<le> failures (breaker_of c' a)"
      "state (breaker_of c' a) = StateOpen \<Longrightarrow> 3 \<le> failures (breaker_of c' a)"
      by (auto simp: cb_inv_def)
  qed
  show ?thesis
    using client_call_error [OF assms(1,2)] client_call_error [OF inv(1) assms(3)]
      client_call_error [OF inv(2) assms(4)] f [OF assms(1)] opn [OF inv(1)] opn [OF inv(2)] by auto
qed

text \<open>
  A call that succeeds closes the node's breaker and forgets its failures, so a node that
  has come back is used like any other.
\<close>

theorem success_closes_breaker:
  assumes "client_call net a req c = (Inr v, c')"
  shows "breaker_of c' a = (breaker_of c' a)\<lparr>state := StateClosed, failures := 0\<rparr> \<and>
         fst (breaker_enter a c')"
  using client_call_success [OF assms] by (simp add: breaker_enter_eq cb_enter_def)

text \<open>
  A half-open breaker does not hold back anything. When a breaker has been open for more
  than 30 seconds and any number of goroutines enter it one after another, before the first
  of them has an answer, all of them are let through and send their request.
\<close>

theorem half_open_admits_all:
  assumes "state (breaker_of c a) = StateOpen" "now c - lastFailure (breaker_of c a) > seconds 30"
  shows "fst (fold (flight_step net (map (Pair a) reqs)) (map (\<lambda>i. (i, 0)) [0..<length reqs])
               (replicate (length reqs) Waiting, [], c)) = replicate (length reqs) Sent"
proof -
  let ?cs = "map (Pair a) reqs"
  have "\<exists>c'. fold (flight_step net ?cs) (map (\<lambda>i. (i, 0)) [0..<k]) (replicate (length reqs) Waiting, [], c)
      = (replicate k Sent @ replicate (length reqs - k) Waiting, [], c') \<and>
      fst (breaker_enter a c')" if "k \<le> length reqs" for k
    using that
  proof (induction k)
    case 0
    with assms show ?case by (simp add: breaker_enter_eq cb_enter_def)
  next
    case (Suc k)
    then obtain c' where c': "fold (flight_step net ?cs) (map (\<lambda>i. (i, 0)) [0..<k])
        (replicate (length reqs) Waiting, [], c)
        = (replicate k Sent @ replicate (length reqs - k) Waiting, [], c')" "fst (breaker_enter a c')"
      by auto
    let ?c = "snd (breaker_enter a c')"
    have "fst (breaker_enter a ?c)"
      using c'(2) by (auto simp: breaker_enter_eq cb_enter_def split: if_splits)
    moreover have "flight_step net ?cs (k, 0) (replicate k Sent @ replicate (length reqs - k) Waiting, [], c')
        = (replicate (Suc k) Sent @ replicate (length reqs - Suc k) Waiting, [], ?c)"
      using Suc.prems c'(2)
      by (simp add: flight_step_eq nth_append list_update_append Let_def split_beta finished_def
          Suc_diff_Suc [symmetric] replicate_append_same)
    ultimately show ?case using c'(1) by (intro exI [of _ ?c]) simp
  qed
  from this [of "length reqs"] show ?thesis by auto
qed

text \<open>
  C28: what \<open>SaveChunk\<close> reports is true. Under every schedule of its goroutines, every network
  and every disk, each address it returns as successful is one of the given nodes, returned
  once, and that node holds exactly the data under the hash; every other address has an error.
\<close>

theorem SaveChunk_acknowledged:
  assumes "client_SaveChunk net sched addrs h d c = ((succ, errs), c')"
    and "distinct addrs" "plain_name h"
  shows "distinct succ \<and> set succ \<subseteq> set addrs \<and> length succ + length errs = length addrs \<and>
         (\<forall>a \<in> set succ. node_holds c' a h d)"
  using SaveChunk_success [OF assms] by blast


section \<open>Concrete instances\<close>

definition cluster_of :: "(address \<rightharpoonup> NodeHandler) \<Rightarrow> (address \<rightharpoonup> CircuitBreaker) \<Rightarrow> int \<Rightarrow> cluster" where
  "cluster_of ns bs t = \<lparr>conns = {}, breakers = bs, storage_nodes = ns, rpc_no = (\<lambda>a. 0), now = t\<rparr>"

definition tripped :: CircuitBreaker where
  "tripped = \<lparr>state = StateOpen, failures = 3, lastFailure = 0\<rparr>"

lemma node_ok_example: "node_ok disk_example"
  by (auto simp: node_ok_def disk_example_def data_dirs_def ancestors_def Clean_def Let_def
      entry_at_def is_file_def parent_def)

lemma tripped_reachable: "cb_reachable (tripped, 0, 0)"
proof -
  let ?b = "\<lambda>s k. \<lparr>state = s, failures = k, lastFailure = 0\<rparr>"
  have fail: "cb_reachable (?b (if k = 2 then StateOpen else StateClosed) (k + 1), 0, 0)"
    if "cb_reachable (?b StateClosed k, 0, 0)" "k \<le> 2" for k
  proof -
    have "cb_reachable (?b StateClosed k, 0, Suc 0)"
      by (rule cb_reachable.step [OF that(1) admit]) (simp add: cb_enter_def)
    from cb_reachable.step [OF this leave [where failed = True]] that(2)
    show ?thesis by (simp add: cb_leave_def Let_def split: if_splits)
  qed
  have "cb_reachable (?b StateClosed 0, 0, 0)" using start [of 0] by (simp add: new_breaker_def)
  from fail [OF this] have "cb_reachable (?b StateClosed 1, 0, 0)" by simp
  from fail [OF this] have "cb_reachable (?b StateClosed 2, 0, 0)" by simp
  from fail [OF this] show ?thesis by (simp add: tripped_def)
qed

lemma breaker_state_witness: "\<not> fst (cb_enter 0 tripped)"
  using breaker_state [OF tripped_reachable] by (simp add: tripped_def seconds_def)

lemma open_breaker_rejects_witness:
  "client_call net_ok ''n'' ReqHealth (cluster_of Map.empty [''n'' \<mapsto> tripped] (seconds 30)) =
     (Inl (circuit_open ''n''), cluster_of Map.empty [''n'' \<mapsto> tripped] (seconds 30))"
  by (rule open_breaker_rejects) (simp_all add: cluster_of_def breaker_of_def tripped_def)

lemma breaker_trips_witness:
  "\<exists>e1 c1 e2 c2 e3 c3. client_call net_ok ''n'' ReqHealth (cluster_of Map.empty Map.empty 0) = (Inl e1, c1) \<and>
     client_call net_ok ''n'' ReqHealth c1 = (Inl e2, c2) \<and>
     client_call net_ok ''n'' ReqHealth c2 = (Inl e3, c3) \<and> state (breaker_of c3 ''n'') = StateOpen"
proof -
  have fails: "\<exists>e c'. client_call net_ok ''n'' ReqHealth c = (Inl e, c') \<and> storage_nodes c' = Map.empty"
    if "storage_nodes c = Map.empty" for c
  proof (cases rule: client_call_cases [of c "''n''" net_ok ReqHealth])
    case (ran c1 r c2)
    then have "storage_nodes c1 = Map.empty" "c2 = snd (client_operation net_ok ''n'' ReqHealth c1)"
      "r = fst (client_operation net_ok ''n'' ReqHealth c1)"
      using that by simp_all
    then have "storage_nodes c2 = Map.empty" "is_err r"
      using client_operation_storage [of net_ok "''n''" ReqHealth c1] client_operation_down [of c1 "''n''"]
      by (auto simp: fun_eq_iff)
    with ran(4) show ?thesis by (cases r) (auto simp: breaker_leave_eq)
  qed (use that in simp)
  let ?c = "cluster_of Map.empty Map.empty 0"
  have "client_inv ?c" "storage_nodes ?c = Map.empty" by (simp_all add: client_inv_new cluster_of_def)
  moreover obtain e1 c1 where "client_call net_ok ''n'' ReqHealth ?c = (Inl e1, c1)" "storage_nodes c1 = Map.empty"
    using fails [OF calculation(2)] by blast
  moreover obtain e2 c2 where "client_call net_ok ''n'' ReqHealth c1 = (Inl e2, c2)" "storage_nodes c2 = Map.empty"
    using fails [OF calculation(4)] by blast
  moreover obtain e3 c3 where "client_call net_ok ''n'' ReqHealth c2 = (Inl e3, c3)"
    using fails [OF calculation(6)] by blast
  ultimately show ?thesis using breaker_trips by blast
qed

lemma success_closes_breaker_witness:
  "fst (breaker_enter ''n'' (snd (client_call net_ok ''n'' ReqHealth
     (cluster_of [''n'' \<mapsto> disk_example] [''n'' \<mapsto> tripped] (seconds 31)))))"
proof -
  let ?c = "cluster_of [''n'' \<mapsto> disk_example] [''n'' \<mapsto> tripped] (seconds 31)"
  have "client_call net_ok ''n'' ReqHealth ?c =
      (Inr (RepHealth ''ok'' ''./data''), snd (client_call net_ok ''n'' ReqHealth ?c))"
    by (simp add: client_call_def executewithBreaker_def breaker_enter_eq cb_enter_def cluster_of_def
        breaker_of_def tripped_def seconds_def client_operation_def getClient_def rpc_def net_ok_def
        node_Health_def disk_example_def Let_def)
  then show ?thesis by (rule success_closes_breaker [THEN conjunct2])
qed

lemma half_open_admits_all_witness:
  "fst (fold (flight_step net_ok [(''n'', ReqHealth), (''n'', ReqHealth)]) [(0, 0), (1, 0)]
     ([Waiting, Waiting], [], cluster_of Map.empty [''n'' \<mapsto> tripped] (seconds 31))) = [Sent, Sent]"
  using half_open_admits_all [of "cluster_of Map.empty [''n'' \<mapsto> tripped] (seconds 31)" "''n''" net_ok
      "[ReqHealth, ReqHealth]"]
  by (simp add: cluster_of_def breaker_of_def tripped_def seconds_def numeral_2_eq_2)

lemma SaveChunk_acknowledged_witness:
  "\<exists>c'. client_SaveChunk net_ok [(0, 5)] [''n''] ''c'' [1] (cluster_of [''n'' \<mapsto> disk_example] Map.empty 0)
     = (([''n''], []), c') \<and> node_holds c' ''n'' ''c'' [1]"
proof -
  let ?c = "cluster_of [''n'' \<mapsto> disk_example] Map.empty 0"
  obtain succ errs c' where s: "client_SaveChunk net_ok [(0, 5)] [''n''] ''c'' [1] ?c = ((succ, errs), c')"
    by (metis prod.exhaust)
  moreover have "cluster_calm ?c {''n''}"
    by (simp add: cluster_calm_def cluster_of_def breaker_of_def new_breaker_def node_live_def node_ok_example)
  ultimately have "succ = [''n'']" "errs = []"
    using SaveChunk_calm(2) [OF s net_calm_ok, of "{''n''}"] plain_c by simp_all
  with SaveChunk_acknowledged [OF s] s plain_c show ?thesis by simp
qed

end
