(* ===== verification/Database.thy ===== *)
theory Database imports Prelude begin

text \<open>
  The gateway's metadata (\<open>internal/db\<close>): the tables of \<open>migrations/\<close> with their keys, unique
  and foreign key constraints and cascades, and every query of \<open>object_repo.go\<close>, \<open>node_repo.go\<close>
  and \<open>user_repo.go\<close> as a function on them. PostgreSQL can lose a statement or its answer, and
  decides what SQL leaves open (generated identifiers, times, the order of rows); all of that
  is the argument \<open>db_env\<close>.
  The file shows that the tables keep their constraints, that the transactions are all or
  nothing, and what a chunk's metadata is when it is read back.
\<close>

section \<open>Rows and tables\<close>

type_synonym uuid = string

record Object =
  obj_ID :: uuid
  obj_UserID :: uuid
  obj_Name :: string
  obj_SizeBytes :: int
  obj_ContentType :: string
  obj_CreatedAt :: int

record chunk_row =
  ch_ID :: uuid
  ch_ObjectID :: uuid
  ch_ChunkIndex :: int
  ch_Hash :: string
  ch_SizeBytes :: int

text \<open>The struct \<^verbatim>\<open>Chunk\<close> is a row of the table with the addresses of its locations.\<close>

record Chunk = chunk_row +
  ch_NodeAddresses :: "address list"

record User =
  usr_ID :: uuid
  usr_Email :: string
  usr_Password :: string
  usr_CreatedAt :: int

record Node =
  nd_ID :: uuid
  nd_Address :: address
  nd_IsActive :: bool
  nd_LastHeartbeat :: int

record mp_upload =
  mu_ID :: uuid
  mu_UserID :: uuid
  mu_Filename :: string
  mu_ContentType :: string

record mp_chunk =
  mc_UploadID :: uuid
  mc_ChunkIndex :: int
  mc_Hash :: string
  mc_SizeBytes :: int

record database =
  users :: "User list"
  objects :: "Object list"
  chunks :: "chunk_row list"
  chunk_locations :: "(uuid \<times> address) list"
  multipart_uploads :: "mp_upload list"
  multipart_chunks :: "mp_chunk list"
  multipart_chunk_locations :: "(uuid \<times> int \<times> address) list"
  nodes :: "Node list"
  stmt_no :: nat

section \<open>The server\<close>

text \<open>
  For the \<open>k\<close>-th statement: what becomes of it, the identifiers that \<open>gen_random_uuid()\<close> makes,
  the time, the order of the rows (and, per row, of its \<open>array_agg\<close>), and after how many rows
  the connection breaks. \<open>uuid_in\<close> is the reading of a text as a UUID, in its canonical form,
  and \<open>text_ok\<close> holds for the strings that a TEXT column can store.
\<close>

record db_env =
  db_fault :: "nat \<Rightarrow> fault"
  gen_uuid :: "nat \<Rightarrow> nat \<Rightarrow> uuid"
  db_now :: "nat \<Rightarrow> int"
  row_order :: "nat \<Rightarrow> nat list"
  agg_order :: "nat \<Rightarrow> nat \<Rightarrow> nat list"
  rows_cut :: "nat \<Rightarrow> nat option"
  uuid_in :: "string \<Rightarrow> uuid option"
  text_ok :: "string \<Rightarrow> bool"

definition conn_err :: go_error where
  "conn_err = Errorf ''driver: bad connection''"

definition bad_uuid :: go_error where
  "bad_uuid = Errorf ''pq: invalid input syntax for type uuid''"

definition violation :: "string \<Rightarrow> go_error" where
  "violation s = Errorf (''pq: '' @ s)"

text \<open>A statement outside a transaction: \<open>f\<close> is its effect, given its number.\<close>

definition exec_stmt ::
  "db_env \<Rightarrow> (nat \<Rightarrow> database \<Rightarrow> go_error + 'a \<times> database) \<Rightarrow> database \<Rightarrow> (go_error + 'a) \<times> database" where
  "exec_stmt env f db =
     (let k = stmt_no db;
          db = db\<lparr>stmt_no := Suc k\<rparr>;
          db_done = (case f k db of Inl e \<Rightarrow> db | Inr (v, db') \<Rightarrow> db')
      in case db_fault env k of
           Deliver \<Rightarrow> (map_sum id fst (f k db), db_done)
         | DropRequest \<Rightarrow> (Inl conn_err, db)
         | DropReply \<Rightarrow> (Inl conn_err, db_done))"

text \<open>
  A statement in a transaction: one that is not answered is an error, after which the caller
  rolls back.
\<close>

definition tx_stmt ::
  "db_env \<Rightarrow> (nat \<Rightarrow> database \<Rightarrow> go_error + 'a \<times> database) \<Rightarrow> database \<Rightarrow> (go_error + 'a) \<times> database" where
  "tx_stmt env f db =
     (let k = stmt_no db;
          db = db\<lparr>stmt_no := Suc k\<rparr>
      in if db_fault env k \<noteq> Deliver then (Inl conn_err, db)
         else case f k db of
                Inl e \<Rightarrow> (Inl e, db)
              | Inr (v, db') \<Rightarrow> (Inr v, db'))"

text \<open>
  \<open>Begin\<close>, the body, and \<open>Commit\<close>, with the deferred \<open>Rollback\<close> on every early return. The
  answer to a \<open>COMMIT\<close> that was carried out can be lost.
\<close>

definition transaction ::
  "db_env \<Rightarrow> (database \<Rightarrow> (go_error + 'a) \<times> database) \<Rightarrow> database \<Rightarrow> (go_error + 'a) \<times> database" where
  "transaction env body db =
     (let k = stmt_no db;
          db = db\<lparr>stmt_no := Suc k\<rparr>
      in if db_fault env k \<noteq> Deliver then (Inl conn_err, db)
         else case body db of
                (Inl e, tx) \<Rightarrow> (Inl e, db\<lparr>stmt_no := stmt_no tx\<rparr>)
              | (Inr v, tx) \<Rightarrow>
                  (let k = stmt_no tx
                   in case db_fault env k of
                        Deliver \<Rightarrow> (Inr v, tx\<lparr>stmt_no := Suc k\<rparr>)
                      | DropRequest \<Rightarrow> (Inl conn_err, db\<lparr>stmt_no := Suc k\<rparr>)
                      | DropReply \<Rightarrow> (Inl conn_err, tx\<lparr>stmt_no := Suc k\<rparr>)))"

text \<open>A statement in a transaction, and the early return on its error.\<close>

definition tx_then ::
  "db_env \<Rightarrow> (nat \<Rightarrow> database \<Rightarrow> go_error + 'a \<times> database) \<Rightarrow>
   ('a \<Rightarrow> database \<Rightarrow> (go_error + 'b) \<times> database) \<Rightarrow> database \<Rightarrow> (go_error + 'b) \<times> database" where
  "tx_then env f continue db =
     (case tx_stmt env f db of
        (Inl err, db) \<Rightarrow> (Inl err, db)
      | (Inr v, db) \<Rightarrow> continue v db)"

text \<open>
  The loop over \<open>rows.Next()\<close>. It ends quietly when the connection breaks: no query of the
  program asks for \<open>rows.Err()\<close> after it.
\<close>

definition fetch_rows :: "db_env \<Rightarrow> nat \<Rightarrow> 'a list \<Rightarrow> 'a list" where
  "fetch_rows env k rows = (case rows_cut env k of None \<Rightarrow> rows | Some m \<Rightarrow> take m rows)"

definition int4_ok :: "int \<Rightarrow> bool" where
  "int4_ok i \<longleftrightarrow> - (2 ^ 31) \<le> i \<and> i < 2 ^ 31"

section \<open>\<open>object_repo.go\<close>\<close>

text \<open>The \<open>INSERT INTO objects\<close> of \<open>CreateObject\<close> and \<open>CompleteMultipartUpload\<close>.\<close>

definition insert_object ::
  "db_env \<Rightarrow> string \<Rightarrow> string \<Rightarrow> string \<Rightarrow> int \<Rightarrow> nat \<Rightarrow> database \<Rightarrow> go_error + uuid \<times> database" where
  "insert_object env userID name contentType sizeBytes k db =
     (case uuid_in env userID of
        None \<Rightarrow> Inl bad_uuid
      | Some u \<Rightarrow>
          if \<not> text_ok env name \<or> \<not> text_ok env contentType then Inl (violation ''invalid byte sequence'')
          else if u \<notin> usr_ID ` set (users db) then Inl (violation ''objects_user_id_fkey'')
          else let newID = gen_uuid env k 0
               in if newID \<in> obj_ID ` set (objects db) then Inl (violation ''objects_pkey'')
                  else Inr (newID, db\<lparr>objects := objects db @
                         [\<lparr>obj_ID = newID, obj_UserID = u, obj_Name = name, obj_SizeBytes = sizeBytes,
                           obj_ContentType = contentType, obj_CreatedAt = db_now env k\<rparr>]\<rparr>))"

definition CreateObject ::
  "db_env \<Rightarrow> string \<Rightarrow> string \<Rightarrow> string \<Rightarrow> int \<Rightarrow> database \<Rightarrow> (go_error + uuid) \<times> database" where
  "CreateObject env userID name contentType sizeBytes db =
     (let (r, db) = exec_stmt env (insert_object env userID name contentType sizeBytes) db
      in case r of
           Inl err \<Rightarrow> (Inl (Wrapf ''create object'' err), db)
         | Inr newID \<Rightarrow> (Inr newID, db))"

text \<open>The two statements of \<open>CreateChunk\<close>, and its loop over the nodes.\<close>

definition insert_chunk ::
  "db_env \<Rightarrow> uuid \<Rightarrow> int \<Rightarrow> string \<Rightarrow> int \<Rightarrow> nat \<Rightarrow> database \<Rightarrow> go_error + uuid \<times> database" where
  "insert_chunk env objectID chunkIndex hash sizeBytes k db =
     (case uuid_in env objectID of
        None \<Rightarrow> Inl bad_uuid
      | Some u \<Rightarrow>
          if \<not> int4_ok chunkIndex then Inl (violation ''integer out of range'')
          else if \<not> text_ok env hash then Inl (violation ''invalid byte sequence'')
          else if u \<notin> obj_ID ` set (objects db) then Inl (violation ''chunks_object_id_fkey'')
          else if (u, chunkIndex) \<in> (\<lambda>c. (ch_ObjectID c, ch_ChunkIndex c)) ` set (chunks db)
          then Inl (violation ''chunks_object_id_chunk_index_key'')
          else let newID = gen_uuid env k 0
               in if newID \<in> ch_ID ` set (chunks db) then Inl (violation ''chunks_pkey'')
                  else Inr (newID, db\<lparr>chunks := chunks db @
                         [\<lparr>ch_ID = newID, ch_ObjectID = u, ch_ChunkIndex = chunkIndex, ch_Hash = hash,
                           ch_SizeBytes = sizeBytes\<rparr>]\<rparr>))"

definition insert_location ::
  "db_env \<Rightarrow> uuid \<Rightarrow> address \<Rightarrow> nat \<Rightarrow> database \<Rightarrow> go_error + unit \<times> database" where
  "insert_location env chunkID node k db =
     (case uuid_in env chunkID of
        None \<Rightarrow> Inl bad_uuid
      | Some u \<Rightarrow>
          if \<not> text_ok env node then Inl (violation ''invalid byte sequence'')
          else if u \<notin> ch_ID ` set (chunks db) then Inl (violation ''chunk_locations_chunk_id_fkey'')
          else if (u, node) \<in> set (chunk_locations db) then Inl (violation ''chunk_locations_pkey'')
          else Inr ((), db\<lparr>chunk_locations := chunk_locations db @ [(u, node)]\<rparr>))"

fun insert_locations ::
  "db_env \<Rightarrow> uuid \<Rightarrow> address list \<Rightarrow> database \<Rightarrow> (go_error + unit) \<times> database" where
  "insert_locations env chunkID [] db = (Inr (), db)"
| "insert_locations env chunkID (node # ns) db =
     (case tx_stmt env (insert_location env chunkID node) db of
        (Inl err, db) \<Rightarrow> (Inl (Wrapf ''create chunk location'' err), db)
      | (Inr _, db) \<Rightarrow> insert_locations env chunkID ns db)"

definition CreateChunk ::
  "db_env \<Rightarrow> uuid \<Rightarrow> int \<Rightarrow> string \<Rightarrow> int \<Rightarrow> address list \<Rightarrow> database \<Rightarrow> (go_error + unit) \<times> database" where
  "CreateChunk env objectID chunkIndex hash sizeBytes nodeAddresses db =
     transaction env (\<lambda>db.
       case tx_stmt env (insert_chunk env objectID chunkIndex hash sizeBytes) db of
         (Inl err, db) \<Rightarrow> (Inl (Wrapf ''create chunk'' err), db)
       | (Inr chunkID, db) \<Rightarrow> insert_locations env chunkID nodeAddresses db) db"

definition GetObjectByID ::
  "db_env \<Rightarrow> string \<Rightarrow> string \<Rightarrow> database \<Rightarrow> (go_error + Object option) \<times> database" where
  "GetObjectByID env objectID userID db =
     (let (r, db) = exec_stmt env (\<lambda>k db.
          case (uuid_in env objectID, uuid_in env userID) of
            (Some i, Some u) \<Rightarrow>
              (case filter (\<lambda>r. obj_ID r = i \<and> obj_UserID r = u) (objects db) of
                 [] \<Rightarrow> Inl ErrNoRows
               | r # _ \<Rightarrow> Inr (r, db))
          | _ \<Rightarrow> Inl bad_uuid) db
      in case r of
           Inl err \<Rightarrow> if err = ErrNoRows then (Inr None, db) else (Inl (Wrapf ''get object'' err), db)
         | Inr r \<Rightarrow> (Inr (Some r), db))"

definition locations_of :: "database \<Rightarrow> uuid \<Rightarrow> address list" where
  "locations_of db i = map snd (filter (\<lambda>l. fst l = i) (chunk_locations db))"

text \<open>The row that the join, the grouping and \<open>array_agg\<close> make of a chunk with locations.\<close>

definition chunk_result :: "db_env \<Rightarrow> nat \<Rightarrow> database \<Rightarrow> nat \<times> chunk_row \<Rightarrow> Chunk" where
  "chunk_result env k db ic =
     (let (i, c) = ic
      in \<lparr>ch_ID = ch_ID c, ch_ObjectID = ch_ObjectID c, ch_ChunkIndex = ch_ChunkIndex c,
          ch_Hash = ch_Hash c, ch_SizeBytes = ch_SizeBytes c,
          ch_NodeAddresses = shuffle (agg_order env k i) (locations_of db (ch_ID c))\<rparr>)"

definition joined_chunks :: "db_env \<Rightarrow> nat \<Rightarrow> database \<Rightarrow> (chunk_row \<Rightarrow> bool) \<Rightarrow> Chunk list" where
  "joined_chunks env k db P =
     map (chunk_result env k db)
       (enumerate 0 (filter (\<lambda>c. P c \<and> locations_of db (ch_ID c) \<noteq> []) (chunks db)))"

definition GetChunksByObjectID :: "db_env \<Rightarrow> string \<Rightarrow> database \<Rightarrow> (go_error + Chunk list) \<times> database" where
  "GetChunksByObjectID env objectID db =
     (let (r, db) = exec_stmt env (\<lambda>k db.
          case uuid_in env objectID of
            None \<Rightarrow> Inl bad_uuid
          | Some u \<Rightarrow>
              Inr (fetch_rows env k (sort_key ch_ChunkIndex (joined_chunks env k db (\<lambda>c. ch_ObjectID c = u))), db)) db
      in case r of
           Inl err \<Rightarrow> (Inl (Wrapf ''get chunks'' err), db)
         | Inr cs \<Rightarrow> (Inr cs, db))"

definition ListObjects :: "db_env \<Rightarrow> string \<Rightarrow> database \<Rightarrow> (go_error + Object list) \<times> database" where
  "ListObjects env userID db =
     (let (r, db) = exec_stmt env (\<lambda>k db.
          case uuid_in env userID of
            None \<Rightarrow> Inl bad_uuid
          | Some u \<Rightarrow>
              Inr (fetch_rows env k (sort_key (\<lambda>r. - obj_CreatedAt r)
                     (shuffle (row_order env k) (filter (\<lambda>r. obj_UserID r = u) (objects db)))), db)) db
      in case r of
           Inl err \<Rightarrow> (Inl (Wrapf ''list objects'' err), db)
         | Inr rs \<Rightarrow> (Inr rs, db))"

text \<open>Deleting objects cascades to their chunks and to the locations of those.\<close>

definition delete_objects :: "(Object \<Rightarrow> bool) \<Rightarrow> database \<Rightarrow> database" where
  "delete_objects P db =
     (let gone = obj_ID ` set (filter P (objects db));
          gone_chunks = ch_ID ` set (filter (\<lambda>c. ch_ObjectID c \<in> gone) (chunks db))
      in db\<lparr>objects := filter (\<lambda>r. \<not> P r) (objects db),
            chunks := filter (\<lambda>c. ch_ObjectID c \<notin> gone) (chunks db),
            chunk_locations := filter (\<lambda>l. fst l \<notin> gone_chunks) (chunk_locations db)\<rparr>)"

definition DeleteObject :: "db_env \<Rightarrow> string \<Rightarrow> string \<Rightarrow> database \<Rightarrow> go_error option \<times> database" where
  "DeleteObject env objectID userID db =
     (let (r, db) = exec_stmt env (\<lambda>k db.
          case (uuid_in env objectID, uuid_in env userID) of
            (Some i, Some u) \<Rightarrow>
              (let P = (\<lambda>r. obj_ID r = i \<and> obj_UserID r = u)
               in Inr (length (filter P (objects db)), delete_objects P db))
          | _ \<Rightarrow> Inl bad_uuid) db
      in case r of
           Inl err \<Rightarrow> (Some (Wrapf ''delete object'' err), db)
         | Inr rows \<Rightarrow>
             if rows = 0 then (Some (Errorf ''object not found or owned by user''), db) else (None, db))"


text \<open>The multipart uploads.\<close>

definition CreateMultipartUpload ::
  "db_env \<Rightarrow> string \<Rightarrow> string \<Rightarrow> string \<Rightarrow> database \<Rightarrow> (go_error + uuid) \<times> database" where
  "CreateMultipartUpload env userID filename contentType db =
     exec_stmt env (\<lambda>k db.
       case uuid_in env userID of
         None \<Rightarrow> Inl bad_uuid
       | Some u \<Rightarrow>
           if \<not> text_ok env filename \<or> \<not> text_ok env contentType then Inl (violation ''invalid byte sequence'')
           else if u \<notin> usr_ID ` set (users db) then Inl (violation ''multipart_uploads_user_id_fkey'')
           else let newID = gen_uuid env k 0
                in if newID \<in> mu_ID ` set (multipart_uploads db) then Inl (violation ''multipart_uploads_pkey'')
                   else Inr (newID, db\<lparr>multipart_uploads := multipart_uploads db @
                          [\<lparr>mu_ID = newID, mu_UserID = u, mu_Filename = filename,
                            mu_ContentType = contentType\<rparr>]\<rparr>)) db"

definition select_upload ::
  "db_env \<Rightarrow> string \<Rightarrow> string \<Rightarrow> nat \<Rightarrow> database \<Rightarrow> go_error + (string \<times> string) \<times> database" where
  "select_upload env uploadID userID k db =
     (case (uuid_in env uploadID, uuid_in env userID) of
        (Some i, Some u) \<Rightarrow>
          (case filter (\<lambda>r. mu_ID r = i \<and> mu_UserID r = u) (multipart_uploads db) of
             [] \<Rightarrow> Inl ErrNoRows
           | r # _ \<Rightarrow> Inr ((mu_Filename r, mu_ContentType r), db))
      | _ \<Rightarrow> Inl bad_uuid)"

definition chunks_of_upload :: "database \<Rightarrow> uuid \<Rightarrow> mp_chunk list" where
  "chunks_of_upload db i = filter (\<lambda>m. mc_UploadID m = i) (multipart_chunks db)"

text \<open>A sum that does not fit in an \<open>int64\<close> cannot be scanned.\<close>

definition select_sum :: "db_env \<Rightarrow> string \<Rightarrow> nat \<Rightarrow> database \<Rightarrow> go_error + int \<times> database" where
  "select_sum env uploadID k db =
     (case uuid_in env uploadID of
        None \<Rightarrow> Inl bad_uuid
      | Some i \<Rightarrow>
          (let total = sum_list (map mc_SizeBytes (chunks_of_upload db i))
           in if total < 2 ^ 63 then Inr (total, db) else Inl (Errorf ''sql: Scan error'')))"

text \<open>
  The statement that moves the chunks: \<open>inserted_chunks\<close>, then its join with the locations on
  the index of the chunk.
\<close>

definition move_chunks ::
  "db_env \<Rightarrow> uuid \<Rightarrow> string \<Rightarrow> nat \<Rightarrow> database \<Rightarrow> go_error + unit \<times> database" where
  "move_chunks env newObjectID uploadID k db =
     (case (uuid_in env newObjectID, uuid_in env uploadID) of
        (Some u, Some i) \<Rightarrow>
          (let inserted = map (\<lambda>(j, m). \<lparr>ch_ID = gen_uuid env k j, ch_ObjectID = u,
                  ch_ChunkIndex = mc_ChunkIndex m, ch_Hash = mc_Hash m, ch_SizeBytes = mc_SizeBytes m\<rparr>)
                (enumerate 0 (chunks_of_upload db i));
               locs = concat (map (\<lambda>c. map (\<lambda>(_, _, n). (ch_ID c, n))
                  (filter (\<lambda>(m, x, n). m = i \<and> x = ch_ChunkIndex c) (multipart_chunk_locations db))) inserted)
           in if u \<notin> obj_ID ` set (objects db) then Inl (violation ''chunks_object_id_fkey'')
              else if \<not> distinct (map ch_ID (chunks db @ inserted)) then Inl (violation ''chunks_pkey'')
              else if \<not> distinct (map (\<lambda>c. (ch_ObjectID c, ch_ChunkIndex c)) (chunks db @ inserted))
              then Inl (violation ''chunks_object_id_chunk_index_key'')
              else if \<not> distinct (chunk_locations db @ locs) then Inl (violation ''chunk_locations_pkey'')
              else Inr ((), db\<lparr>chunks := chunks db @ inserted,
                              chunk_locations := chunk_locations db @ locs\<rparr>))
      | _ \<Rightarrow> Inl bad_uuid)"

definition delete_upload :: "db_env \<Rightarrow> string \<Rightarrow> nat \<Rightarrow> database \<Rightarrow> go_error + unit \<times> database" where
  "delete_upload env uploadID k db =
     (case uuid_in env uploadID of
        None \<Rightarrow> Inl bad_uuid
      | Some i \<Rightarrow>
          Inr ((), db\<lparr>multipart_uploads := filter (\<lambda>r. mu_ID r \<noteq> i) (multipart_uploads db),
                     multipart_chunks := filter (\<lambda>m. mc_UploadID m \<noteq> i) (multipart_chunks db),
                     multipart_chunk_locations :=
                       filter (\<lambda>l. fst l \<noteq> i) (multipart_chunk_locations db)\<rparr>))"

definition CompleteMultipartUpload ::
  "db_env \<Rightarrow> string \<Rightarrow> string \<Rightarrow> database \<Rightarrow> (go_error + uuid) \<times> database" where
  "CompleteMultipartUpload env uploadID userID =
     transaction env
       (tx_then env (select_upload env uploadID userID) (\<lambda>(filename, contentType).
        tx_then env (select_sum env uploadID) (\<lambda>totalSize.
        tx_then env (insert_object env userID filename contentType totalSize) (\<lambda>newObjectID.
        tx_then env (move_chunks env newObjectID uploadID) (\<lambda>_.
        tx_then env (delete_upload env uploadID) (\<lambda>_ db. (Inr newObjectID, db)))))))"

definition insert_mp_chunk ::
  "db_env \<Rightarrow> string \<Rightarrow> int \<Rightarrow> string \<Rightarrow> int \<Rightarrow> nat \<Rightarrow> database \<Rightarrow> go_error + unit \<times> database" where
  "insert_mp_chunk env uploadID chunkIndex hash sizeBytes k db =
     (case uuid_in env uploadID of
        None \<Rightarrow> Inl bad_uuid
      | Some i \<Rightarrow>
          if \<not> int4_ok chunkIndex then Inl (violation ''integer out of range'')
          else if \<not> text_ok env hash then Inl (violation ''invalid byte sequence'')
          else if i \<notin> mu_ID ` set (multipart_uploads db) then Inl (violation ''multipart_chunks_upload_id_fkey'')
          else if (i, chunkIndex) \<in> (\<lambda>m. (mc_UploadID m, mc_ChunkIndex m)) ` set (multipart_chunks db)
          then Inl (violation ''multipart_chunks_pkey'')
          else Inr ((), db\<lparr>multipart_chunks := multipart_chunks db @
                 [\<lparr>mc_UploadID = i, mc_ChunkIndex = chunkIndex, mc_Hash = hash, mc_SizeBytes = sizeBytes\<rparr>]\<rparr>))"

definition insert_mp_location ::
  "db_env \<Rightarrow> string \<Rightarrow> int \<Rightarrow> address \<Rightarrow> nat \<Rightarrow> database \<Rightarrow> go_error + unit \<times> database" where
  "insert_mp_location env uploadID chunkIndex node k db =
     (case uuid_in env uploadID of
        None \<Rightarrow> Inl bad_uuid
      | Some i \<Rightarrow>
          if \<not> int4_ok chunkIndex then Inl (violation ''integer out of range'')
          else if \<not> text_ok env node then Inl (violation ''invalid byte sequence'')
          else if (i, chunkIndex) \<notin> (\<lambda>m. (mc_UploadID m, mc_ChunkIndex m)) ` set (multipart_chunks db)
          then Inl (violation ''multipart_chunk_locations_fkey'')
          else if (i, chunkIndex, node) \<in> set (multipart_chunk_locations db)
          then Inl (violation ''multipart_chunk_locations_pkey'')
          else Inr ((), db\<lparr>multipart_chunk_locations :=
                 multipart_chunk_locations db @ [(i, chunkIndex, node)]\<rparr>))"

fun insert_mp_locations ::
  "db_env \<Rightarrow> string \<Rightarrow> int \<Rightarrow> address list \<Rightarrow> database \<Rightarrow> (go_error + unit) \<times> database" where
  "insert_mp_locations env uploadID chunkIndex [] db = (Inr (), db)"
| "insert_mp_locations env uploadID chunkIndex (node # ns) db =
     tx_then env (insert_mp_location env uploadID chunkIndex node)
       (\<lambda>_. insert_mp_locations env uploadID chunkIndex ns) db"

definition CreateMultipartChunk ::
  "db_env \<Rightarrow> string \<Rightarrow> int \<Rightarrow> string \<Rightarrow> int \<Rightarrow> address list \<Rightarrow> database \<Rightarrow> (go_error + unit) \<times> database" where
  "CreateMultipartChunk env uploadID chunkIndex hash sizeBytes nodeAddresses =
     transaction env
       (tx_then env (insert_mp_chunk env uploadID chunkIndex hash sizeBytes)
         (\<lambda>_. insert_mp_locations env uploadID chunkIndex nodeAddresses))"

text \<open>For the rebalancer.\<close>

definition GetAllChunks :: "db_env \<Rightarrow> database \<Rightarrow> (go_error + Chunk list) \<times> database" where
  "GetAllChunks env db =
     (let (r, db) = exec_stmt env (\<lambda>k db.
          Inr (fetch_rows env k (shuffle (row_order env k) (joined_chunks env k db (\<lambda>c. True))), db)) db
      in case r of
           Inl err \<Rightarrow> (Inl (Wrapf ''get all chunks'' err), db)
         | Inr cs \<Rightarrow> (Inr cs, db))"

definition AddChunkLocation :: "db_env \<Rightarrow> uuid \<Rightarrow> address \<Rightarrow> database \<Rightarrow> (go_error + unit) \<times> database" where
  "AddChunkLocation env chunkID nodeAddress db =
     exec_stmt env (\<lambda>k db.
       case uuid_in env chunkID of
         None \<Rightarrow> Inl bad_uuid
       | Some u \<Rightarrow>
           if \<not> text_ok env nodeAddress then Inl (violation ''invalid byte sequence'')
           else if (u, nodeAddress) \<in> set (chunk_locations db) then Inr ((), db)
           else if u \<notin> ch_ID ` set (chunks db) then Inl (violation ''chunk_locations_chunk_id_fkey'')
           else Inr ((), db\<lparr>chunk_locations := chunk_locations db @ [(u, nodeAddress)]\<rparr>)) db"

definition RemoveChunkLocation :: "db_env \<Rightarrow> uuid \<Rightarrow> address \<Rightarrow> database \<Rightarrow> (go_error + unit) \<times> database" where
  "RemoveChunkLocation env chunkID nodeAddress db =
     exec_stmt env (\<lambda>k db.
       case uuid_in env chunkID of
         None \<Rightarrow> Inl bad_uuid
       | Some u \<Rightarrow>
           Inr ((), db\<lparr>chunk_locations := filter (\<lambda>l. l \<noteq> (u, nodeAddress)) (chunk_locations db)\<rparr>)) db"

section \<open>\<open>node_repo.go\<close>\<close>

definition RegisterNode :: "db_env \<Rightarrow> address \<Rightarrow> database \<Rightarrow> go_error option \<times> database" where
  "RegisterNode env address db =
     (let (r, db) = exec_stmt env (\<lambda>k db.
          if \<not> text_ok env address then Inl (violation ''invalid byte sequence'')
          else if address \<in> nd_Address ` set (nodes db)
          then Inr ((), db\<lparr>nodes := map (\<lambda>n. if nd_Address n = address
                   then n\<lparr>nd_IsActive := True, nd_LastHeartbeat := db_now env k\<rparr> else n) (nodes db)\<rparr>)
          else let newID = gen_uuid env k 0
               in if newID \<in> nd_ID ` set (nodes db) then Inl (violation ''nodes_pkey'')
                  else Inr ((), db\<lparr>nodes := nodes db @
                         [\<lparr>nd_ID = newID, nd_Address = address, nd_IsActive = True,
                           nd_LastHeartbeat = db_now env k\<rparr>]\<rparr>)) db
      in case r of
           Inl err \<Rightarrow> (Some (Wrapf ''register node'' err), db)
         | Inr _ \<Rightarrow> (None, db))"

definition GetAllNodes :: "db_env \<Rightarrow> database \<Rightarrow> (go_error + Node list) \<times> database" where
  "GetAllNodes env db =
     exec_stmt env (\<lambda>k db. Inr (fetch_rows env k (shuffle (row_order env k) (nodes db)), db)) db"

definition UpdateNodeStatus :: "db_env \<Rightarrow> address \<Rightarrow> bool \<Rightarrow> database \<Rightarrow> (go_error + unit) \<times> database" where
  "UpdateNodeStatus env address isActive db =
     exec_stmt env (\<lambda>k db.
       if \<not> text_ok env address then Inl (violation ''invalid byte sequence'')
       else Inr ((), db\<lparr>nodes := map (\<lambda>n. if nd_Address n = address
              then n\<lparr>nd_IsActive := isActive, nd_LastHeartbeat := db_now env k\<rparr> else n) (nodes db)\<rparr>)) db"

section \<open>\<open>user_repo.go\<close>\<close>

definition CreateUser :: "db_env \<Rightarrow> string \<Rightarrow> string \<Rightarrow> database \<Rightarrow> (go_error + uuid) \<times> database" where
  "CreateUser env email hashedPassword db =
     (let (r, db) = exec_stmt env (\<lambda>k db.
          if \<not> text_ok env email \<or> \<not> text_ok env hashedPassword then Inl (violation ''invalid byte sequence'')
          else if email \<in> usr_Email ` set (users db) then Inl (violation ''users_email_key'')
          else let newID = gen_uuid env k 0
               in if newID \<in> usr_ID ` set (users db) then Inl (violation ''users_pkey'')
                  else Inr (newID, db\<lparr>users := users db @
                         [\<lparr>usr_ID = newID, usr_Email = email, usr_Password = hashedPassword,
                           usr_CreatedAt = db_now env k\<rparr>]\<rparr>)) db
      in case r of
           Inl err \<Rightarrow> (Inl (Wrapf ''create user'' err), db)
         | Inr newID \<Rightarrow> (Inr newID, db))"

definition GetUserByEmail :: "db_env \<Rightarrow> string \<Rightarrow> database \<Rightarrow> (go_error + User option) \<times> database" where
  "GetUserByEmail env email db =
     (let (r, db) = exec_stmt env (\<lambda>k db.
          if \<not> text_ok env email then Inl (violation ''invalid byte sequence'')
          else case filter (\<lambda>u. usr_Email u = email) (users db) of
                 [] \<Rightarrow> Inl ErrNoRows
               | u # _ \<Rightarrow> Inr (u, db)) db
      in case r of
           Inl err \<Rightarrow> if err = ErrNoRows then (Inr None, db) else (Inl (Wrapf ''get user y email'' err), db)
         | Inr u \<Rightarrow> (Inr (Some u), db))"


section \<open>Constraints\<close>

definition key_of_chunk :: "('a chunk_row_scheme) \<Rightarrow> uuid \<times> int" where
  "key_of_chunk c = (ch_ObjectID c, ch_ChunkIndex c)"

definition key_of_mp_chunk :: "mp_chunk \<Rightarrow> uuid \<times> int" where
  "key_of_mp_chunk m = (mc_UploadID m, mc_ChunkIndex m)"

definition users_inv :: "User list \<Rightarrow> bool" where
  "users_inv us \<longleftrightarrow> distinct (map usr_ID us) \<and> distinct (map usr_Email us)"

definition objects_inv :: "User list \<Rightarrow> Object list \<Rightarrow> bool" where
  "objects_inv us rs \<longleftrightarrow> distinct (map obj_ID rs) \<and> obj_UserID ` set rs \<subseteq> usr_ID ` set us"

definition chunks_inv :: "Object list \<Rightarrow> chunk_row list \<Rightarrow> (uuid \<times> address) list \<Rightarrow> bool" where
  "chunks_inv rs cs ls \<longleftrightarrow> distinct (map ch_ID cs) \<and> distinct (map key_of_chunk cs) \<and>
     ch_ObjectID ` set cs \<subseteq> obj_ID ` set rs \<and> distinct ls \<and> fst ` set ls \<subseteq> ch_ID ` set cs"

definition uploads_inv ::
  "User list \<Rightarrow> mp_upload list \<Rightarrow> mp_chunk list \<Rightarrow> (uuid \<times> int \<times> address) list \<Rightarrow> bool" where
  "uploads_inv us ups mcs mls \<longleftrightarrow> distinct (map mu_ID ups) \<and> mu_UserID ` set ups \<subseteq> usr_ID ` set us \<and>
     distinct (map key_of_mp_chunk mcs) \<and> mc_UploadID ` set mcs \<subseteq> mu_ID ` set ups \<and>
     distinct mls \<and> (\<lambda>(u, i, a). (u, i)) ` set mls \<subseteq> key_of_mp_chunk ` set mcs"

definition nodes_inv :: "Node list \<Rightarrow> bool" where
  "nodes_inv ns \<longleftrightarrow> distinct (map nd_ID ns) \<and> distinct (map nd_Address ns)"

definition db_inv :: "database \<Rightarrow> bool" where
  "db_inv db \<longleftrightarrow> users_inv (users db) \<and> objects_inv (users db) (objects db) \<and>
     chunks_inv (objects db) (chunks db) (chunk_locations db) \<and>
     uploads_inv (users db) (multipart_uploads db) (multipart_chunks db) (multipart_chunk_locations db) \<and>
     nodes_inv (nodes db)"

lemma db_inv_stmt_no [simp]: "db_inv (db\<lparr>stmt_no := k\<rparr>) = db_inv db"
  by (simp add: db_inv_def)

text \<open>A property of the tables that a statement keeps.\<close>

definition keeps :: "(database \<Rightarrow> bool) \<Rightarrow> (nat \<Rightarrow> database \<Rightarrow> go_error + 'a \<times> database) \<Rightarrow> bool" where
  "keeps P f \<longleftrightarrow> (\<forall>k db v db'. P db \<longrightarrow> f k db = Inr (v, db') \<longrightarrow> P db')"

definition on_tables :: "(database \<Rightarrow> bool) \<Rightarrow> bool" where
  "on_tables P \<longleftrightarrow> (\<forall>db k. P (db\<lparr>stmt_no := k\<rparr>) = P db)"

lemma on_tables_inv: "on_tables db_inv"
  by (simp add: on_tables_def)

lemma keepsD: "keeps P f \<Longrightarrow> P db \<Longrightarrow> f k db = Inr (v, db') \<Longrightarrow> P db'"
  unfolding keeps_def by blast

lemma exec_stmt_keeps:
  assumes "keeps P f" "on_tables P" "P db"
  shows "P (snd (exec_stmt env f db))"
proof -
  let ?db = "db\<lparr>stmt_no := Suc (stmt_no db)\<rparr>"
  have db: "P ?db" using assms(2,3) by (simp add: on_tables_def)
  show ?thesis
  proof (cases "f (stmt_no db) ?db")
    case (Inl e)
    with db show ?thesis by (simp add: exec_stmt_def Let_def split: fault.split)
  next
    case (Inr vd)
    obtain v d where "vd = (v, d)" by (cases vd)
    with db Inr keepsD [OF assms(1) db] show ?thesis by (simp add: exec_stmt_def Let_def split: fault.split)
  qed
qed

lemma tx_stmt_keeps:
  assumes "keeps P f" "on_tables P" "P db"
  shows "P (snd (tx_stmt env f db))"
proof -
  let ?db = "db\<lparr>stmt_no := Suc (stmt_no db)\<rparr>"
  have db: "P ?db" using assms(2,3) by (simp add: on_tables_def)
  then show ?thesis
    using keepsD [OF assms(1) db] by (auto simp: tx_stmt_def Let_def split: sum.split)
qed

lemma tx_then_keeps:
  assumes "keeps P f" "on_tables P" "\<And>v db. P db \<Longrightarrow> P (snd (continue v db))" "P db"
  shows "P (snd (tx_then env f continue db))"
proof -
  have "P (snd (tx_stmt env f db))" by (rule tx_stmt_keeps [OF assms(1,2,4)])
  with assms(3) show ?thesis by (auto simp: tx_then_def split: prod.split sum.split)
qed

text \<open>What is left of a transaction that starts with \<open>B\<close>: what a rollback leaves, or what the body does.\<close>

lemma tx_then_post:
  assumes "\<And>k w db1. f k (db\<lparr>stmt_no := Suc k\<rparr>) = Inr (w, db1) \<Longrightarrow> P (snd (continue w db1))" "on_tables P" "P db"
  shows "P (snd (tx_then env f continue db))"
  using assms by (auto simp: tx_then_def tx_stmt_def on_tables_def Let_def split: prod.splits sum.splits)

lemma transaction_post:
  assumes "\<And>db. B db \<Longrightarrow> P (snd (body db))" "on_tables B" "on_tables P" "B db" "\<And>db. B db \<Longrightarrow> P db"
  shows "P (snd (transaction env body db))"
proof -
  let ?db = "db\<lparr>stmt_no := Suc (stmt_no db)\<rparr>"
  have db: "B ?db" using assms(2,4) by (simp add: on_tables_def)
  obtain r tx where b: "body ?db = (r, tx)" by fastforce
  with assms(1) [OF db] have "P tx" by simp
  with db b assms(3-5) show ?thesis
    by (cases r) (simp_all add: transaction_def Let_def on_tables_def split: fault.split)
qed

lemma transaction_keeps:
  assumes "\<And>db. P db \<Longrightarrow> P (snd (body db))" "on_tables P" "P db"
  shows "P (snd (transaction env body db))"
  by (rule transaction_post [OF assms(1,2,2,3)]) simp_all

section \<open>Every statement keeps the constraints\<close>

lemma objects_inv_add:
  "objects_inv us rs \<Longrightarrow> obj_ID r \<notin> obj_ID ` set rs \<Longrightarrow> obj_UserID r \<in> usr_ID ` set us \<Longrightarrow>
   objects_inv us (rs @ [r])"
  by (auto simp: objects_inv_def)

lemma chunks_inv_objects: "chunks_inv rs cs ls \<Longrightarrow> set rs \<subseteq> set rs' \<Longrightarrow> chunks_inv rs' cs ls"
  unfolding chunks_inv_def by (meson image_mono order_trans)

lemma chunks_inv_add:
  "chunks_inv rs cs ls \<Longrightarrow> ch_ID c \<notin> ch_ID ` set cs \<Longrightarrow> key_of_chunk c \<notin> key_of_chunk ` set cs \<Longrightarrow>
   ch_ObjectID c \<in> obj_ID ` set rs \<Longrightarrow> chunks_inv rs (cs @ [c]) ls"
  by (auto simp: chunks_inv_def)

lemma chunks_inv_locate:
  "chunks_inv rs cs ls \<Longrightarrow> (u, n) \<notin> set ls \<Longrightarrow> u \<in> ch_ID ` set cs \<Longrightarrow> chunks_inv rs cs (ls @ [(u, n)])"
  by (auto simp: chunks_inv_def)

lemma users_grow:
  "objects_inv us rs \<Longrightarrow> set us \<subseteq> set us' \<Longrightarrow> objects_inv us' rs"
  "uploads_inv us ups mcs mls \<Longrightarrow> set us \<subseteq> set us' \<Longrightarrow> uploads_inv us' ups mcs mls"
  unfolding objects_inv_def uploads_inv_def by blast+

lemma keeps_insert_object: "keeps db_inv (insert_object env u n c s)"
  by (auto simp: keeps_def insert_object_def db_inv_def Let_def
      split: option.splits if_splits intro!: objects_inv_add elim!: chunks_inv_objects)

lemma keeps_insert_chunk: "keeps db_inv (insert_chunk env o' i h s)"
  by (auto simp: keeps_def insert_chunk_def db_inv_def Let_def
      split: option.splits if_splits intro!: chunks_inv_add) (auto simp: key_of_chunk_def)

lemma keeps_insert_location: "keeps db_inv (insert_location env c n)"
  by (auto simp: keeps_def insert_location_def db_inv_def chunks_inv_locate split: option.splits if_splits)

lemma chunks_inv_delete:
  fixes P :: "Object \<Rightarrow> bool"
  assumes "chunks_inv rs cs ls"
  defines "gone \<equiv> obj_ID ` set (filter P rs)"
  shows "chunks_inv (filter (\<lambda>r. \<not> P r) rs) (filter (\<lambda>c. ch_ObjectID c \<notin> gone) cs)
    (filter (\<lambda>l. fst l \<notin> ch_ID ` set (filter (\<lambda>c. ch_ObjectID c \<in> gone) cs)) ls)"
proof -
  have sub: "ch_ObjectID ` set cs \<subseteq> obj_ID ` set rs" "fst ` set ls \<subseteq> ch_ID ` set cs"
    using assms(1) by (simp_all add: chunks_inv_def)
  have "obj_ID ` set rs - gone \<subseteq> obj_ID ` set (filter (\<lambda>r. \<not> P r) rs)"
    by (auto simp: gone_def)
  with sub(1) have "ch_ObjectID ` set (filter (\<lambda>c. ch_ObjectID c \<notin> gone) cs) \<subseteq> obj_ID ` set (filter (\<lambda>r. \<not> P r) rs)"
    by auto
  moreover have "ch_ID ` set cs - ch_ID ` set (filter (\<lambda>c. ch_ObjectID c \<in> gone) cs)
      \<subseteq> ch_ID ` set (filter (\<lambda>c. ch_ObjectID c \<notin> gone) cs)"
    by auto
  with sub(2) have "fst ` set (filter (\<lambda>l. fst l \<notin> ch_ID ` set (filter (\<lambda>c. ch_ObjectID c \<in> gone) cs)) ls)
      \<subseteq> ch_ID ` set (filter (\<lambda>c. ch_ObjectID c \<notin> gone) cs)"
    by (auto simp: image_subset_iff subset_iff)
  ultimately show ?thesis
    using assms(1) by (simp add: chunks_inv_def distinct_map_filter)
qed

lemma db_inv_delete_objects: "db_inv db \<Longrightarrow> db_inv (delete_objects P db)"
  using chunks_inv_delete [of "objects db" "chunks db" "chunk_locations db" P]
  by (auto simp: db_inv_def delete_objects_def Let_def objects_inv_def distinct_map_filter)

text \<open>The chunks and the locations that \<open>move_chunks\<close> inserts.\<close>

definition moved_chunks :: "db_env \<Rightarrow> nat \<Rightarrow> database \<Rightarrow> uuid \<Rightarrow> uuid \<Rightarrow> chunk_row list" where
  "moved_chunks env k db u i = map (\<lambda>(j, m). \<lparr>ch_ID = gen_uuid env k j, ch_ObjectID = u,
     ch_ChunkIndex = mc_ChunkIndex m, ch_Hash = mc_Hash m, ch_SizeBytes = mc_SizeBytes m\<rparr>)
   (enumerate 0 (chunks_of_upload db i))"

definition moved_locations :: "database \<Rightarrow> uuid \<Rightarrow> chunk_row list \<Rightarrow> (uuid \<times> address) list" where
  "moved_locations db i ins = concat (map (\<lambda>c. map (\<lambda>(_, _, n). (ch_ID c, n))
     (filter (\<lambda>(m, x, n). m = i \<and> x = ch_ChunkIndex c) (multipart_chunk_locations db))) ins)"

lemma moved_locations_ids: "fst ` set (moved_locations db i ins) \<subseteq> ch_ID ` set ins"
  by (auto simp: moved_locations_def)

lemma move_chunks_eq:
  "move_chunks env o' u k db = Inr (v, db') \<longleftrightarrow>
     (\<exists>w i. uuid_in env o' = Some w \<and> uuid_in env u = Some i \<and> w \<in> obj_ID ` set (objects db) \<and>
        distinct (map ch_ID (chunks db @ moved_chunks env k db w i)) \<and>
        distinct (map key_of_chunk (chunks db @ moved_chunks env k db w i)) \<and>
        distinct (chunk_locations db @ moved_locations db i (moved_chunks env k db w i)) \<and>
        db' = db\<lparr>chunks := chunks db @ moved_chunks env k db w i,
                 chunk_locations := chunk_locations db @ moved_locations db i (moved_chunks env k db w i)\<rparr>)"
  unfolding move_chunks_def Let_def moved_chunks_def [symmetric] moved_locations_def [symmetric]
    key_of_chunk_def [abs_def]
  by (auto split: option.split)

lemma chunks_inv_move:
  assumes "chunks_inv rs cs ls" "w \<in> obj_ID ` set rs" "ch_ObjectID ` set ins \<subseteq> {w}"
    and "fst ` set ls' \<subseteq> ch_ID ` set ins" "distinct (map ch_ID (cs @ ins))"
    and "distinct (map key_of_chunk (cs @ ins))" "distinct (ls @ ls')"
  shows "chunks_inv rs (cs @ ins) (ls @ ls')"
  using assms unfolding chunks_inv_def set_append image_Un by auto

lemma keeps_move_chunks: "keeps db_inv (move_chunks env o' u)"
proof -
  have "db_inv db'" if inv: "db_inv db" and m: "move_chunks env o' u k db = Inr (v, db')" for k db v db'
  proof -
    obtain w i where w: "w \<in> obj_ID ` set (objects db)"
      "distinct (map ch_ID (chunks db @ moved_chunks env k db w i))"
      "distinct (map key_of_chunk (chunks db @ moved_chunks env k db w i))"
      "distinct (chunk_locations db @ moved_locations db i (moved_chunks env k db w i))"
      and db': "db' = db\<lparr>chunks := chunks db @ moved_chunks env k db w i,
        chunk_locations := chunk_locations db @ moved_locations db i (moved_chunks env k db w i)\<rparr>"
      using m unfolding move_chunks_eq by blast
    have "ch_ObjectID ` set (moved_chunks env k db w i) \<subseteq> {w}" by (auto simp: moved_chunks_def)
    from chunks_inv_move [OF _ w(1) this moved_locations_ids w(2-4)] inv
    show ?thesis by (simp add: db_inv_def db')
  qed
  then show ?thesis by (auto simp: keeps_def)
qed


lemma keeps_insert_upload:
  "keeps db_inv (\<lambda>k db. case uuid_in env u of None \<Rightarrow> Inl bad_uuid | Some u \<Rightarrow>
     if \<not> text_ok env f \<or> \<not> text_ok env c then Inl (violation s)
     else if u \<notin> usr_ID ` set (users db) then Inl (violation s')
     else let newID = gen_uuid env k 0
          in if newID \<in> mu_ID ` set (multipart_uploads db) then Inl (violation s'')
             else Inr (newID, db\<lparr>multipart_uploads := multipart_uploads db @
                    [\<lparr>mu_ID = newID, mu_UserID = u, mu_Filename = f, mu_ContentType = c\<rparr>]\<rparr>))"
  by (auto simp: keeps_def db_inv_def Let_def uploads_inv_def split: option.splits if_splits)

lemma keeps_reads:
  "keeps P (select_upload env u i)" "keeps P (select_sum env u)"
  by (auto simp: keeps_def select_upload_def select_sum_def Let_def split: option.splits list.splits if_splits)

lemma uploads_inv_chunk:
  "uploads_inv us ups mcs mls \<Longrightarrow> mc_UploadID m \<in> mu_ID ` set ups \<Longrightarrow>
   key_of_mp_chunk m \<notin> key_of_mp_chunk ` set mcs \<Longrightarrow> uploads_inv us ups (mcs @ [m]) mls"
  by (auto simp: uploads_inv_def)

lemma uploads_inv_locate:
  "uploads_inv us ups mcs mls \<Longrightarrow> (i, x) \<in> key_of_mp_chunk ` set mcs \<Longrightarrow> (i, x, n) \<notin> set mls \<Longrightarrow>
   uploads_inv us ups mcs (mls @ [(i, x, n)])"
  by (auto simp: uploads_inv_def)

lemma uploads_inv_delete:
  assumes "uploads_inv us ups mcs mls"
  shows "uploads_inv us (filter (\<lambda>r. mu_ID r \<noteq> i) ups) (filter (\<lambda>m. mc_UploadID m \<noteq> i) mcs)
    (filter (\<lambda>l. fst l \<noteq> i) mls)"
proof -
  have "(\<lambda>(u, i, a). (u, i)) ` set (filter (\<lambda>l. fst l \<noteq> i) mls)
      \<subseteq> {(u, x) \<in> key_of_mp_chunk ` set mcs. u \<noteq> i}"
    using assms unfolding uploads_inv_def by auto
  also have "\<dots> \<subseteq> key_of_mp_chunk ` set (filter (\<lambda>m. mc_UploadID m \<noteq> i) mcs)"
    by (auto simp: key_of_mp_chunk_def)
  finally show ?thesis
    using assms unfolding uploads_inv_def by (auto simp: distinct_map_filter image_subset_iff)
qed

lemma keeps_delete_upload: "keeps db_inv (delete_upload env u)"
  by (auto simp: keeps_def delete_upload_def db_inv_def uploads_inv_delete split: option.splits)

lemma keeps_insert_mp_chunk: "keeps db_inv (insert_mp_chunk env u i h s)"
  by (auto simp: keeps_def insert_mp_chunk_def db_inv_def split: option.splits if_splits
      intro!: uploads_inv_chunk) (auto simp: key_of_mp_chunk_def)

lemma keeps_insert_mp_location: "keeps db_inv (insert_mp_location env u i n)"
  by (auto simp: keeps_def insert_mp_location_def db_inv_def split: option.splits if_splits
      intro!: uploads_inv_locate) (auto simp: key_of_mp_chunk_def image_iff)

lemma on_tables_stmt: "on_tables P \<Longrightarrow> P db \<Longrightarrow> P (db\<lparr>stmt_no := k\<rparr>)"
  by (simp add: on_tables_def)

lemma insert_locations_keeps:
  assumes "\<And>c n. keeps P (insert_location env c n)" "on_tables P"
  shows "P db \<Longrightarrow> P (snd (insert_locations env c ns db))"
proof (induction ns arbitrary: db)
  case (Cons n ns)
  have "P (snd (tx_stmt env (insert_location env c n) db))"
    by (rule tx_stmt_keeps [OF assms Cons.prems])
  with Cons.IH show ?case by (auto split: prod.split sum.split)
qed simp

lemma insert_mp_locations_keeps:
  assumes "\<And>u i n. keeps P (insert_mp_location env u i n)" "on_tables P"
  shows "P db \<Longrightarrow> P (snd (insert_mp_locations env u i ns db))"
  by (induction ns arbitrary: db) (simp_all add: tx_then_keeps [OF assms])

section \<open>What the transactions keep\<close>

text \<open>
  A property of the tables that the single statements keep, those that write a chunk row when
  its hash and size are allowed by \<open>W\<close>: the transactions made of them keep it. The first locale leaves
  out the statement that makes an object.
\<close>

locale chunk_invariant =
  fixes P :: "database \<Rightarrow> bool" and W :: "string \<Rightarrow> int \<Rightarrow> bool"
  assumes tables: "on_tables P"
    and chunk_kept: "W h s \<Longrightarrow> keeps P (insert_chunk env r i h s)"
    and location_kept: "keeps P (insert_location env ci nd)"
    and mp_chunk_kept: "W h s \<Longrightarrow> keeps P (insert_mp_chunk env u i h s)"
    and mp_location_kept: "keeps P (insert_mp_location env u i nd)"
    and move_kept: "keeps P (move_chunks env r u)"
    and upload_kept: "keeps P (delete_upload env u)"
begin

lemmas exec_kept = exec_stmt_keeps [OF _ tables]
lemmas then_kept = tx_then_keeps [where P = P, OF _ tables]
lemmas transaction_kept = transaction_keeps [where P = P, OF _ tables]

lemma CreateChunk_kept:
  assumes "W h s" "P db"
  shows "P (snd (CreateChunk env r i h s ns db))"
  unfolding CreateChunk_def
proof (rule transaction_kept [OF _ assms(2)])
  fix db assume "P db"
  then have "P (snd (tx_stmt env (insert_chunk env r i h s) db))"
    by (rule tx_stmt_keeps [OF chunk_kept [OF assms(1)] tables])
  then show "P (snd (case tx_stmt env (insert_chunk env r i h s) db of
         (Inl err, db) \<Rightarrow> (Inl (Wrapf ''create chunk'' err), db)
       | (Inr chunkID, db) \<Rightarrow> insert_locations env chunkID ns db))"
    using insert_locations_keeps [OF location_kept tables]
    by (auto split: prod.split sum.split)
qed

lemma CreateMultipartChunk_kept:
  assumes "W h s" "P db"
  shows "P (snd (CreateMultipartChunk env u i h s ns db))"
  unfolding CreateMultipartChunk_def
proof (rule transaction_kept [OF _ assms(2)])
  show "P db \<Longrightarrow> P (snd (tx_then env (insert_mp_chunk env u i h s)
      (\<lambda>_. insert_mp_locations env u i ns) db))" for db
    by (rule then_kept [OF mp_chunk_kept [OF assms(1)] insert_mp_locations_keeps [OF mp_location_kept tables]])
qed

text \<open>An upload is completed with one new object: \<open>B\<close> holds before it is there, and \<open>P\<close> from then on.\<close>

lemma CompleteMultipartUpload_inserts:
  assumes "B db" "on_tables B" "\<And>db. B db \<Longrightarrow> P db"
    and "\<And>n c s k db v db'. B db \<Longrightarrow> insert_object env u n c s k db = Inr (v, db') \<Longrightarrow> P db'"
  shows "P (snd (CompleteMultipartUpload env i u db))"
  unfolding CompleteMultipartUpload_def
proof (rule transaction_post [OF _ assms(2) tables assms(1,3)])
  let ?delete = "\<lambda>newObjectID. tx_then env (delete_upload env i) (\<lambda>_ db. (Inr newObjectID, db))"
  let ?insert = "\<lambda>fn ct total. tx_then env (insert_object env u fn ct total) (\<lambda>newObjectID.
      tx_then env (move_chunks env newObjectID i) (\<lambda>_. ?delete newObjectID))"
  have frame: "B (db\<lparr>stmt_no := k\<rparr>) = B db" for db k using assms(2) by (simp add: on_tables_def)
  have insert: "P (snd (?insert fn ct total db))" if "B db" for fn ct total db
  proof (rule tx_then_post [OF _ tables assms(3) [OF that]])
    fix k w db1 assume "insert_object env u fn ct total k (db\<lparr>stmt_no := Suc k\<rparr>) = Inr (w, db1)"
    with assms(4) that frame have "P db1" by blast
    then show "P (snd (tx_then env (move_chunks env w i) (\<lambda>_. ?delete w) db1))"
      by (intro then_kept [OF move_kept] then_kept [OF upload_kept]) simp_all
  qed
  have sum: "P (snd (tx_then env (select_sum env i) (?insert fn ct) db))" if "B db" for fn ct db
  proof (rule tx_then_post [OF _ tables assms(3) [OF that]])
    fix k w db1 assume "select_sum env i k (db\<lparr>stmt_no := Suc k\<rparr>) = Inr (w, db1)"
    with keepsD [OF keeps_reads(2)] that frame have "B db1" by blast
    then show "P (snd (?insert fn ct w db1))" by (rule insert)
  qed
  fix db assume db: "B db"
  show "P (snd (tx_then env (select_upload env i u) (\<lambda>(fn, ct). tx_then env (select_sum env i) (?insert fn ct)) db))"
  proof (rule tx_then_post [OF _ tables assms(3) [OF db]])
    fix k w db1 assume "select_upload env i u k (db\<lparr>stmt_no := Suc k\<rparr>) = Inr (w, db1)"
    with keepsD [OF keeps_reads(1)] db frame have "B db1" by blast
    with sum show "P (snd ((case w of (fn, ct) \<Rightarrow> tx_then env (select_sum env i) (?insert fn ct)) db1))"
      by (simp split: prod.split)
  qed
qed

end

locale table_invariant = chunk_invariant +
  assumes object_kept: "keeps P (insert_object env u n c s)"
begin

lemma CreateObject_kept: "P db \<Longrightarrow> P (snd (CreateObject env u n c s db))"
  using exec_kept [OF object_kept, of db env env u n c s]
  by (simp add: CreateObject_def Let_def split_beta split: sum.split)

lemma CompleteMultipartUpload_kept: "P db \<Longrightarrow> P (snd (CompleteMultipartUpload env i u db))"
  using CompleteMultipartUpload_inserts [where B = P] tables keepsD [OF object_kept] by blast

end

interpretation constraints: table_invariant db_inv "\<lambda>_ _. True"
  by unfold_locales (rule on_tables_inv keeps_insert_object keeps_insert_chunk keeps_insert_location
      keeps_insert_mp_chunk keeps_insert_mp_location keeps_move_chunks keeps_delete_upload)+

lemmas inv_CreateChunk = constraints.CreateChunk_kept [OF TrueI]
lemmas inv_CreateMultipartChunk = constraints.CreateMultipartChunk_kept [OF TrueI]
lemmas inv_CompleteMultipartUpload = constraints.CompleteMultipartUpload_kept

section \<open>Reachable databases\<close>

text \<open>The calls that change the tables, and the tables after the migrations.\<close>

datatype db_call =
    CallCreateUser string string
  | CallCreateObject string string string int
  | CallCreateChunk string int string int "address list"
  | CallDeleteObject string string
  | CallCreateMultipartUpload string string string
  | CallCreateMultipartChunk string int string int "address list"
  | CallCompleteMultipartUpload string string
  | CallAddChunkLocation string address
  | CallRemoveChunkLocation string address
  | CallRegisterNode address
  | CallUpdateNodeStatus address bool

fun db_run :: "db_env \<Rightarrow> db_call \<Rightarrow> database \<Rightarrow> database" where
  "db_run env (CallCreateUser e p) db = snd (CreateUser env e p db)"
| "db_run env (CallCreateObject u n c s) db = snd (CreateObject env u n c s db)"
| "db_run env (CallCreateChunk r i h s ns) db = snd (CreateChunk env r i h s ns db)"
| "db_run env (CallDeleteObject r u) db = snd (DeleteObject env r u db)"
| "db_run env (CallCreateMultipartUpload u f c) db = snd (CreateMultipartUpload env u f c db)"
| "db_run env (CallCreateMultipartChunk u i h s ns) db = snd (CreateMultipartChunk env u i h s ns db)"
| "db_run env (CallCompleteMultipartUpload i u) db = snd (CompleteMultipartUpload env i u db)"
| "db_run env (CallAddChunkLocation c n) db = snd (AddChunkLocation env c n db)"
| "db_run env (CallRemoveChunkLocation c n) db = snd (RemoveChunkLocation env c n db)"
| "db_run env (CallRegisterNode a) db = snd (RegisterNode env a db)"
| "db_run env (CallUpdateNodeStatus a b) db = snd (UpdateNodeStatus env a b db)"

definition empty_db :: database where
  "empty_db = \<lparr>users = [], objects = [], chunks = [], chunk_locations = [], multipart_uploads = [],
     multipart_chunks = [], multipart_chunk_locations = [], nodes = [], stmt_no = 0\<rparr>"

lemmas exec_inv = exec_stmt_keeps [OF _ on_tables_inv]
lemmas tx_inv = tx_stmt_keeps [OF _ on_tables_inv]

lemma inv_CreateObject: "db_inv db \<Longrightarrow> db_inv (snd (CreateObject env u n c s db))"
  using exec_inv [OF keeps_insert_object, of db env env u n c s]
  by (simp add: CreateObject_def Let_def split_beta split: sum.split)

lemma inv_DeleteObject: "db_inv db \<Longrightarrow> db_inv (snd (DeleteObject env r u db))"
proof -
  assume "db_inv db"
  then have "db_inv (snd (exec_stmt env (\<lambda>k db.
          case (uuid_in env r, uuid_in env u) of
            (Some i, Some u) \<Rightarrow>
              (let P = (\<lambda>r. obj_ID r = i \<and> obj_UserID r = u)
               in Inr (length (filter P (objects db)), delete_objects P db))
          | _ \<Rightarrow> Inl bad_uuid) db))"
    by (rule exec_inv [rotated])
      (auto simp: keeps_def Let_def db_inv_delete_objects split: option.splits)
  then show ?thesis by (simp add: DeleteObject_def Let_def split_beta split: sum.split)
qed

lemma inv_CreateMultipartUpload: "db_inv db \<Longrightarrow> db_inv (snd (CreateMultipartUpload env u f c db))"
  unfolding CreateMultipartUpload_def by (rule exec_inv [OF keeps_insert_upload])

lemma inv_AddChunkLocation: "db_inv db \<Longrightarrow> db_inv (snd (AddChunkLocation env c n db))"
  unfolding AddChunkLocation_def
  by (rule exec_inv)
    (auto simp: keeps_def db_inv_def split: option.splits if_splits intro!: chunks_inv_locate)

lemma inv_RemoveChunkLocation: "db_inv db \<Longrightarrow> db_inv (snd (RemoveChunkLocation env c n db))"
  unfolding RemoveChunkLocation_def
  by (rule exec_inv) (auto simp: keeps_def db_inv_def chunks_inv_def split: option.splits)

lemma nodes_inv_update:
  assumes "nodes_inv ns" "\<And>n. nd_ID (f n) = nd_ID n \<and> nd_Address (f n) = nd_Address n"
  shows "nodes_inv (map f ns)"
  using assms by (simp add: nodes_inv_def comp_def)

lemma inv_RegisterNode: "db_inv db \<Longrightarrow> db_inv (snd (RegisterNode env a db))"
proof -
  let ?f = "\<lambda>k db. if \<not> text_ok env a then Inl (violation ''invalid byte sequence'')
          else if a \<in> nd_Address ` set (nodes db)
          then Inr ((), db\<lparr>nodes := map (\<lambda>n. if nd_Address n = a
                   then n\<lparr>nd_IsActive := True, nd_LastHeartbeat := db_now env k\<rparr> else n) (nodes db)\<rparr>)
          else let newID = gen_uuid env k 0
               in if newID \<in> nd_ID ` set (nodes db) then Inl (violation ''nodes_pkey'')
                  else Inr ((), db\<lparr>nodes := nodes db @
                         [\<lparr>nd_ID = newID, nd_Address = a, nd_IsActive = True,
                           nd_LastHeartbeat = db_now env k\<rparr>]\<rparr>)"
  assume "db_inv db"
  moreover have "keeps db_inv ?f"
    by (auto simp: keeps_def Let_def db_inv_def nodes_inv_update split: if_splits) (auto simp: nodes_inv_def)
  ultimately have "db_inv (snd (exec_stmt env ?f db))" by (rule exec_inv [rotated])
  then show ?thesis by (simp add: RegisterNode_def Let_def split_beta split: sum.split)
qed

lemma inv_UpdateNodeStatus: "db_inv db \<Longrightarrow> db_inv (snd (UpdateNodeStatus env a b db))"
  unfolding UpdateNodeStatus_def
  by (rule exec_inv) (auto simp: keeps_def db_inv_def nodes_inv_update split: if_splits)

lemma inv_CreateUser: "db_inv db \<Longrightarrow> db_inv (snd (CreateUser env e p db))"
proof -
  let ?f = "\<lambda>k db. if \<not> text_ok env e \<or> \<not> text_ok env p then Inl (violation ''invalid byte sequence'')
          else if e \<in> usr_Email ` set (users db) then Inl (violation ''users_email_key'')
          else let newID = gen_uuid env k 0
               in if newID \<in> usr_ID ` set (users db) then Inl (violation ''users_pkey'')
                  else Inr (newID, db\<lparr>users := users db @
                         [\<lparr>usr_ID = newID, usr_Email = e, usr_Password = p, usr_CreatedAt = db_now env k\<rparr>]\<rparr>)"
  assume "db_inv db"
  moreover have "keeps db_inv ?f"
    by (auto simp: keeps_def Let_def db_inv_def users_inv_def split: if_splits elim!: users_grow)
  ultimately have "db_inv (snd (exec_stmt env ?f db))" by (rule exec_inv [rotated])
  then show ?thesis by (simp add: CreateUser_def Let_def split_beta split: sum.split)
qed

lemma inv_db_run: "db_inv db \<Longrightarrow> db_inv (db_run env call db)"
  by (cases call) (simp_all add: inv_CreateUser inv_CreateObject inv_CreateChunk inv_DeleteObject
      inv_CreateMultipartUpload inv_CreateMultipartChunk inv_CompleteMultipartUpload
      inv_AddChunkLocation inv_RemoveChunkLocation inv_RegisterNode inv_UpdateNodeStatus)

lemma inv_empty_db: "db_inv empty_db"
  by (simp add: db_inv_def empty_db_def users_inv_def objects_inv_def chunks_inv_def uploads_inv_def nodes_inv_def)

section \<open>Reading a chunk's metadata\<close>

lemma exec_stmt_cases:
  obtains (ok) v db' where "exec_stmt env f db = (Inr v, db')"
    "f (stmt_no db) (db\<lparr>stmt_no := Suc (stmt_no db)\<rparr>) = Inr (v, db')"
  | (error) e where "fst (exec_stmt env f db) = Inl e"
  by (cases "db_fault env (stmt_no db)"; cases "f (stmt_no db) (db\<lparr>stmt_no := Suc (stmt_no db)\<rparr>)")
    (auto simp: exec_stmt_def Let_def)

lemma exec_stmt_ok:
  "exec_stmt env f db = (Inr v, db') \<longleftrightarrow>
     db_fault env (stmt_no db) = Deliver \<and> f (stmt_no db) (db\<lparr>stmt_no := Suc (stmt_no db)\<rparr>) = Inr (v, db')"
  by (cases "f (stmt_no db) (db\<lparr>stmt_no := Suc (stmt_no db)\<rparr>)")
    (auto simp: exec_stmt_def Let_def split: fault.splits)

lemma tx_stmt_ok:
  "tx_stmt env f db = (Inr v, db') \<longleftrightarrow>
     db_fault env (stmt_no db) = Deliver \<and> f (stmt_no db) (db\<lparr>stmt_no := Suc (stmt_no db)\<rparr>) = Inr (v, db')"
  by (auto simp: tx_stmt_def Let_def split: sum.splits)

lemma transaction_ok:
  "transaction env body db = (Inr v, db') \<longleftrightarrow>
     db_fault env (stmt_no db) = Deliver \<and>
     (\<exists>tx. body (db\<lparr>stmt_no := Suc (stmt_no db)\<rparr>) = (Inr v, tx) \<and> db_fault env (stmt_no tx) = Deliver \<and>
        db' = tx\<lparr>stmt_no := Suc (stmt_no tx)\<rparr>)"
  by (cases "body (db\<lparr>stmt_no := Suc (stmt_no db)\<rparr>)"; cases "fst (body (db\<lparr>stmt_no := Suc (stmt_no db)\<rparr>))")
    (auto simp: transaction_def Let_def split: fault.splits)

text \<open>A transaction that reports an error has done nothing, unless its commit was carried out.\<close>

definition same_tables :: "database \<Rightarrow> database \<Rightarrow> bool" where
  "same_tables db db' \<longleftrightarrow> db\<lparr>stmt_no := 0\<rparr> = db'\<lparr>stmt_no := 0\<rparr>"

lemma transaction_error:
  assumes "transaction env body db = (Inl e, db')" "\<forall>k. db_fault env k \<noteq> DropReply"
  shows "same_tables db db'"
  using assms
  by (cases "body (db\<lparr>stmt_no := Suc (stmt_no db)\<rparr>)"; cases "fst (body (db\<lparr>stmt_no := Suc (stmt_no db)\<rparr>))")
    (auto simp: transaction_def Let_def same_tables_def split: fault.splits if_splits)


section \<open>What the queries return\<close>

lemma map_insort_key: "map h (insort_key (f \<circ> h) x xs) = insort_key f (h x) (map h xs)"
  by (induction xs) simp_all

lemma map_sort_key: "map h (sort_key (f \<circ> h) xs) = sort_key f (map h xs)"
proof (induction xs)
  case (Cons x xs)
  have "map h (sort_key (f \<circ> h) (x # xs)) = insort_key f (h x) (map h (sort_key (f \<circ> h) xs))"
    by (simp add: map_insort_key del: comp_apply)
  then show ?case by (simp only: Cons.IH list.map) simp
qed simp

definition chunk_fields :: "'a chunk_row_scheme \<Rightarrow> int \<times> uuid \<times> string \<times> int" where
  "chunk_fields c = (ch_ChunkIndex c, ch_ID c, ch_Hash c, ch_SizeBytes c)"

definition located_chunks :: "database \<Rightarrow> (chunk_row \<Rightarrow> bool) \<Rightarrow> chunk_row list" where
  "located_chunks db P = filter (\<lambda>c. P c \<and> locations_of db (ch_ID c) \<noteq> []) (chunks db)"

lemma fields_joined: "map chunk_fields (joined_chunks env k db P) = map chunk_fields (located_chunks db P)"
proof -
  have "map (chunk_fields \<circ> chunk_result env k db) (enumerate n xs) = map chunk_fields xs" for n xs
    by (induction xs arbitrary: n) (simp_all add: chunk_result_def chunk_fields_def)
  then show ?thesis by (simp add: joined_chunks_def located_chunks_def)
qed

lemma addresses_joined:
  "c \<in> set (joined_chunks env k db P) \<Longrightarrow> mset (ch_NodeAddresses c) = mset (locations_of db (ch_ID c))"
  by (auto simp: joined_chunks_def chunk_result_def)

lemma fst_chunk_fields: "fst \<circ> chunk_fields = ch_ChunkIndex"
  by (simp add: fun_eq_iff chunk_fields_def)

lemma tables_eq:
  assumes "same_tables db db'"
  shows "users db' = users db" "objects db' = objects db" "chunks db' = chunks db"
    "chunk_locations db' = chunk_locations db" "multipart_uploads db' = multipart_uploads db"
    "multipart_chunks db' = multipart_chunks db"
    "multipart_chunk_locations db' = multipart_chunk_locations db" "nodes db' = nodes db"
proof -
  from assms have "db\<lparr>stmt_no := 0\<rparr> = db'\<lparr>stmt_no := 0\<rparr>" by (simp add: same_tables_def)
  then show "users db' = users db" "objects db' = objects db" "chunks db' = chunks db"
    "chunk_locations db' = chunk_locations db" "multipart_uploads db' = multipart_uploads db"
    "multipart_chunks db' = multipart_chunks db"
    "multipart_chunk_locations db' = multipart_chunk_locations db" "nodes db' = nodes db"
    by (metis database.update_convs(9) database.select_convs(1-8) database.surjective)+
qed

lemma same_tables_refl [simp]: "same_tables db db" "same_tables db (db\<lparr>stmt_no := k\<rparr>)"
  "same_tables (db\<lparr>stmt_no := k\<rparr>) db' = same_tables db db'"
  "same_tables db (db'\<lparr>stmt_no := k\<rparr>) = same_tables db db'"
  by (simp_all add: same_tables_def)

lemma same_tables_trans: "same_tables a b \<Longrightarrow> same_tables b c \<Longrightarrow> same_tables a c"
  by (simp add: same_tables_def)

lemma GetChunksByObjectID_ok:
  assumes "GetChunksByObjectID env i db = (Inr cs, db')"
  shows "\<exists>u. uuid_in env i = Some u \<and> same_tables db db' \<and>
    (\<forall>c \<in> set cs. mset (ch_NodeAddresses c) = mset (locations_of db (ch_ID c))) \<and>
    map chunk_fields cs = fetch_rows env (stmt_no db)
      (sort_key fst (map chunk_fields (located_chunks db (\<lambda>c. ch_ObjectID c = u))))"
proof -
  let ?db = "db\<lparr>stmt_no := Suc (stmt_no db)\<rparr>"
  obtain u where u: "uuid_in env i = Some u" "db' = ?db"
    "cs = fetch_rows env (stmt_no db) (sort_key ch_ChunkIndex (joined_chunks env (stmt_no db) ?db (\<lambda>c. ch_ObjectID c = u)))"
    using assms unfolding GetChunksByObjectID_def Let_def
    by (auto simp: exec_stmt_ok split: prod.splits sum.splits option.splits)
  have "set cs \<subseteq> set (joined_chunks env (stmt_no db) ?db (\<lambda>c. ch_ObjectID c = u))"
    using u(3) by (auto simp: fetch_rows_def split: option.splits dest: in_set_takeD)
  then have "\<forall>c \<in> set cs. mset (ch_NodeAddresses c) = mset (locations_of db (ch_ID c))"
    using addresses_joined [of _ env "stmt_no db" ?db] by (auto simp: locations_of_def)
  moreover have "map chunk_fields (sort_key ch_ChunkIndex (joined_chunks env (stmt_no db) ?db (\<lambda>c. ch_ObjectID c = u)))
      = sort_key fst (map chunk_fields (located_chunks db (\<lambda>c. ch_ObjectID c = u)))"
    by (simp add: map_sort_key [of chunk_fields fst, unfolded fst_chunk_fields] fields_joined)
      (simp add: located_chunks_def locations_of_def)
  then have "map chunk_fields cs = fetch_rows env (stmt_no db)
      (sort_key fst (map chunk_fields (located_chunks db (\<lambda>c. ch_ObjectID c = u))))"
    by (auto simp: u(3) fetch_rows_def take_map [symmetric] split: option.split)
  ultimately show ?thesis using u by auto
qed

section \<open>Storing a chunk\<close>

lemma insert_locations_ok:
  assumes "insert_locations env i ns db = (Inr (), db')"
  shows "\<exists>u k. (ns \<noteq> [] \<longrightarrow> uuid_in env i = Some u) \<and> (\<forall>n \<in> set ns. (u, n) \<notin> set (chunk_locations db)) \<and> distinct ns \<and>
    db' = db\<lparr>chunk_locations := chunk_locations db @ map (Pair u) ns, stmt_no := k\<rparr>"
  using assms
proof (induction ns arbitrary: db)
  case Nil
  then show ?case by (intro exI [of _ "''''"] exI [of _ "stmt_no db"]) simp
next
  case (Cons n ns)
  then obtain db1 where t: "tx_stmt env (insert_location env i n) db = (Inr (), db1)"
    "insert_locations env i ns db1 = (Inr (), db')"
    by (auto split: prod.splits sum.splits)
  then obtain u where u: "uuid_in env i = Some u" "(u, n) \<notin> set (chunk_locations db)"
    "db1 = db\<lparr>stmt_no := Suc (stmt_no db), chunk_locations := chunk_locations db @ [(u, n)]\<rparr>"
    by (auto simp: tx_stmt_ok insert_location_def split: option.splits if_splits)
  from Cons.IH [OF t(2)] obtain u' k where IH: "ns \<noteq> [] \<longrightarrow> uuid_in env i = Some u'"
    "\<forall>n \<in> set ns. (u', n) \<notin> set (chunk_locations db1)" "distinct ns"
    "db' = db1\<lparr>chunk_locations := chunk_locations db1 @ map (Pair u') ns, stmt_no := k\<rparr>"
    by blast
  show ?case
  proof (cases "ns = []")
    case True
    with u IH show ?thesis by (intro exI [of _ u] exI [of _ k]) simp
  next
    case False
    with u IH have "u' = u" by simp
    with u IH show ?thesis by (intro exI [of _ u] exI [of _ k]) auto
  qed
qed

definition uuids_ok :: "db_env \<Rightarrow> bool" where
  "uuids_ok env \<longleftrightarrow> (\<forall>k i. uuid_in env (gen_uuid env k i) = Some (gen_uuid env k i))"

text \<open>The tables after a chunk was stored: one row, and its locations.\<close>

definition with_chunk ::
  "uuid \<Rightarrow> uuid \<Rightarrow> int \<Rightarrow> string \<Rightarrow> int \<Rightarrow> address list \<Rightarrow> database \<Rightarrow> database" where
  "with_chunk u newID i h s ns db = db\<lparr>chunks := chunks db @
       [\<lparr>ch_ID = newID, ch_ObjectID = u, ch_ChunkIndex = i, ch_Hash = h, ch_SizeBytes = s\<rparr>],
     chunk_locations := chunk_locations db @ map (Pair newID) ns\<rparr>"

lemma CreateChunk_ok:
  assumes "CreateChunk env r i h s ns db = (Inr (), db')" "uuids_ok env"
  shows "\<exists>u newID. uuid_in env r = Some u \<and> newID \<notin> ch_ID ` set (chunks db) \<and>
    same_tables (with_chunk u newID i h s ns db) db'"
proof -
  let ?db = "db\<lparr>stmt_no := Suc (stmt_no db)\<rparr>"
  obtain tx where tx: "(case tx_stmt env (insert_chunk env r i h s) ?db of
         (Inl err, db) \<Rightarrow> (Inl (Wrapf ''create chunk'' err), db)
       | (Inr chunkID, db) \<Rightarrow> insert_locations env chunkID ns db) = (Inr (), tx)"
    "db' = tx\<lparr>stmt_no := Suc (stmt_no tx)\<rparr>"
    using assms(1) by (auto simp: CreateChunk_def transaction_ok)
  then obtain newID db1 where t: "tx_stmt env (insert_chunk env r i h s) ?db = (Inr newID, db1)"
    "insert_locations env newID ns db1 = (Inr (), tx)"
    by (auto split: prod.splits sum.splits)
  then obtain u where u: "uuid_in env r = Some u" "newID = gen_uuid env (Suc (stmt_no db)) 0"
    "newID \<notin> ch_ID ` set (chunks db)"
    "db1 = db\<lparr>stmt_no := Suc (Suc (stmt_no db)), chunks := chunks db @
       [\<lparr>ch_ID = newID, ch_ObjectID = u, ch_ChunkIndex = i, ch_Hash = h, ch_SizeBytes = s\<rparr>]\<rparr>"
    by (auto simp: tx_stmt_ok insert_chunk_def Let_def split: option.splits if_splits)
  from insert_locations_ok [OF t(2)] obtain u' k where
    loc: "ns \<noteq> [] \<longrightarrow> uuid_in env newID = Some u'"
    "tx = db1\<lparr>chunk_locations := chunk_locations db1 @ map (Pair u') ns, stmt_no := k\<rparr>"
    by blast
  have "map (Pair u') ns = map (Pair newID) ns"
    using loc(1) u(2) assms(2) by (cases ns) (auto simp: uuids_ok_def)
  with u loc tx(2) show ?thesis
    by (intro exI [of _ u] exI [of _ newID]) (simp add: with_chunk_def same_tables_def)
qed


section \<open>Completing a multipart upload\<close>

lemma tx_then_ok:
  "tx_then env f continue db = (Inr v, db') \<longleftrightarrow>
     (\<exists>w db1. tx_stmt env f db = (Inr w, db1) \<and> continue w db1 = (Inr v, db'))"
  by (auto simp: tx_then_def split: prod.split sum.split)

definition mp_locations :: "database \<Rightarrow> uuid \<Rightarrow> int \<Rightarrow> address list" where
  "mp_locations db i x = map (\<lambda>(_, _, n). n) (filter (\<lambda>(m, y, n). m = i \<and> y = x) (multipart_chunk_locations db))"

lemma moved_locations_of:
  assumes "distinct (map ch_ID ins)" "c \<in> set ins"
  shows "map snd (filter (\<lambda>l. fst l = ch_ID c) (moved_locations db i ins)) = mp_locations db i (ch_ChunkIndex c)"
  using assms
proof (induction ins)
  case (Cons d ins)
  let ?ls = "\<lambda>d. map (\<lambda>(_, _, n). (ch_ID d, n))
     (filter (\<lambda>(m, x, n). m = i \<and> x = ch_ChunkIndex d) (multipart_chunk_locations db))"
  have cons: "moved_locations db i (d # ins) = ?ls d @ moved_locations db i ins"
    by (simp add: moved_locations_def)
  have other: "filter (\<lambda>l. fst l = x) (moved_locations db i ins) = []" if "x \<notin> ch_ID ` set ins" for x
    using moved_locations_ids [of db i ins] that by (force simp: filter_empty_conv)
  have own: "filter (\<lambda>l. fst l = ch_ID c) (?ls d) = (if ch_ID d = ch_ID c then ?ls d else [])"
    by (cases "ch_ID d = ch_ID c") (auto intro!: filter_True filter_False)
  show ?case
  proof (cases "c = d")
    case True
    with Cons.prems other [of "ch_ID d"] show ?thesis
      by (simp only: cons filter_append own) (simp add: mp_locations_def comp_def split_beta)
  next
    case False
    with Cons.prems have c: "c \<in> set ins" "ch_ID d \<noteq> ch_ID c" by auto
    with Cons show ?thesis by (simp only: cons filter_append own) simp
  qed
qed simp

lemma CompleteMultipartUpload_ok:
  assumes "CompleteMultipartUpload env i u db = (Inr newID, db')" "uuids_ok env"
  shows "\<exists>ui uu up ins k. uuid_in env i = Some ui \<and> uuid_in env u = Some uu \<and>
    up \<in> set (multipart_uploads db) \<and> mu_ID up = ui \<and> mu_UserID up = uu \<and>
    newID \<notin> obj_ID ` set (objects db) \<and> ins = moved_chunks env (stmt_no db + 4) db newID ui \<and>
    distinct (map ch_ID (chunks db @ ins)) \<and>
    objects db' = objects db @ [\<lparr>obj_ID = newID, obj_UserID = uu, obj_Name = mu_Filename up,
      obj_SizeBytes = sum_list (map mc_SizeBytes (chunks_of_upload db ui)),
      obj_ContentType = mu_ContentType up, obj_CreatedAt = k\<rparr>] \<and>
    chunks db' = chunks db @ ins \<and> chunk_locations db' = chunk_locations db @ moved_locations db ui ins \<and>
    multipart_uploads db' = filter (\<lambda>r. mu_ID r \<noteq> ui) (multipart_uploads db) \<and>
    chunks_of_upload db' ui = []"
proof -
  let ?db = "\<lambda>n. db\<lparr>stmt_no := n + stmt_no db\<rparr>"
  from assms(1) obtain fn ct total d1 d2 d3 d4 d5 where
    s1: "tx_stmt env (select_upload env i u) (db\<lparr>stmt_no := Suc (stmt_no db)\<rparr>) = (Inr (fn, ct), d1)"
    and s2: "tx_stmt env (select_sum env i) d1 = (Inr total, d2)"
    and s3: "tx_stmt env (insert_object env u fn ct total) d2 = (Inr newID, d3)"
    and s4: "tx_stmt env (move_chunks env newID i) d3 = (Inr (), d4)"
    and s5: "tx_stmt env (delete_upload env i) d4 = (Inr (), d5)"
    and db': "db' = d5\<lparr>stmt_no := Suc (stmt_no d5)\<rparr>"
    by (auto simp: CompleteMultipartUpload_def transaction_ok tx_then_ok)
  from s1 obtain ui uu up where u: "uuid_in env i = Some ui" "uuid_in env u = Some uu"
    "up \<in> set (multipart_uploads db)" "mu_ID up = ui" "mu_UserID up = uu"
    "fn = mu_Filename up" "ct = mu_ContentType up" and d1: "d1 = ?db 2"
    by (auto simp: tx_stmt_ok select_upload_def dest!: filter_eq_ConsD split: option.splits list.splits)
  from s2 u have t: "total = sum_list (map mc_SizeBytes (chunks_of_upload db ui))" and d2: "d2 = ?db 3"
    by (auto simp: tx_stmt_ok select_sum_def d1 Let_def chunks_of_upload_def split: if_splits)
  let ?k = "db_now env (3 + stmt_no db)"
  from s3 u have n: "newID \<notin> obj_ID ` set (objects db)" "newID = gen_uuid env (3 + stmt_no db) 0"
    and d3: "d3 = db\<lparr>objects := objects db @ [\<lparr>obj_ID = newID, obj_UserID = uu, obj_Name = fn,
      obj_SizeBytes = total, obj_ContentType = ct, obj_CreatedAt = ?k\<rparr>], stmt_no := 4 + stmt_no db\<rparr>"
    by (auto simp: tx_stmt_ok insert_object_def d2 Let_def split: if_splits)
  have new: "uuid_in env newID = Some newID" using assms(2) n(2) by (simp add: uuids_ok_def)
  have moved: "moved_chunks env m (db\<lparr>objects := rs, stmt_no := k\<rparr>) = moved_chunks env m db"
    "moved_locations (db\<lparr>objects := rs, stmt_no := k\<rparr>) = moved_locations db" for m rs k
    by (auto simp: fun_eq_iff moved_chunks_def moved_locations_def chunks_of_upload_def)
  let ?ins = "moved_chunks env (4 + stmt_no db) db newID ui"
  from s4 have d4: "distinct (map ch_ID (chunks db @ ?ins))"
    "d4 = d3\<lparr>stmt_no := 5 + stmt_no db, chunks := chunks db @ ?ins,
       chunk_locations := chunk_locations db @ moved_locations db ui ?ins\<rparr>"
    by (auto simp: tx_stmt_ok move_chunks_eq d3 moved u new)
  from s5 u have "d5 = d4\<lparr>stmt_no := 6 + stmt_no db,
      multipart_uploads := filter (\<lambda>r. mu_ID r \<noteq> ui) (multipart_uploads db),
      multipart_chunks := filter (\<lambda>m. mc_UploadID m \<noteq> ui) (multipart_chunks db),
      multipart_chunk_locations := filter (\<lambda>l. fst l \<noteq> ui) (multipart_chunk_locations db)\<rparr>"
    by (auto simp: tx_stmt_ok delete_upload_def d4 d3)
  with db' u n d4 t show ?thesis
    by (intro exI [of _ ui] exI [of _ uu] exI [of _ up] exI [of _ ?ins] exI [of _ ?k])
      (simp add: d3 chunks_of_upload_def add.commute)
qed


lemma map_enumerate_snd: "map (\<lambda>(j, m). f m) (enumerate k xs) = map f xs"
  by (induction xs arbitrary: k) simp_all

lemma moved_chunks_fields:
  "map (\<lambda>c. (ch_ChunkIndex c, ch_Hash c, ch_SizeBytes c)) (moved_chunks env k db u i) =
     map (\<lambda>m. (mc_ChunkIndex m, mc_Hash m, mc_SizeBytes m)) (chunks_of_upload db i)"
proof -
  have "map (\<lambda>c. (ch_ChunkIndex c, ch_Hash c, ch_SizeBytes c)) (moved_chunks env k db u i)
      = map (\<lambda>(j, m). (mc_ChunkIndex m, mc_Hash m, mc_SizeBytes m)) (enumerate 0 (chunks_of_upload db i))"
    by (simp add: moved_chunks_def comp_def split_beta)
  then show ?thesis by (simp only: map_enumerate_snd)
qed

lemma inv_db_runs: "db_inv (fold (db_run env) calls empty_db)"
  by (rule fold_invariant) (simp_all add: inv_empty_db inv_db_run)

lemma complete_moves:
  assumes "db_inv db" "uuids_ok env" "CompleteMultipartUpload env i u db = (Inr newID, db')"
  shows "\<exists>ui uu up. uuid_in env i = Some ui \<and> uuid_in env u = Some uu \<and>
    up \<in> set (multipart_uploads db) \<and> mu_ID up = ui \<and> mu_UserID up = uu \<and>
    (\<exists>r. objects db' = objects db @ [r] \<and> obj_ID r = newID \<and> obj_UserID r = uu \<and> obj_Name r = mu_Filename up \<and>
       obj_ContentType r = mu_ContentType up \<and>
       obj_SizeBytes r = sum_list (map mc_SizeBytes (chunks_of_upload db ui))) \<and>
    map (\<lambda>c. (ch_ChunkIndex c, ch_Hash c, ch_SizeBytes c, locations_of db' (ch_ID c)))
        (filter (\<lambda>c. ch_ObjectID c = newID) (chunks db')) =
      map (\<lambda>m. (mc_ChunkIndex m, mc_Hash m, mc_SizeBytes m, mp_locations db ui (mc_ChunkIndex m)))
        (chunks_of_upload db ui) \<and>
    ui \<notin> mu_ID ` set (multipart_uploads db') \<and> chunks_of_upload db' ui = []"
proof -
  obtain ui uu up ins k where ui: "uuid_in env i = Some ui" "uuid_in env u = Some uu"
    "up \<in> set (multipart_uploads db)" "mu_ID up = ui" "mu_UserID up = uu"
    and new: "newID \<notin> obj_ID ` set (objects db)"
    and ins: "ins = moved_chunks env (stmt_no db + 4) db newID ui" "distinct (map ch_ID (chunks db @ ins))"
    and db': "objects db' = objects db @ [\<lparr>obj_ID = newID, obj_UserID = uu, obj_Name = mu_Filename up,
      obj_SizeBytes = sum_list (map mc_SizeBytes (chunks_of_upload db ui)),
      obj_ContentType = mu_ContentType up, obj_CreatedAt = k\<rparr>]"
    "chunks db' = chunks db @ ins" "chunk_locations db' = chunk_locations db @ moved_locations db ui ins"
    "multipart_uploads db' = filter (\<lambda>r. mu_ID r \<noteq> ui) (multipart_uploads db)" "chunks_of_upload db' ui = []"
    using CompleteMultipartUpload_ok [OF assms(3,2)] by blast
  have inv: "chunks_inv (objects db) (chunks db) (chunk_locations db)" using assms(1) by (simp add: db_inv_def)
  have "filter (\<lambda>c. ch_ObjectID c = newID) (chunks db) = []"
    using inv new by (auto simp: chunks_inv_def filter_empty_conv)
  moreover have "filter (\<lambda>c. ch_ObjectID c = newID) ins = ins"
    by (auto simp: ins(1) moved_chunks_def intro!: filter_True)
  ultimately have rows: "filter (\<lambda>c. ch_ObjectID c = newID) (chunks db') = ins" by (simp add: db')
  have "locations_of db' (ch_ID c) = mp_locations db ui (ch_ChunkIndex c)" if c: "c \<in> set ins" for c
  proof -
    have "filter (\<lambda>l. fst l = ch_ID c) (chunk_locations db) = []"
      using inv ins(2) c by (force simp: chunks_inv_def filter_empty_conv)
    then show ?thesis
      using moved_locations_of [of ins c db ui] ins(2) c by (simp add: locations_of_def db')
  qed
  then have "map (\<lambda>c. (ch_ChunkIndex c, ch_Hash c, ch_SizeBytes c, locations_of db' (ch_ID c))) ins
      = map (\<lambda>(x, h, s). (x, h, s, mp_locations db ui x)) (map (\<lambda>c. (ch_ChunkIndex c, ch_Hash c, ch_SizeBytes c)) ins)"
    by simp
  also have "\<dots> = map (\<lambda>m. (mc_ChunkIndex m, mc_Hash m, mc_SizeBytes m, mp_locations db ui (mc_ChunkIndex m)))
        (chunks_of_upload db ui)"
    unfolding ins(1) moved_chunks_fields by simp
  finally show ?thesis
    using ui db' rows by - (rule exI [of _ ui], rule exI [of _ uu], rule exI [of _ up], auto)
qed

section \<open>Properties\<close>


text \<open>
  \<open>CreateChunk\<close> is all or nothing. When it reports success, the tables have exactly one new
  chunk row and one location for each node; when it reports an error, they are unchanged (unless
  the error is the lost answer to a commit that was carried out).
\<close>

theorem CreateChunk_atomic:
  assumes "uuids_ok env" "\<forall>k. db_fault env k \<noteq> DropReply"
  shows "case CreateChunk env r i h s ns db of
           (Inl err, db') \<Rightarrow> same_tables db db'
         | (Inr _, db') \<Rightarrow> (\<exists>u newID. uuid_in env r = Some u \<and> newID \<notin> ch_ID ` set (chunks db) \<and>
             same_tables (with_chunk u newID i h s ns db) db')"
proof (cases "CreateChunk env r i h s ns db")
  case (Pair res db')
  show ?thesis
  proof (cases res)
    case (Inl e)
    with Pair have "transaction env (\<lambda>db. case tx_stmt env (insert_chunk env r i h s) db of
         (Inl err, db) \<Rightarrow> (Inl (Wrapf ''create chunk'' err), db)
       | (Inr chunkID, db) \<Rightarrow> insert_locations env chunkID ns db) db = (Inl e, db')"
      by (simp add: CreateChunk_def)
    from transaction_error [OF this assms(2)] Pair Inl show ?thesis by simp
  next
    case (Inr v)
    with CreateChunk_ok [OF _ assms(1), of r i h s ns db db'] Pair show ?thesis by simp
  qed
qed

text \<open>
  When \<open>CompleteMultipartUpload\<close> succeeds, the upload was the caller's, the new object has
  its name and content type and the sum of its part sizes, and the chunks of the new object are
  exactly the parts of the upload: the same indices, hashes and sizes, and for every index the
  same replica locations. The upload and its parts are gone.
\<close>

theorem CompleteMultipartUpload_moves:
  assumes "db_inv db" "uuids_ok env" "CompleteMultipartUpload env i u db = (Inr newID, db')"
  shows "\<exists>ui uu up. uuid_in env i = Some ui \<and> uuid_in env u = Some uu \<and>
    up \<in> set (multipart_uploads db) \<and> mu_ID up = ui \<and> mu_UserID up = uu \<and>
    (\<exists>r. objects db' = objects db @ [r] \<and> obj_ID r = newID \<and> obj_UserID r = uu \<and> obj_Name r = mu_Filename up \<and>
       obj_ContentType r = mu_ContentType up \<and>
       obj_SizeBytes r = sum_list (map mc_SizeBytes (chunks_of_upload db ui))) \<and>
    map (\<lambda>c. (ch_ChunkIndex c, ch_Hash c, ch_SizeBytes c, locations_of db' (ch_ID c)))
        (filter (\<lambda>c. ch_ObjectID c = newID) (chunks db')) =
      map (\<lambda>m. (mc_ChunkIndex m, mc_Hash m, mc_SizeBytes m, mp_locations db ui (mc_ChunkIndex m)))
        (chunks_of_upload db ui) \<and>
    ui \<notin> mu_ID ` set (multipart_uploads db') \<and> chunks_of_upload db' ui = []"
  using complete_moves [OF assms] .

section \<open>Concrete instances\<close>

definition db_ok :: db_env where
  "db_ok = \<lparr>db_fault = (\<lambda>k. Deliver), gen_uuid = (\<lambda>k i. replicate k CHR ''u'' @ replicate i CHR ''i''),
     db_now = int, row_order = (\<lambda>k. []), agg_order = (\<lambda>k i. []), rows_cut = (\<lambda>k. None),
     uuid_in = Some, text_ok = (\<lambda>s. True)\<rparr>"

lemma uuids_ok_db_ok [simp]: "uuids_ok db_ok"
  by (simp add: uuids_ok_def db_ok_def)

definition example_db :: database where
  "example_db = fold (db_run db_ok)
     [CallCreateUser ''e'' ''p'', CallCreateMultipartUpload '''' ''f'' ''t'',
      CallCreateMultipartChunk ''u'' 7 ''h'' 3 [''n1'', ''n2'']] empty_db"

lemmas db_eval = exec_stmt_def tx_stmt_def transaction_def tx_then_def db_ok_def Let_def
  CreateUser_def CreateObject_def insert_object_def CreateMultipartUpload_def CreateMultipartChunk_def
  insert_mp_chunk_def insert_mp_location_def int4_ok_def empty_db_def

lemma example_db_eq: "example_db = empty_db\<lparr>
    users := [\<lparr>usr_ID = '''', usr_Email = ''e'', usr_Password = ''p'', usr_CreatedAt = 0\<rparr>],
    multipart_uploads := [\<lparr>mu_ID = ''u'', mu_UserID = '''', mu_Filename = ''f'', mu_ContentType = ''t''\<rparr>],
    multipart_chunks := [\<lparr>mc_UploadID = ''u'', mc_ChunkIndex = 7, mc_Hash = ''h'', mc_SizeBytes = 3\<rparr>],
    multipart_chunk_locations := [(''u'', 7, ''n1''), (''u'', 7, ''n2'')], stmt_no := 7\<rparr>"
  by (simp add: example_db_def db_eval)

lemma CreateChunk_atomic_witness:
  "same_tables example_db (snd (CreateChunk db_ok ''x'' 0 ''h'' 3 [''n1''] example_db))"
  using CreateChunk_atomic [where env = db_ok and r = "''x''" and i = 0 and h = "''h''" and s = 3
      and ns = "[''n1'']" and db = example_db]
  by (simp add: example_db_eq CreateChunk_def insert_chunk_def db_eval same_tables_def)

lemma CompleteMultipartUpload_moves_witness:
  "\<exists>newID db'. CompleteMultipartUpload db_ok ''u'' '''' example_db = (Inr newID, db') \<and>
     map (\<lambda>c. (ch_ChunkIndex c, ch_Hash c, ch_SizeBytes c, locations_of db' (ch_ID c)))
        (filter (\<lambda>c. ch_ObjectID c = newID) (chunks db')) = [(7, ''h'', 3, [''n1'', ''n2''])]"
proof -
  have "db_inv example_db" unfolding example_db_def by (rule inv_db_runs)
  moreover obtain newID db' where c: "CompleteMultipartUpload db_ok ''u'' '''' example_db = (Inr newID, db')"
    by (simp add: CompleteMultipartUpload_def select_upload_def select_sum_def chunks_of_upload_def
        move_chunks_def delete_upload_def example_db_eq db_eval)
  ultimately show ?thesis
    using CompleteMultipartUpload_moves [OF _ uuids_ok_db_ok c]
    by (auto simp: example_db_eq chunks_of_upload_def mp_locations_def empty_db_def db_ok_def)
qed

end
