(* ===== verification/Http.thy ===== *)
theory Http imports GoLib GoJson begin

text \<open>
  What the handlers use of \<open>net/http\<close>: a response under construction, whose status and headers
  are fixed by the first write, and the JSON bodies of requests and responses.
\<close>

section \<open>Responses\<close>

text \<open>The body is the sequence of what was written; \<open>writes_left\<close> says when the client goes away.\<close>

datatype body_part = Raw bytes | Json json | ErrorText string

record http_response =
  status :: "nat option"
  headers :: "(string \<times> string) list"
  body :: "body_part list"
  writes_left :: "nat option"

definition new_response :: "nat option \<Rightarrow> http_response" where
  "new_response left = \<lparr>status = None, headers = [], body = [], writes_left = left\<rparr>"

text \<open>A header that is set after the status was sent has no effect.\<close>

definition set_header :: "string \<Rightarrow> string \<Rightarrow> http_response \<Rightarrow> http_response" where
  "set_header k v w =
     (if status w = None then w\<lparr>headers := AList.update k v (headers w)\<rparr> else w)"

definition WriteHeader :: "nat \<Rightarrow> http_response \<Rightarrow> http_response" where
  "WriteHeader st w = (if status w = None then w\<lparr>status := Some st\<rparr> else w)"

text \<open>\<open>Write\<close> sends status 200 if none was sent; the result says whether it succeeded.\<close>

definition response_Write :: "body_part \<Rightarrow> http_response \<Rightarrow> bool \<times> http_response" where
  "response_Write p w =
     (let w = WriteHeader 200 w
      in case writes_left w of
           Some 0 \<Rightarrow> (False, w)
         | Some (Suc n) \<Rightarrow> (True, w\<lparr>body := body w @ [p], writes_left := Some n\<rparr>)
         | None \<Rightarrow> (True, w\<lparr>body := body w @ [p]\<rparr>))"

definition http_Error :: "string \<Rightarrow> nat \<Rightarrow> http_response \<Rightarrow> http_response" where
  "http_Error msg st w =
     (let w = set_header ''Content-Type'' ''text/plain; charset=utf-8'' w;
          w = set_header ''X-Content-Type-Options'' ''nosniff'' w
      in snd (response_Write (ErrorText msg) (WriteHeader st w)))"

definition write_json :: "json \<Rightarrow> http_response \<Rightarrow> http_response" where
  "write_json j w = snd (response_Write (Json j) w)"

text \<open>The status the client sees, once the handler has returned.\<close>

definition status_code :: "http_response \<Rightarrow> nat" where
  "status_code w = (case status w of None \<Rightarrow> 200 | Some c \<Rightarrow> c)"

definition json_string :: "string \<Rightarrow> json" where
  "json_string s = JStr (to_valid_utf8 s)"

section \<open>JSON requests\<close>

text \<open>
  Decoding into a struct of strings. Unknown members and \<open>null\<close> are skipped, the last member of
  a field wins, and a member of another type is an error.
\<close>

fun decode_field :: "string list \<Rightarrow> string \<times> json \<Rightarrow> (string \<rightharpoonup> string) \<times> bool \<Rightarrow> (string \<rightharpoonup> string) \<times> bool" where
  "decode_field names (k, v) (m, ok) =
     (case List.find (\<lambda>f. fold_name f = fold_name k) names of
        None \<Rightarrow> (m, ok)
      | Some f \<Rightarrow>
          (case v of JStr s \<Rightarrow> (m(f \<mapsto> s), ok) | JNull \<Rightarrow> (m, ok) | _ \<Rightarrow> (m, False)))"

definition decode_struct :: "string list \<Rightarrow> json_text \<Rightarrow> (string \<rightharpoonup> string) option" where
  "decode_struct names t =
     (case t of
        None \<Rightarrow> None
      | Some JNull \<Rightarrow> Some Map.empty
      | Some (JObj ms) \<Rightarrow>
          (let (m, ok) = fold (decode_field names) ms (Map.empty, True) in if ok then Some m else None)
      | Some _ \<Rightarrow> None)"

section \<open>Lemmas\<close>

lemma status_http_Error [simp]:
  "status w = None \<Longrightarrow> status_code (http_Error msg st w) = st"
  by (simp add: http_Error_def set_header_def WriteHeader_def response_Write_def status_code_def Let_def
      split: option.split nat.split)

lemma status_set_header [simp]: "status (set_header k v w) = status w"
  by (simp add: set_header_def)

lemma status_code_set_header [simp]: "status_code (set_header k v w) = status_code w"
  by (simp add: status_code_def)

lemma status_write_json [simp]: "status_code (write_json j w) = status_code w"
  by (simp add: write_json_def response_Write_def WriteHeader_def status_code_def Let_def
      split: option.split nat.split)

lemma status_WriteHeader [simp]: "status w = None \<Longrightarrow> status_code (WriteHeader c w) = c"
  by (simp add: WriteHeader_def status_code_def)

lemma new_response_simps [simp]: "status (new_response l) = None" "body (new_response l) = []"
  by (simp_all add: new_response_def)

end
