(* ===== verification/ObjectHandler.thy ===== *)
theory ObjectHandler imports Ring AesBox StorageClient Database Http begin

text \<open>
  The object handlers of \<open>internal/api/object_handler.go\<close>: \<open>Upload\<close>, \<open>Download\<close>, \<open>List\<close>,
  \<open>Delete\<close>, \<open>InitMultipart\<close>, \<open>UploadPart\<close> and \<open>CompleteMultipart\<close>. They use the ring, the
  encryption, the client of the storage nodes and the database of the other theories. The
  chunk goroutines of an upload interleave under a schedule, and each sees the ring that the
  sync loop has at that moment. Snappy is a parameter of the model. Tracing, logging and
  metrics are left out.
\<close>

section \<open>State and environment\<close>

record ObjectHandler =
  ChunkSizeMB :: int
  ReplicationFactor :: int
  QuorumSize :: int
  EncryptionKey :: bytes

text \<open>What the handlers share: the storage nodes with the client's state, and the database.\<close>

record gateway =
  cluster_of_gw :: cluster
  database_of_gw :: database

text \<open>The compression library, which the program only calls.\<close>

record snappy =
  snappy_Encode :: "bytes \<Rightarrow> bytes"
  snappy_Decode :: "bytes \<Rightarrow> bytes option"

definition snappy_ok :: "snappy \<Rightarrow> bool" where
  "snappy_ok sn \<longleftrightarrow> (\<forall>x. snappy_Decode sn (snappy_Encode sn x) = Some x)"

record gw_env =
  net_of :: net_env
  db_of :: db_env
  snappy_of :: snappy

text \<open>A body that arrives, and how it ends: its end, a broken connection, or another error.\<close>

datatype body_end = EndEOF | EndUnexpectedEOF | EndErr

record request =
  userID :: string
  pathValue :: "string \<Rightarrow> string"
  reqHeader :: "string \<Rightarrow> string"
  reqBody :: bytes
  reqEnd :: body_end
  reqJson :: json_text
  clientGone :: "nat option"

text \<open>A handler that panics makes the server drop the connection.\<close>

datatype outcome = Response http_response | Panicked

definition sha256hex :: "bytes \<Rightarrow> string" where
  "sha256hex d = hex_EncodeToString (sha256_Sum256 d)"

definition quorum :: "ObjectHandler \<Rightarrow> int" where
  "quorum h = go_div (ReplicationFactor h) 2 + 1"

section \<open>\<open>Upload\<close>\<close>

subsection \<open>Reading the body\<close>

datatype read_err = NoErr | EOF | UnexpectedEOF | ReadErr

text \<open>\<open>io.ReadFull\<close> into a buffer of \<open>n\<close> bytes: what was read, what is left, and the error.\<close>

definition ReadFull :: "nat \<Rightarrow> bytes \<Rightarrow> body_end \<Rightarrow> bytes \<times> bytes \<times> read_err" where
  "ReadFull n b bend =
     (if n \<le> length b then (take n b, drop n b, NoErr)
      else (b, [], case bend of
              EndEOF \<Rightarrow> if b = [] then EOF else UnexpectedEOF
            | EndUnexpectedEOF \<Rightarrow> UnexpectedEOF
            | EndErr \<Rightarrow> ReadErr))"

text \<open>
  The loop of \<open>Upload\<close>: the chunks for which a goroutine was started, and whether the loop was
  left by its \<open>break\<close>. It may run forever, and then has no result.
\<close>

partial_function (option) read_loop ::
  "nat \<Rightarrow> bytes \<Rightarrow> body_end \<Rightarrow> bytes list \<Rightarrow> (bytes list \<times> bool) option" where
  "read_loop n b bend cs =
     (let (buf, rest, err) = ReadFull n b bend;
          cs = (if 0 < length buf then cs @ [buf] else cs)
      in if err = EOF \<or> err = UnexpectedEOF then Some (cs, True)
         else if err \<noteq> NoErr then Some (cs, False)
         else read_loop n rest bend cs)"

declare read_loop.simps [code]

subsection \<open>The goroutine of a chunk\<close>

text \<open>
  What a goroutine does before and after its call of \<open>SaveChunk\<close>. The first part gives the
  error, or the nodes to save to and the data.
\<close>

definition chunk_prepare ::
  "gw_env \<Rightarrow> ObjectHandler \<Rightarrow> HashRing \<Rightarrow> bytes \<Rightarrow> bytes \<Rightarrow> go_error + (address list \<times> string \<times> bytes)" where
  "chunk_prepare env h rg rand chunk =
     (let hash = sha256hex chunk;
          compressedChunk = snappy_Encode (snappy_of env) chunk
      in case Encrypt rand compressedChunk (EncryptionKey h) of
           Inl err \<Rightarrow> Inl (Wrapf ''failed to encrypt chunk'' err)
         | Inr encryptedChunk \<Rightarrow>
             (let nodeAddresses = GetNodes rg hash (ReplicationFactor h)
              in if length nodeAddresses = 0 then Inl (Errorf ''no healthy storage node available'')
                 else Inr (nodeAddresses, hash, encryptedChunk)))"

record chunkMeta =
  cm_index :: nat
  cm_hash :: string
  cm_size :: int
  cm_nodes :: "address list"

text \<open>The calls of all the goroutines, each with the index of its chunk.\<close>

fun calls_of :: "nat \<times> (go_error + (address list \<times> string \<times> bytes)) \<Rightarrow> (nat \<times> call) list" where
  "calls_of (i, Inl err) = []"
| "calls_of (i, Inr (as, hash, data)) = map (\<lambda>a. (i, a, ReqSave hash data)) as"

definition task_calls :: "(go_error + (address list \<times> string \<times> bytes)) list \<Rightarrow> (nat \<times> call) list" where
  "task_calls tasks = concat (map calls_of (enumerate 0 tasks))"

text \<open>The nodes that acknowledged chunk \<open>i\<close>, in the order in which their calls finished.\<close>

definition successNodes :: "(nat \<times> call) list \<Rightarrow> phase list \<Rightarrow> nat list \<Rightarrow> nat \<Rightarrow> address list" where
  "successNodes calls ps fin i =
     map (\<lambda>j. fst (snd (calls ! j))) (filter (\<lambda>j. fst (calls ! j) = i \<and> \<not> is_err (result (ps ! j))) fin)"

definition chunk_finish ::
  "ObjectHandler \<Rightarrow> (nat \<times> call) list \<Rightarrow> phase list \<Rightarrow> nat list \<Rightarrow>
   nat \<times> bytes \<times> (go_error + (address list \<times> string \<times> bytes)) \<Rightarrow> go_error + chunkMeta" where
  "chunk_finish h calls ps fin ict =
     (let (i, chunk, t) = ict
      in case t of
           Inl err \<Rightarrow> Inl err
         | Inr (as, hash, data) \<Rightarrow>
             (let succ = successNodes calls ps fin i
              in if int (length succ) < quorum h then Inl (Errorf ''upload failed: quorum not met'')
                 else Inr \<lparr>cm_index = i, cm_hash = hash, cm_size = int (length chunk), cm_nodes = succ\<rparr>))"

text \<open>
  The choices of the runtime in one upload: the schedule of the calls, the ring that each
  goroutine reads, the random bytes it gets, and the order in which the goroutines append to
  \<open>metas\<close>.
\<close>

record upload_env =
  up_sched :: "(nat \<times> nat) list"
  up_rings :: "nat \<Rightarrow> HashRing"
  up_rand :: "nat \<Rightarrow> bytes"
  up_order :: "nat list"

definition run_tasks ::
  "gw_env \<Rightarrow> upload_env \<Rightarrow> ObjectHandler \<Rightarrow> bytes list \<Rightarrow> cluster \<Rightarrow> (go_error + chunkMeta) list \<times> cluster" where
  "run_tasks env up h cs c =
     (let tasks = map (\<lambda>(i, chunk). chunk_prepare env h (up_rings up i) (up_rand up i) chunk) (enumerate 0 cs);
          calls = task_calls tasks;
          (ps, fin, c) = fan_out (net_of env) (map snd calls) (up_sched up) c
      in (map (chunk_finish h calls ps fin) (enumerate 0 (zip cs tasks)), c))"

subsection \<open>The handler\<close>

fun store_chunks :: "db_env \<Rightarrow> uuid \<Rightarrow> chunkMeta list \<Rightarrow> database \<Rightarrow> bool \<times> database" where
  "store_chunks env objectID [] db = (True, db)"
| "store_chunks env objectID (m # ms) db =
     (case CreateChunk env objectID (int (cm_index m)) (cm_hash m) (cm_size m) (cm_nodes m) db of
        (Inl err, db) \<Rightarrow> (False, db)
      | (Inr _, db) \<Rightarrow> store_chunks env objectID ms db)"

definition objectResponse :: "uuid \<Rightarrow> string \<Rightarrow> int \<Rightarrow> string \<Rightarrow> json" where
  "objectResponse i name sizeBytes contentType =
     JObj [(''id'', json_string i), (''name'', json_string name), (''size_bytes'', JNum sizeBytes),
           (''content_type'', json_string contentType)]"

definition upload_name :: "request \<Rightarrow> string" where
  "upload_name r = (if reqHeader r ''X-Filename'' = '''' then ''untitled'' else reqHeader r ''X-Filename'')"

definition upload_type :: "request \<Rightarrow> string" where
  "upload_type r =
     (let contentType = reqHeader r ''Content-Type''
      in if contentType = '''' \<or> contentType = ''application/octet-stream''
         then ''application/octet-stream'' else contentType)"

definition chunk_size :: "ObjectHandler \<Rightarrow> int" where
  "chunk_size h = wrap64 (ChunkSizeMB h * 1024 * 1024)"

text \<open>The part after \<open>g.Wait\<close>: the metadata and the response.\<close>

definition upload_metadata ::
  "gw_env \<Rightarrow> request \<Rightarrow> chunkMeta list \<Rightarrow> http_response \<Rightarrow> database \<Rightarrow> http_response \<times> database" where
  "upload_metadata env r metas w db =
     (let totalSize = sum_list (map cm_size metas)
      in case CreateObject (db_of env) (userID r) (upload_name r) (upload_type r) totalSize db of
           (Inl err, db) \<Rightarrow> (http_Error ''failed to save object metadata'' 500 w, db)
         | (Inr objectID, db) \<Rightarrow>
             (case store_chunks (db_of env) objectID metas db of
                (False, db) \<Rightarrow> (http_Error ''failed to save chunk metadata'' 500 w, db)
              | (True, db) \<Rightarrow>
                  (write_json (objectResponse objectID (upload_name r) totalSize (upload_type r))
                     (WriteHeader 201 (set_header ''Content-Type'' ''application/json'' w)), db)))"

fun oks :: "('e + 'a) list \<Rightarrow> 'a list" where
  "oks [] = []"
| "oks (Inl e # xs) = oks xs"
| "oks (Inr v # xs) = v # oks xs"

definition Upload ::
  "gw_env \<Rightarrow> upload_env \<Rightarrow> ObjectHandler \<Rightarrow> request \<Rightarrow> gateway \<Rightarrow> (outcome \<times> gateway) option" where
  "Upload env up h r gw =
     (let w = new_response (clientGone r)
      in if chunk_size h < 0 then Some (Panicked, gw)
         else case read_loop (nat (chunk_size h)) (reqBody r) (reqEnd r) [] of
                None \<Rightarrow> None
              | Some (cs, complete) \<Rightarrow>
                  (let (results, c) = run_tasks env up h cs (cluster_of_gw gw);
                       gw = gw\<lparr>cluster_of_gw := c\<rparr>
                   in if \<not> complete
                      then Some (Response (http_Error ''failed to read upload body'' 500 w), gw)
                      else if \<exists>e \<in> set results. is_err e
                      then Some (Response (http_Error ''failed to store chunk concurrently'' 500 w), gw)
                      else let metas = shuffle (up_order up) (oks results);
                               (w, db) = upload_metadata env r metas w (database_of_gw gw)
                           in Some (Response w, gw\<lparr>database_of_gw := db\<rparr>)))"


section \<open>\<open>Download\<close>\<close>

text \<open>What one replica gives: the chunk, if it can be fetched, decrypts, decompresses and has the hash.\<close>

definition try_replica ::
  "gw_env \<Rightarrow> ObjectHandler \<Rightarrow> string \<Rightarrow> address \<Rightarrow> cluster \<Rightarrow> bytes option \<times> cluster" where
  "try_replica env h hash nodeAddr c =
     (case client_GetChunk (net_of env) nodeAddr hash c of
        (Inl err, c) \<Rightarrow> (None, c)
      | (Inr data, c) \<Rightarrow>
          (case Decrypt data (EncryptionKey h) of
             Inl err \<Rightarrow> (None, c)
           | Inr decryptedData \<Rightarrow>
               (case snappy_Decode (snappy_of env) decryptedData of
                  None \<Rightarrow> (None, c)
                | Some decompressedData \<Rightarrow>
                    if sha256hex decompressedData \<noteq> hash then (None, c)
                    else (Some decompressedData, c))))"

fun fetch_chunk ::
  "gw_env \<Rightarrow> ObjectHandler \<Rightarrow> string \<Rightarrow> address list \<Rightarrow> cluster \<Rightarrow> bytes option \<times> cluster" where
  "fetch_chunk env h hash [] c = (None, c)"
| "fetch_chunk env h hash (nodeAddr # as) c =
     (case try_replica env h hash nodeAddr c of
        (Some d, c) \<Rightarrow> (Some d, c)
      | (None, c) \<Rightarrow> fetch_chunk env h hash as c)"

fun send_chunks ::
  "gw_env \<Rightarrow> ObjectHandler \<Rightarrow> Chunk list \<Rightarrow> http_response \<Rightarrow> cluster \<Rightarrow> http_response \<times> cluster" where
  "send_chunks env h [] w c = (w, c)"
| "send_chunks env h (chunk # cs) w c =
     (case fetch_chunk env h (ch_Hash chunk) (ch_NodeAddresses chunk) c of
        (None, c) \<Rightarrow> (http_Error ''all replicas failed or corrupted'' 500 w, c)
      | (Some data, c) \<Rightarrow>
          (case response_Write (Raw data) w of
             (False, w) \<Rightarrow> (w, c)
           | (True, w) \<Rightarrow> send_chunks env h cs w c))"

definition Download :: "gw_env \<Rightarrow> ObjectHandler \<Rightarrow> request \<Rightarrow> gateway \<Rightarrow> http_response \<times> gateway" where
  "Download env h r gw =
     (let w = new_response (clientGone r);
          objectID = pathValue r ''id'';
          (obj, db) = GetObjectByID (db_of env) objectID (userID r) (database_of_gw gw);
          gw = gw\<lparr>database_of_gw := db\<rparr>
      in case obj of
           Inl err \<Rightarrow> (http_Error ''internal server error'' 500 w, gw)
         | Inr None \<Rightarrow> (http_Error ''object not found'' 404 w, gw)
         | Inr (Some obj) \<Rightarrow>
             (let (cs, db) = GetChunksByObjectID (db_of env) objectID (database_of_gw gw);
                  gw = gw\<lparr>database_of_gw := db\<rparr>
              in case cs of
                   Inl err \<Rightarrow> (http_Error ''failed to fetch chunk metadata'' 500 w, gw)
                 | Inr cs \<Rightarrow>
                     (let w = set_header ''Content-Type'' (obj_ContentType obj) w;
                          w = set_header ''Content-Disposition''
                                (''attachment; filename=\"'' @ obj_Name obj @ ''\"'') w;
                          (w, c) = send_chunks env h cs w (cluster_of_gw gw)
                      in (w, gw\<lparr>cluster_of_gw := c\<rparr>))))"

section \<open>\<open>List\<close> and \<open>Delete\<close>\<close>

definition list_item :: "Object \<Rightarrow> json" where
  "list_item r = objectResponse (obj_ID r) (obj_Name r) (obj_SizeBytes r) (obj_ContentType r)"

definition List :: "gw_env \<Rightarrow> request \<Rightarrow> gateway \<Rightarrow> http_response \<times> gateway" where
  "List env r gw =
     (let w = new_response (clientGone r);
          (rs, db) = ListObjects (db_of env) (userID r) (database_of_gw gw);
          gw = gw\<lparr>database_of_gw := db\<rparr>
      in case rs of
           Inl err \<Rightarrow> (http_Error ''internal server error'' 500 w, gw)
         | Inr rs \<Rightarrow>
             (write_json (JArr (map list_item rs)) (set_header ''Content-Type'' ''application/json'' w), gw))"

definition delete_calls :: "Chunk list \<Rightarrow> call list" where
  "delete_calls cs = concat (map (\<lambda>ch. map (\<lambda>a. (a, ReqDelete (ch_Hash ch))) (ch_NodeAddresses ch)) cs)"

definition Delete ::
  "gw_env \<Rightarrow> (nat \<times> nat) list \<Rightarrow> request \<Rightarrow> gateway \<Rightarrow> http_response \<times> gateway" where
  "Delete env sched r gw =
     (let w = new_response (clientGone r);
          objectID = pathValue r ''id'';
          (cs, db) = GetChunksByObjectID (db_of env) objectID (database_of_gw gw);
          gw = gw\<lparr>database_of_gw := db\<rparr>
      in case cs of
           Inl err \<Rightarrow> (http_Error ''internal server error'' 500 w, gw)
         | Inr cs \<Rightarrow>
             (let (err, db) = DeleteObject (db_of env) objectID (userID r) (database_of_gw gw);
                  gw = gw\<lparr>database_of_gw := db\<rparr>
              in case err of
                   Some err \<Rightarrow> (http_Error ''failed to delete object'' 500 w, gw)
                 | None \<Rightarrow>
                     (let (ps, fin, c) = fan_out (net_of env) (delete_calls cs) sched (cluster_of_gw gw)
                      in (WriteHeader 204 w, gw\<lparr>cluster_of_gw := c\<rparr>))))"

section \<open>Multipart uploads\<close>

definition InitMultipart :: "gw_env \<Rightarrow> request \<Rightarrow> gateway \<Rightarrow> http_response \<times> gateway" where
  "InitMultipart env r gw =
     (let w = new_response (clientGone r)
      in case decode_struct [''filename'', ''content_type''] (reqJson r) of
           None \<Rightarrow> (http_Error ''invalid request'' 400 w, gw)
         | Some req \<Rightarrow>
             (let (uploadID, db) = CreateMultipartUpload (db_of env) (userID r)
                    (map_get '''' req ''filename'') (map_get '''' req ''content_type'') (database_of_gw gw);
                  gw = gw\<lparr>database_of_gw := db\<rparr>
              in case uploadID of
                   Inl err \<Rightarrow> (http_Error ''internal error'' 500 w, gw)
                 | Inr uploadID \<Rightarrow>
                     (write_json (JObj [(''upload_id'', json_string uploadID)])
                        (set_header ''Content-Type'' ''application/json'' w), gw)))"

text \<open>
  \<open>fmt.Sscanf(s, "%d", &n)\<close> with the error ignored: leading blanks, a sign, digits; \<open>n\<close> stays 0
  when there are none or the number does not fit.
\<close>

definition digits_value :: "string \<Rightarrow> int" where
  "digits_value ds = foldl (\<lambda>n d. 10 * n + int (code d - 48)) 0 ds"

definition is_digit :: "char \<Rightarrow> bool" where
  "is_digit c \<longleftrightarrow> 48 \<le> code c \<and> code c \<le> 57"

definition Sscanf_d :: "string \<Rightarrow> int" where
  "Sscanf_d s =
     (let s = dropWhile (\<lambda>c. c = CHR '' '' \<or> c = CHR 0x09) s;
          neg = (s \<noteq> [] \<and> hd s = CHR ''-'');
          s = (if s \<noteq> [] \<and> (hd s = CHR ''-'' \<or> hd s = CHR ''+'') then tl s else s);
          ds = takeWhile is_digit s;
          n = (if neg then - digits_value ds else digits_value ds)
      in if ds \<noteq> [] \<and> - (2 ^ 63) \<le> n \<and> n < 2 ^ 63 then n else 0)"

text \<open>\<open>io.ReadAll\<close> from \<open>io.LimitReader\<close>: reading stops quietly at the limit.\<close>

definition ReadAll_limited :: "int \<Rightarrow> bytes \<Rightarrow> body_end \<Rightarrow> bytes \<times> bool" where
  "ReadAll_limited limit b bend =
     (if limit \<le> int (length b) then (take (nat limit) b, True)
      else (b, bend = EndEOF))"

definition UploadPart ::
  "gw_env \<Rightarrow> (nat \<times> nat) list \<Rightarrow> HashRing \<Rightarrow> bytes \<Rightarrow> ObjectHandler \<Rightarrow> request \<Rightarrow> gateway \<Rightarrow>
   http_response \<times> gateway" where
  "UploadPart env sched rg rand h r gw =
     (let w = new_response (clientGone r);
          uploadID = pathValue r ''upload_id'';
          partNumber = Sscanf_d (pathValue r ''part_number'');
          (chunkData, ok) = ReadAll_limited (wrap64 (ChunkSizeMB h * 1024 * 1024 + 1024)) (reqBody r) (reqEnd r)
      in if \<not> ok \<or> length chunkData = 0 then (http_Error ''failed to read part'' 400 w, gw)
         else let hash = sha256hex chunkData;
                  compressedChunk = snappy_Encode (snappy_of env) chunkData
              in case Encrypt rand compressedChunk (EncryptionKey h) of
                   Inl err \<Rightarrow> (http_Error (''Failed to encrypt chunk: '' @ error_text err) 500 w, gw)
                 | Inr encryptedChunk \<Rightarrow>
                     (let nodeAddresses = GetNodes rg hash (ReplicationFactor h)
                      in if length nodeAddresses = 0
                         then (http_Error ''no healthy storage node available'' 503 w, gw)
                         else let ((successNodes, saveErrs), c) =
                                    client_SaveChunk (net_of env) sched nodeAddresses hash encryptedChunk (cluster_of_gw gw);
                                  gw = gw\<lparr>cluster_of_gw := c\<rparr>
                              in if int (length successNodes) < quorum h
                                 then (http_Error ''failed to store chunk on storage node (quorum not met)'' 500 w, gw)
                                 else case CreateMultipartChunk (db_of env) uploadID partNumber hash
                                            (int (length chunkData)) successNodes (database_of_gw gw) of
                                        (Inl err, db) \<Rightarrow>
                                          (http_Error ''failed to save chunk metadata'' 500 w, gw\<lparr>database_of_gw := db\<rparr>)
                                      | (Inr _, db) \<Rightarrow> (WriteHeader 200 w, gw\<lparr>database_of_gw := db\<rparr>)))"

definition CompleteMultipart :: "gw_env \<Rightarrow> request \<Rightarrow> gateway \<Rightarrow> http_response \<times> gateway" where
  "CompleteMultipart env r gw =
     (let w = new_response (clientGone r);
          (objectID, db) = CompleteMultipartUpload (db_of env) (pathValue r ''upload_id'') (userID r) (database_of_gw gw);
          gw = gw\<lparr>database_of_gw := db\<rparr>
      in case objectID of
           Inl err \<Rightarrow> (http_Error ''failed to complete upload'' 500 w, gw)
         | Inr objectID \<Rightarrow>
             (write_json (JObj [(''object_id'', json_string objectID)])
                (set_header ''Content-Type'' ''application/json'' w), gw))"


section \<open>Reading the body\<close>

lemma read_loop_step:
  "read_loop n b bend cs =
     (let (buf, rest, err) = ReadFull n b bend;
          cs = (if 0 < length buf then cs @ [buf] else cs)
      in if err = EOF \<or> err = UnexpectedEOF then Some (cs, True)
         else if err \<noteq> NoErr then Some (cs, False)
         else read_loop n rest bend cs)"
  by (rule read_loop.simps)

lemma read_loop_blocks:
  assumes "0 < n"
  shows "read_loop n b bend cs = Some (cs @ blocks_of n b, bend \<noteq> EndErr)"
proof (induction b arbitrary: cs rule: length_induct)
  case (1 b)
  show ?case
  proof (cases "n \<le> length b")
    case True
    with assms have "b \<noteq> []" by auto
    have "read_loop n (drop n b) bend (cs @ [take n b])
        = Some ((cs @ [take n b]) @ blocks_of n (drop n b), bend \<noteq> EndErr)"
      using "1.IH" True assms by (auto intro!: "1.IH" [rule_format])
    then show ?thesis
      using True assms \<open>b \<noteq> []\<close> blocks_of_step [of n b]
      by (subst read_loop_step) (simp add: ReadFull_def)
  next
    case False
    then have "blocks_of n b = (if b = [] then [] else [b])"
      using blocks_of_step [of n b] assms by simp
    with False show ?thesis
      by (subst read_loop_step) (auto simp: ReadFull_def split: body_end.split)
  qed
qed

lemma read_loop_0: "read_loop 0 b bend cs = None"
proof -
  have "n \<noteq> 0" if "read_loop n b bend cs = Some y" for n b cs y
    using that by (rule read_loop.raw_induct [rotated]) (auto simp: ReadFull_def Let_def split: if_splits)
  from this [of 0] show ?thesis by (cases "read_loop 0 b bend cs") simp_all
qed

section \<open>The goroutines of an upload\<close>

lemma sha256hex_plain: "plain_name (sha256hex d)"
proof -
  have "length (sha256hex d) = 64" by (simp add: sha256hex_def)
  moreover have "set (sha256hex d) \<subseteq> set ''0123456789abcdef''" unfolding sha256hex_def by (rule set_hex)
  ultimately show ?thesis by (auto simp: plain_name_def)
qed

lemma set_calls_of:
  "(i, a, req) \<in> set (calls_of (k, t)) \<longleftrightarrow>
     i = k \<and> (\<exists>as hash data. t = Inr (as, hash, data) \<and> a \<in> set as \<and> req = ReqSave hash data)"
  by (cases t) auto

lemma task_calls_from:
  "(i, a, req) \<in> set (concat (map calls_of (enumerate k tasks))) \<longleftrightarrow>
     k \<le> i \<and> i < k + length tasks \<and> (i, a, req) \<in> set (calls_of (i, tasks ! (i - k)))"
proof -
  have "(i, a, req) \<in> set (concat (map calls_of (enumerate k tasks))) \<longleftrightarrow>
      (\<exists>j t. (j, t) \<in> set (enumerate k tasks) \<and> (i, a, req) \<in> set (calls_of (j, t)))"
    by auto
  also have "\<dots> \<longleftrightarrow> (\<exists>t. (i, t) \<in> set (enumerate k tasks) \<and> (i, a, req) \<in> set (calls_of (i, t)))"
    by (auto simp: set_calls_of)
  also have "\<dots> \<longleftrightarrow> k \<le> i \<and> i < k + length tasks \<and> (i, a, req) \<in> set (calls_of (i, tasks ! (i - k)))"
    by (auto simp: in_set_enumerate_eq)
  finally show ?thesis .
qed

lemma task_calls_iff:
  "(i, a, req) \<in> set (task_calls tasks) \<longleftrightarrow> i < length tasks \<and>
   (\<exists>as hash data. tasks ! i = Inr (as, hash, data) \<and> a \<in> set as \<and> req = ReqSave hash data)"
  unfolding task_calls_def by (simp only: task_calls_from set_calls_of) auto

definition call_key :: "nat \<times> call \<Rightarrow> nat \<times> address" where
  "call_key x = (fst x, fst (snd x))"

lemma distinct_task_calls:
  assumes "\<forall>t \<in> set tasks. \<forall>as h d. t = Inr (as, h, d) \<longrightarrow> distinct as"
  shows "distinct (map call_key (task_calls tasks))"
proof -
  have "distinct (map call_key (concat (map calls_of (enumerate k tasks))))" for k
    using assms
  proof (induction tasks arbitrary: k)
    case (Cons t tasks)
    have later: "Suc k \<le> fst x" if "x \<in> set (concat (map calls_of (enumerate (Suc k) tasks)))" for x
      using that task_calls_from [of "fst x" "fst (snd x)" "snd (snd x)" "Suc k" tasks] by (simp only: prod.collapse) simp
    have own: "fst x = k" if "x \<in> set (calls_of (k, t))" for x
      using that by (cases t) auto
    have "distinct (map call_key (calls_of (k, t)))"
      using Cons.prems by (cases t) (auto simp: call_key_def comp_def distinct_map inj_on_def)
    moreover have "distinct (map call_key (concat (map calls_of (enumerate (Suc k) tasks))))"
      using Cons by simp
    moreover have "call_key ` set (calls_of (k, t)) \<inter>
        call_key ` set (concat (map calls_of (enumerate (Suc k) tasks))) = {}"
    proof -
      have "call_key x \<noteq> call_key y" if "x \<in> set (calls_of (k, t))"
        "y \<in> set (concat (map calls_of (enumerate (Suc k) tasks)))" for x y
        using own [OF that(1)] later [OF that(2)] by (auto simp: call_key_def)
      then show ?thesis by blast
    qed
    ultimately show ?case by (simp del: set_concat)
  qed simp
  then show ?thesis by (simp add: task_calls_def)
qed

text \<open>A replica that gives the chunk back.\<close>

definition replica_ok :: "gw_env \<Rightarrow> ObjectHandler \<Rightarrow> cluster \<Rightarrow> bytes \<Rightarrow> address \<Rightarrow> bool" where
  "replica_ok env h c chunk a \<longleftrightarrow> (\<exists>data rand. node_holds c a (sha256hex chunk) data \<and>
     Encrypt rand (snappy_Encode (snappy_of env) chunk) (EncryptionKey h) = Inr data)"

lemma chunk_prepare_ok:
  "chunk_prepare env h rg rand chunk = Inr (as, hash, data) \<longleftrightarrow>
     hash = sha256hex chunk \<and> as = GetNodes rg (sha256hex chunk) (ReplicationFactor h) \<and> as \<noteq> [] \<and>
     Encrypt rand (snappy_Encode (snappy_of env) chunk) (EncryptionKey h) = Inr data"
  by (auto simp: chunk_prepare_def Let_def split: sum.splits)


lemma run_tasks_eq:
  assumes "run_tasks env up h cs c = (results, c')"
  shows "\<exists>tasks ps fin. fan_out (net_of env) (map snd (task_calls tasks)) (up_sched up) c = (ps, fin, c') \<and>
    length tasks = length cs \<and> length results = length cs \<and>
    (\<forall>i < length cs. tasks ! i = chunk_prepare env h (up_rings up i) (up_rand up i) (cs ! i) \<and>
       results ! i = chunk_finish h (task_calls tasks) ps fin (i, cs ! i, tasks ! i))"
proof -
  define tasks where "tasks = map (\<lambda>(i, chunk). chunk_prepare env h (up_rings up i) (up_rand up i) chunk) (enumerate 0 cs)"
  obtain ps fin where f: "fan_out (net_of env) (map snd (task_calls tasks)) (up_sched up) c = (ps, fin, c')"
    "results = map (chunk_finish h (task_calls tasks) ps fin) (enumerate 0 (zip cs tasks))"
    using assms unfolding run_tasks_def Let_def tasks_def by (auto split: prod.splits)
  have len: "length tasks = length cs" by (simp add: tasks_def)
  moreover have "tasks ! i = chunk_prepare env h (up_rings up i) (up_rand up i) (cs ! i)" if "i < length cs" for i
    using that by (simp add: tasks_def nth_enumerate_eq)
  moreover have "results ! i = chunk_finish h (task_calls tasks) ps fin (i, cs ! i, tasks ! i)" if "i < length cs" for i
    using that len by (simp add: f(2) nth_enumerate_eq)
  moreover have "length results = length cs" by (simp add: f(2) len)
  ultimately show ?thesis
    using f(1) by - (rule exI [of _ tasks], rule exI [of _ ps], rule exI [of _ fin], simp)
qed

lemma successNodes_success:
  assumes "fan_out net (map snd calls) sched c = (ps, fin, c')" "distinct (map call_key calls)"
  shows "distinct (successNodes calls ps fin i)"
    "a \<in> set (successNodes calls ps fin i) \<Longrightarrow>
       \<exists>j < length calls. fst (calls ! j) = i \<and> fst (snd (calls ! j)) = a \<and> \<not> is_err (result (ps ! j))"
proof -
  have fin: "set fin = {0..<length calls}" "distinct fin"
    using mset_eq_setD [OF fan_out_finished(3) [OF assms(1)]]
      mset_eq_imp_distinct_iff [OF fan_out_finished(3) [OF assms(1)]] by simp_all
  have "inj_on ((!) (map call_key calls)) {0..<length calls}"
    using assms(2) by (intro inj_on_nth) simp_all
  then have "inj_on (\<lambda>j. call_key (calls ! j)) {0..<length calls}"
    by (simp add: inj_on_def)
  then have "inj_on (\<lambda>j. fst (snd (calls ! j)))
      (set (filter (\<lambda>j. fst (calls ! j) = i \<and> \<not> is_err (result (ps ! j))) fin))"
    using fin(1) by (auto simp: inj_on_def call_key_def)
  with fin(2) show "distinct (successNodes calls ps fin i)"
    by (simp add: successNodes_def distinct_map)
  show "a \<in> set (successNodes calls ps fin i) \<Longrightarrow>
       \<exists>j < length calls. fst (calls ! j) = i \<and> fst (snd (calls ! j)) = a \<and> \<not> is_err (result (ps ! j))"
    using fin(1) by (auto simp: successNodes_def)
qed

text \<open>What a goroutine that reports no error has achieved.\<close>

definition meta_ok :: "gw_env \<Rightarrow> ObjectHandler \<Rightarrow> cluster \<Rightarrow> nat \<Rightarrow> bytes \<Rightarrow> chunkMeta \<Rightarrow> bool" where
  "meta_ok env h c i chunk m \<longleftrightarrow> cm_index m = i \<and> cm_hash m = sha256hex chunk \<and>
     cm_size m = int (length chunk) \<and> distinct (cm_nodes m) \<and> quorum h \<le> int (length (cm_nodes m)) \<and>
     (\<forall>a \<in> set (cm_nodes m). replica_ok env h c chunk a)"

text \<open>
  The chunks of a body that a schedule cannot spoil: different chunks have different hashes, and a chunk occurs twice
  (and is then saved twice under one name, each time encrypted anew) only where no disk cuts a
  write short.
\<close>

definition separable :: "net_env \<Rightarrow> bytes list \<Rightarrow> bool" where
  "separable net cs \<longleftrightarrow> inj_on sha256hex (set cs) \<and> (distinct cs \<or> (\<forall>a. \<not> torn net a))"

lemma separable_distinct: "distinct (map sha256hex cs) \<Longrightarrow> separable net cs"
  by (simp add: separable_def distinct_map)

lemma run_tasks_success:
  assumes "run_tasks env up h cs c = (results, c')" "separable (net_of env) cs"
    and "\<forall>i. ring_wf (up_rings up i)" "i < length cs" "\<not> is_err (results ! i)"
  shows "\<exists>m. results ! i = Inr m \<and> meta_ok env h c' i (cs ! i) m"
proof -
  obtain tasks ps fin where f: "fan_out (net_of env) (map snd (task_calls tasks)) (up_sched up) c = (ps, fin, c')"
    and len: "length tasks = length cs"
    and t: "\<And>j. j < length cs \<Longrightarrow> tasks ! j = chunk_prepare env h (up_rings up j) (up_rand up j) (cs ! j)"
    and res: "results ! i = chunk_finish h (task_calls tasks) ps fin (i, cs ! i, tasks ! i)"
    using run_tasks_eq [OF assms(1)] assms(4) by blast
  let ?calls = "task_calls tasks"
  obtain as hash data where ti: "tasks ! i = Inr (as, hash, data)" "quorum h \<le> int (length (successNodes ?calls ps fin i))"
    and m: "results ! i = Inr \<lparr>cm_index = i, cm_hash = hash, cm_size = int (length (cs ! i)),
      cm_nodes = successNodes ?calls ps fin i\<rparr>"
    using assms(5) unfolding res by (auto simp: chunk_finish_def Let_def split: sum.splits prod.splits if_splits)
  have prep: "hash = sha256hex (cs ! i)"
    "Encrypt (up_rand up i) (snappy_Encode (snappy_of env) (cs ! i)) (EncryptionKey h) = Inr data"
    using ti(1) unfolding t [OF assms(4)] by (simp_all add: chunk_prepare_ok)
  have dist: "distinct (map call_key ?calls)"
  proof (rule distinct_task_calls, intro ballI allI impI)
    fix t as h' d assume "t \<in> set tasks" and eq: "t = Inr (as, h', d)"
    then obtain j where "j < length cs" "t = tasks ! j" using len by (metis in_set_conv_nth)
    with eq t [of j] show "distinct as"
      using assms(3) by (auto simp: chunk_prepare_ok distinct_GetNodes)
  qed
  note S = successNodes_success [OF f dist, where i = i]
  have "replica_ok env h c' (cs ! i) a" if a: "a \<in> set (successNodes ?calls ps fin i)" for a
  proof -
    obtain j where j: "j < length ?calls" "fst (?calls ! j) = i" "fst (snd (?calls ! j)) = a"
      "\<not> is_err (result (ps ! j))" using S(2) [OF a] by blast
    have call: "?calls ! k \<in> set ?calls" if "k < length ?calls" for k using that by (rule nth_mem)
    have reqs: "\<exists>as d. tasks ! fst (?calls ! k) = Inr (as, sha256hex (cs ! fst (?calls ! k)), d) \<and>
        fst (?calls ! k) < length cs \<and> snd (snd (?calls ! k)) = ReqSave (sha256hex (cs ! fst (?calls ! k))) d"
      if "k < length ?calls" for k
    proof -
      obtain i' a' req where k: "?calls ! k = (i', a', req)" by (metis prod_cases3)
      with call [OF that] len obtain as' h' d' where "i' < length cs" "tasks ! i' = Inr (as', h', d')" "req = ReqSave h' d'"
        using task_calls_iff [of i' a' req tasks] by auto
      moreover from this t [of i'] have "h' = sha256hex (cs ! i')" by (metis chunk_prepare_ok)
      ultimately show ?thesis using k by auto
    qed
    have cj: "map snd ?calls ! j = (a, ReqSave hash data)"
      using reqs [OF j(1)] j ti(1) prep(1) by (cases "?calls ! j") auto
    let ?D = "{d. \<exists>rand. Encrypt rand (snappy_Encode (snappy_of env) (cs ! i)) (EncryptionKey h) = Inr d}"
    have "compatible (net_of env) (map snd ?calls) j a hash ?D"
      unfolding compatible_def
    proof (intro conjI allI impI)
      show "plain_name hash" by (simp add: prep(1) sha256hex_plain)
      fix k assume k: "k < length (map snd ?calls)"
      then obtain as' d' where r: "tasks ! fst (?calls ! k) = Inr (as', sha256hex (cs ! fst (?calls ! k)), d')"
        "fst (?calls ! k) < length cs" "snd (snd (?calls ! k)) = ReqSave (sha256hex (cs ! fst (?calls ! k))) d'"
        using reqs [of k] by auto
      with k show "request_ok (snd (map snd ?calls ! k))" by (simp add: sha256hex_plain)
      assume "k \<noteq> j" "fst (map snd ?calls ! k) = a" and ch: "changes (snd (map snd ?calls ! k)) hash"
      then have "call_key (?calls ! k) \<noteq> call_key (?calls ! j)" "fst (snd (?calls ! k)) = fst (snd (?calls ! j))"
        using dist k j by (simp_all add: distinct_conv_nth)
      then have ne: "fst (?calls ! k) \<noteq> i" using j(2) by (auto simp: call_key_def)
      have "sha256hex (cs ! fst (?calls ! k)) = sha256hex (cs ! i)" using ch r(3) k prep(1) by simp
      then have eq: "cs ! fst (?calls ! k) = cs ! i"
        using assms(2,4) r(2) by (auto simp: separable_def dest!: inj_onD)
      with ne r(2) assms(4) have "\<not> distinct cs" by (auto simp: distinct_conv_nth)
      with assms(2) show "\<not> torn (net_of env) a" by (simp add: separable_def)
      have "Encrypt (up_rand up (fst (?calls ! k))) (snappy_Encode (snappy_of env) (cs ! i)) (EncryptionKey h) = Inr d'"
        using r(1) unfolding t [OF r(2)] by (simp add: chunk_prepare_ok eq)
      then show "\<exists>d \<in> ?D. snd (map snd ?calls ! k) = ReqSave hash d"
        using r(3) k by (intro bexI [of _ d']) (auto simp: eq prep(1))
    qed
    then have "\<exists>d \<in> ?D. node_holds c' a hash d"
      using fan_out_save [OF f, of j a hash data ?D] j cj prep(2) by auto
    then show ?thesis unfolding replica_ok_def prep(1) by blast
  qed
  with m prep(1) S(1) ti(2) show ?thesis by (simp add: meta_ok_def)
qed


section \<open>The metadata of an upload\<close>

definition meta_row :: "uuid \<Rightarrow> uuid \<times> chunkMeta \<Rightarrow> chunk_row" where
  "meta_row u im = \<lparr>ch_ID = fst im, ch_ObjectID = u, ch_ChunkIndex = int (cm_index (snd im)),
     ch_Hash = cm_hash (snd im), ch_SizeBytes = cm_size (snd im)\<rparr>"

definition meta_locs :: "uuid \<times> chunkMeta \<Rightarrow> (uuid \<times> address) list" where
  "meta_locs im = map (Pair (fst im)) (cm_nodes (snd im))"

lemma store_chunks_ok:
  assumes "store_chunks env r ms db = (True, db')" "uuids_ok env" "uuid_in env r = Some u"
  shows "\<exists>ids. length ids = length ms \<and> distinct ids \<and> set ids \<inter> ch_ID ` set (chunks db) = {} \<and>
    chunks db' = chunks db @ map (meta_row u) (zip ids ms) \<and>
    chunk_locations db' = chunk_locations db @ concat (map meta_locs (zip ids ms)) \<and>
    objects db' = objects db \<and> users db' = users db"
  using assms(1)
proof (induction ms arbitrary: db)
  case Nil
  then show ?case by simp
next
  case (Cons m ms)
  then obtain db1 where s: "CreateChunk env r (int (cm_index m)) (cm_hash m) (cm_size m) (cm_nodes m) db = (Inr (), db1)"
    "store_chunks env r ms db1 = (True, db')"
    by (auto split: prod.splits sum.splits)
  obtain newID where n: "newID \<notin> ch_ID ` set (chunks db)"
    "same_tables (with_chunk u newID (int (cm_index m)) (cm_hash m) (cm_size m) (cm_nodes m) db) db1"
    using CreateChunk_ok [OF s(1) assms(2)] assms(3) by auto
  note T = tables_eq [OF n(2)]
  obtain ids where ids: "length ids = length ms" "distinct ids" "set ids \<inter> ch_ID ` set (chunks db1) = {}"
    "chunks db' = chunks db1 @ map (meta_row u) (zip ids ms)"
    "chunk_locations db' = chunk_locations db1 @ concat (map meta_locs (zip ids ms))"
    "objects db' = objects db1" "users db' = users db1"
    using Cons.IH [OF s(2)] by blast
  have "chunks db1 = chunks db @ [meta_row u (newID, m)]"
    "chunk_locations db1 = chunk_locations db @ meta_locs (newID, m)"
    using T by (simp_all add: with_chunk_def meta_row_def meta_locs_def)
  moreover have "objects db1 = objects db" "users db1 = users db" using T by (simp_all add: with_chunk_def)
  ultimately show ?case
    using ids n(1) by (intro exI [of _ "newID # ids"]) (auto simp: meta_row_def)
qed

lemma locations_of_metas:
  assumes "distinct ids" "length ids = length ms" "(i, m) \<in> set (zip ids ms)"
    and "fst ` set ls \<inter> set ids = {}"
  shows "map snd (filter (\<lambda>l. fst l = i) (ls @ concat (map meta_locs (zip ids ms)))) = cm_nodes m"
proof -
  have none: "filter (\<lambda>l. fst l = i) ls = []" if "i \<in> set ids"
    using assms(4) that by (auto simp: filter_empty_conv)
  have "filter (\<lambda>l. fst l = i) (concat (map meta_locs (zip ids ms))) = meta_locs (i, m)"
    using assms(1-3)
  proof (induction ids ms rule: list_induct2')
    case (4 j ids m' ms)
    have other: "filter (\<lambda>l. fst l = j) (concat (map meta_locs (zip ids ms))) = []" if "j \<notin> set ids" for j
      using that by (auto simp: filter_empty_conv meta_locs_def dest: set_zip_leftD)
    have own: "filter (\<lambda>l. fst l = i) (meta_locs (j, m')) = (if i = j then meta_locs (j, m') else [])"
      by (auto simp: meta_locs_def intro!: filter_True filter_False)
    show ?case
    proof (cases "i = j")
      case True
      with 4(2-4) have "m = m'" by (auto dest: set_zip_leftD)
      with True 4(2) other [of j] own show ?thesis by simp
    next
      case False
      with 4 own show ?thesis by auto
    qed
  qed simp_all
  then show ?thesis
    using none assms(3) by (auto simp: meta_locs_def comp_def dest: set_zip_leftD)
qed

text \<open>
  What an acknowledged upload leaves: the chunk rows of the object are, by index, exactly the
  chunks, with their hashes and sizes, and every chunk is on at least a quorum of distinct
  nodes, each of which gives it back.
\<close>

definition object_chunks :: "database \<Rightarrow> uuid \<Rightarrow> chunk_row list" where
  "object_chunks db oid = sort_key ch_ChunkIndex (filter (\<lambda>c. ch_ObjectID c = oid) (chunks db))"

definition chunks_stored :: "gw_env \<Rightarrow> ObjectHandler \<Rightarrow> uuid \<Rightarrow> bytes list \<Rightarrow> gateway \<Rightarrow> bool" where
  "chunks_stored env h oid cs gw \<longleftrightarrow>
     (let db = database_of_gw gw; rows = object_chunks db oid
      in length rows = length cs \<and>
         (\<forall>i < length cs. ch_Hash (rows ! i) = sha256hex (cs ! i) \<and>
            ch_SizeBytes (rows ! i) = int (length (cs ! i)) \<and>
            distinct (locations_of db (ch_ID (rows ! i))) \<and>
            quorum h \<le> int (length (locations_of db (ch_ID (rows ! i)))) \<and>
            (\<forall>a \<in> set (locations_of db (ch_ID (rows ! i))). replica_ok env h (cluster_of_gw gw) (cs ! i) a)))"

definition object_stored :: "gw_env \<Rightarrow> ObjectHandler \<Rightarrow> uuid \<Rightarrow> bytes list \<Rightarrow> gateway \<Rightarrow> bool" where
  "object_stored env h oid cs gw \<longleftrightarrow> chunks_stored env h oid cs gw \<and>
     map ch_ChunkIndex (object_chunks (database_of_gw gw) oid) = map int [0..<length cs]"

lemma object_stored_chunks: "object_stored env h oid cs gw \<Longrightarrow> chunks_stored env h oid cs gw"
  by (simp add: object_stored_def)

lemma sort_key_indices:
  assumes "mset (map k xs) = mset (map int [0..<n])"
  shows "length (sort_key k xs) = n" "i < n \<Longrightarrow> k (sort_key k xs ! i) = int i"
proof -
  have "map k (sort_key k xs) = sort (map k xs)"
    using map_sort_key [of k "\<lambda>x. x" xs] by (simp add: comp_def)
  also have "\<dots> = map int [0..<n]"
    by (rule properties_for_sort) (use assms in \<open>simp_all add: sorted_iff_nth_mono\<close>)
  finally have m: "map k (sort_key k xs) = map int [0..<n]" .
  then show l: "length (sort_key k xs) = n" by (metis length_map length_upt diff_zero)
  assume "i < n"
  with l m show "k (sort_key k xs ! i) = int i" by (metis nth_map nth_upt length_map length_upt diff_zero add_0)
qed


lemma sum_lengths: "sum_list (map (int \<circ> length) xss) = int (length (concat xss))"
  by (induction xss) simp_all

lemma oks_all:
  "\<forall>e \<in> set rs. \<not> is_err e \<Longrightarrow> length (oks rs) = length rs \<and> (\<forall>i < length rs. rs ! i = Inr (oks rs ! i))"
proof (induction rs)
  case (Cons x xs)
  then obtain v where "x = Inr v" by (auto simp: not_is_err)
  with Cons show ?case by (auto simp: nth_Cons split: nat.split)
qed simp

lemma CreateObject_ok:
  assumes "CreateObject env u n ct s db = (Inr oid, db')" "uuids_ok env"
  shows "oid \<notin> obj_ID ` set (objects db) \<and> uuid_in env oid = Some oid \<and> chunks db' = chunks db \<and>
    chunk_locations db' = chunk_locations db \<and>
    (\<exists>uid ob. uuid_in env u = Some uid \<and> objects db' = objects db @ [ob] \<and> obj_ID ob = oid \<and>
       obj_UserID ob = uid \<and> obj_Name ob = n \<and> obj_ContentType ob = ct \<and> obj_SizeBytes ob = s)"
  using assms
  by (auto simp: CreateObject_def exec_stmt_ok insert_object_def Let_def uuids_ok_def
      split: prod.splits sum.splits option.splits if_splits)

lemma upload_metadata_201:
  assumes "upload_metadata env r ms w db = (w', db')" "status w = None" "status_code w' = 201"
  shows "\<exists>oid db1. CreateObject (db_of env) (userID r) (upload_name r) (upload_type r) (sum_list (map cm_size ms)) db
      = (Inr oid, db1) \<and> store_chunks (db_of env) oid ms db1 = (True, db')"
  using assms
  by (auto simp: upload_metadata_def Let_def split: prod.splits sum.splits bool.splits)

lemma Upload_201:
  assumes "Upload env up h r gw = Some (Response w, gw')" "status_code w = 201" "0 < chunk_size h"
  defines "cs \<equiv> blocks_of (nat (chunk_size h)) (reqBody r)"
  shows "\<exists>results ms. reqEnd r \<noteq> EndErr \<and> run_tasks env up h cs (cluster_of_gw gw) = (results, cluster_of_gw gw') \<and>
    (\<forall>e \<in> set results. \<not> is_err e) \<and> ms = shuffle (up_order up) (oks results) \<and>
    upload_metadata env r ms (new_response (clientGone r)) (database_of_gw gw) = (w, database_of_gw gw')"
proof -
  obtain results c where rt: "run_tasks env up h cs (cluster_of_gw gw) = (results, c)" by fastforce
  have "read_loop (nat (chunk_size h)) (reqBody r) (reqEnd r) [] = Some (cs, reqEnd r \<noteq> EndErr)"
    using read_loop_blocks [of "nat (chunk_size h)"] assms(3) by (simp add: cs_def)
  then have U: "Upload env up h r gw =
      (let gw = gw\<lparr>cluster_of_gw := c\<rparr>; w = new_response (clientGone r)
       in if reqEnd r = EndErr then Some (Response (http_Error ''failed to read upload body'' 500 w), gw)
          else if \<exists>e \<in> set results. is_err e
          then Some (Response (http_Error ''failed to store chunk concurrently'' 500 w), gw)
          else let (w, db) = upload_metadata env r (shuffle (up_order up) (oks results)) w (database_of_gw gw)
               in Some (Response w, gw\<lparr>database_of_gw := db\<rparr>))"
    using assms(3) rt by (simp add: Upload_def Let_def)
  show ?thesis
    using assms(1,2) rt unfolding U
    by (auto simp: Let_def split: if_splits prod.splits)
qed

lemma upload_stored:
  assumes "run_tasks env up h cs (cluster_of_gw gw) = (results, cluster_of_gw gw')"
    and "\<forall>e \<in> set results. \<not> is_err e" "ms = shuffle p (oks results)"
    and "separable (net_of env) cs" "\<forall>i. ring_wf (up_rings up i)"
    and "chunks_inv (objects db0) (chunks db1) (chunk_locations db1)" "oid \<notin> obj_ID ` set (objects db0)"
    and "store_chunks (db_of env) oid ms db1 = (True, database_of_gw gw')"
    and "uuids_ok (db_of env)" "uuid_in (db_of env) oid = Some oid"
  shows "object_stored env h oid cs gw'"
proof -
  let ?db = "database_of_gw gw'"
  have len: "length results = length cs" using run_tasks_eq [OF assms(1)] by blast
  have R: "length (oks results) = length cs" "\<And>i. i < length cs \<Longrightarrow> results ! i = Inr (oks results ! i)"
    using oks_all [OF assms(2)] len by simp_all
  have M: "meta_ok env h (cluster_of_gw gw') i (cs ! i) (oks results ! i)" if "i < length cs" for i
    using run_tasks_success [OF assms(1,4,5) that] R(2) [OF that] by auto
  obtain ids where ids: "length ids = length ms" "distinct ids" "set ids \<inter> ch_ID ` set (chunks db1) = {}"
    "chunks ?db = chunks db1 @ map (meta_row oid) (zip ids ms)"
    "chunk_locations ?db = chunk_locations db1 @ concat (map meta_locs (zip ids ms))"
    using store_chunks_ok [OF assms(8-10)] by blast
  let ?rows = "map (meta_row oid) (zip ids ms)"
  have "filter (\<lambda>c. ch_ObjectID c = oid) (chunks db1) = []"
    using assms(6,7) by (auto simp: chunks_inv_def filter_empty_conv)
  then have rows: "filter (\<lambda>c. ch_ObjectID c = oid) (chunks ?db) = ?rows"
    by (simp add: ids(4) filter_True meta_row_def)
  have "map ch_ChunkIndex ?rows = map (\<lambda>m. int (cm_index m)) (map snd (zip ids ms))"
    by (simp add: meta_row_def)
  also have "\<dots> = map (\<lambda>m. int (cm_index m)) ms" using ids(1) by (simp only: map_snd_zip)
  finally have "mset (map ch_ChunkIndex ?rows) = mset (map (\<lambda>m. int (cm_index m)) (oks results))"
    by (simp only: mset_map) (simp add: assms(3))
  also have "map (\<lambda>m. int (cm_index m)) (oks results) = map int [0..<length cs]"
    by (rule nth_equalityI) (use R(1) M in \<open>simp_all add: meta_ok_def\<close>)
  finally have idx: "mset (map ch_ChunkIndex ?rows) = mset (map int [0..<length cs])" .
  note S = sort_key_indices [OF idx]
  have "fst ` set (chunk_locations db1) \<inter> set ids = {}"
    using assms(6) ids(3) unfolding chunks_inv_def by blast
  note L = locations_of_metas [OF ids(2,1) _ this]
  have row: "ch_ChunkIndex (sort_key ch_ChunkIndex ?rows ! i) = int i \<and>
      ch_Hash (sort_key ch_ChunkIndex ?rows ! i) = sha256hex (cs ! i) \<and>
      ch_SizeBytes (sort_key ch_ChunkIndex ?rows ! i) = int (length (cs ! i)) \<and>
      locations_of ?db (ch_ID (sort_key ch_ChunkIndex ?rows ! i)) = cm_nodes (oks results ! i)"
    if i: "i < length cs" for i
  proof -
    let ?row = "sort_key ch_ChunkIndex ?rows ! i"
    have "?row \<in> set (sort_key ch_ChunkIndex ?rows)" using i S(1) by (intro nth_mem) simp
    then obtain j m where jm: "(j, m) \<in> set (zip ids ms)" "?row = meta_row oid (j, m)" by auto
    then have "m \<in> set (oks results)" using assms(3) by (auto dest: set_zip_rightD)
    then obtain k where k: "k < length cs" "m = oks results ! k" using R(1) by (metis in_set_conv_nth)
    have "int (cm_index m) = int i" using S(2) [OF i] jm(2) by (simp add: meta_row_def)
    with M [OF k(1)] k have "k = i" by (simp add: meta_ok_def)
    with k M [OF i] have "m = oks results ! i" "cm_hash m = sha256hex (cs ! i)" "cm_size m = int (length (cs ! i))"
      by (simp_all add: meta_ok_def)
    moreover have "locations_of ?db j = cm_nodes m"
      using L [OF jm(1)] by (simp add: locations_of_def ids(5))
    ultimately show ?thesis using S(2) [OF i] jm(2) by (simp add: meta_row_def)
  qed
  have "chunks_stored env h oid cs gw'"
    unfolding chunks_stored_def object_chunks_def Let_def rows
    using S(1) row M by (simp add: meta_ok_def)
  moreover have "map ch_ChunkIndex (object_chunks ?db oid) = map int [0..<length cs]"
  proof (rule nth_equalityI)
    have len: "length (object_chunks ?db oid) = length cs"
      unfolding object_chunks_def rows by (rule S(1))
    then show "length (map ch_ChunkIndex (object_chunks ?db oid)) = length (map int [0..<length cs])" by simp
    fix i assume "i < length (map ch_ChunkIndex (object_chunks ?db oid))"
    then have i: "i < length cs" using len by simp
    then have "ch_ChunkIndex (object_chunks ?db oid ! i) = int i"
      unfolding object_chunks_def rows by (rule S(2))
    with i len show "map ch_ChunkIndex (object_chunks ?db oid) ! i = map int [0..<length cs] ! i" by simp
  qed
  ultimately show ?thesis by (simp add: object_stored_def)
qed


lemma upload_result:
  assumes "Upload env up h r gw = Some (Response w, gw')" "status_code w = 201" "0 < chunk_size h"
    and "db_inv (database_of_gw gw)" "uuids_ok (db_of env)" "\<forall>i. ring_wf (up_rings up i)"
    and "separable (net_of env) (blocks_of (nat (chunk_size h)) (reqBody r))"
  shows "reqEnd r \<noteq> EndErr \<and>
    (\<exists>uid ob. uuid_in (db_of env) (userID r) = Some uid \<and> ob \<in> set (objects (database_of_gw gw')) \<and>
       obj_UserID ob = uid \<and> obj_Name ob = upload_name r \<and> obj_ContentType ob = upload_type r \<and>
       obj_SizeBytes ob = int (length (reqBody r)) \<and> uuid_in (db_of env) (obj_ID ob) = Some (obj_ID ob) \<and>
       objects (database_of_gw gw') = objects (database_of_gw gw) @ [ob] \<and>
       object_stored env h (obj_ID ob) (blocks_of (nat (chunk_size h)) (reqBody r)) gw')"
proof -
  let ?cs = "blocks_of (nat (chunk_size h)) (reqBody r)"
  obtain results ms where eof: "reqEnd r \<noteq> EndErr"
    and rt: "run_tasks env up h ?cs (cluster_of_gw gw) = (results, cluster_of_gw gw')"
    and ok: "\<forall>e \<in> set results. \<not> is_err e" and ms: "ms = shuffle (up_order up) (oks results)"
    and um: "upload_metadata env r ms (new_response (clientGone r)) (database_of_gw gw) = (w, database_of_gw gw')"
    using Upload_201 [OF assms(1-3)] by (elim exE conjE) (rule that)
  obtain oid db1 where co: "CreateObject (db_of env) (userID r) (upload_name r) (upload_type r)
      (sum_list (map cm_size ms)) (database_of_gw gw) = (Inr oid, db1)"
    and st: "store_chunks (db_of env) oid ms db1 = (True, database_of_gw gw')"
    using upload_metadata_201 [OF um _ assms(2)] by auto
  obtain uid ob where O: "oid \<notin> obj_ID ` set (objects (database_of_gw gw))" "uuid_in (db_of env) oid = Some oid"
    "chunks db1 = chunks (database_of_gw gw)" "chunk_locations db1 = chunk_locations (database_of_gw gw)"
    "uuid_in (db_of env) (userID r) = Some uid" "objects db1 = objects (database_of_gw gw) @ [ob]"
    "obj_ID ob = oid" "obj_UserID ob = uid" "obj_Name ob = upload_name r"
    "obj_ContentType ob = upload_type r" "obj_SizeBytes ob = sum_list (map cm_size ms)"
    using CreateObject_ok [OF co assms(5)] by blast
  have inv: "chunks_inv (objects (database_of_gw gw)) (chunks db1) (chunk_locations db1)"
    using assms(4) O(3,4) by (simp add: db_inv_def)
  have stored: "object_stored env h oid ?cs gw'"
    by (rule upload_stored [OF rt ok ms assms(7,6) inv O(1) st assms(5) O(2)])
  have len: "length results = length ?cs" using run_tasks_eq [OF rt] by blast
  have "sum_list (map cm_size ms) = sum_mset (image_mset cm_size (mset (oks results)))"
    by (simp only: ms sum_mset_sum_list [symmetric] mset_map mset_shuffle)
  also have "\<dots> = sum_list (map cm_size (oks results))"
    by (simp only: sum_mset_sum_list [symmetric] mset_map)
  also have "map cm_size (oks results) = map (int \<circ> length) ?cs"
  proof (rule nth_equalityI)
    show "length (map cm_size (oks results)) = length (map (int \<circ> length) ?cs)"
      using oks_all [OF ok] len by simp
    fix i assume "i < length (map cm_size (oks results))"
    then have i: "i < length ?cs" using oks_all [OF ok] len by simp
    obtain m where "results ! i = Inr m" "meta_ok env h (cluster_of_gw gw') i (?cs ! i) m"
      using run_tasks_success [OF rt assms(7,6) i] ok len i by (metis nth_mem)
    with oks_all [OF ok] len i show "map cm_size (oks results) ! i = map (int \<circ> length) ?cs ! i"
      by (auto simp: meta_ok_def)
  qed
  also have "sum_list (map (int \<circ> length) ?cs) = int (length (concat ?cs))"
    by (simp only: sum_lengths)
  also have "concat ?cs = reqBody r" using assms(3) by (simp add: concat_blocks_of)
  finally have size: "sum_list (map cm_size ms) = int (length (reqBody r))" .
  have "objects (database_of_gw gw') = objects db1"
    using store_chunks_ok [OF st assms(5) O(2)] by blast
  with eof stored O size show ?thesis by auto
qed

section \<open>Reading back\<close>

lemma client_GetChunk_holds:
  assumes "client_GetChunk net a hash c = (Inr d, c')" "plain_name hash"
  shows "node_holds c a hash d"
proof -
  obtain r c1 where call: "client_call net a (ReqGet hash) c = (r, c1)" by fastforce
  from call obtain v where v: "r = Inr v"
    using assms(1) by (cases r) (auto simp: client_GetChunk_def)
  show ?thesis
  proof (cases rule: client_call_cases [of c a net "ReqGet hash"])
    case (ran c1' r' c2)
    then have op: "client_operation net a (ReqGet hash) c1' = (Inr v, c2)" using call v by auto
    obtain c3 where c3: "getClient net a c1' = (Inr a, c3)" "rpc net a (ReqGet hash) c3 = (Inr v, c2)"
      using op by (auto simp: client_operation_def getClient_def split: if_splits)
    have "storage_nodes c3 = storage_nodes c" using c3(1) ran(2) getClient_frame(1) [of net a c1'] by simp
    moreover obtain n where "storage_nodes c3 a = Some n"
      "map_sum id RepData (node_GetChunk (rpc_io net a (rpc_no c3 a)) hash n) = Inr v"
      using c3(2) by (auto simp: rpc_def Let_def split: option.splits fault.splits)
    ultimately show ?thesis
      using assms(1) call v
      by (cases "node_GetChunk (rpc_io net a (rpc_no c3 a)) hash n")
        (auto simp: client_GetChunk_def node_holds_def node_GetChunk_eq)
  qed (use call v in simp)
qed

text \<open>A call that reads leaves every chunk of every node as it is.\<close>

lemma client_GetChunk_frame:
  "storage_nodes (snd (client_GetChunk net a hash c)) = storage_nodes c"
proof -
  have serve: "snd (serve io (ReqGet hash) n) = n" for io n by simp
  have op: "storage_nodes (snd (client_operation net a (ReqGet hash) c)) = storage_nodes c" for c
  proof
    fix b show "storage_nodes (snd (client_operation net a (ReqGet hash) c)) b = storage_nodes c b"
      using client_operation_storage [of net a "ReqGet hash" c b] by (auto simp: serve)
  qed
  have "storage_nodes (snd (client_call net a (ReqGet hash) c)) = storage_nodes c"
  proof (cases rule: client_call_cases [of c a net "ReqGet hash"])
    case (ran c1 r c2)
    then have "storage_nodes c2 = storage_nodes c" using op [of c1] by simp
    with ran(4) show ?thesis by (simp add: breaker_leave_eq)
  qed simp
  then show ?thesis
    by (cases "client_call net a (ReqGet hash) c")
      (auto simp: client_GetChunk_def split: sum.split node_reply.split)
qed

lemma replica_ok_cong:
  "storage_nodes c' = storage_nodes c \<Longrightarrow> replica_ok env h c' = replica_ok env h c"
  by (simp add: replica_ok_def node_holds_def fun_eq_iff)

lemma try_replica_frame: "storage_nodes (snd (try_replica env h hash a c)) = storage_nodes c"
proof -
  obtain r c1 where r: "client_GetChunk (net_of env) a hash c = (r, c1)" by fastforce
  then have "storage_nodes c1 = storage_nodes c" using client_GetChunk_frame by (metis snd_conv)
  with r show ?thesis by (auto simp: try_replica_def split: sum.split option.split)
qed

text \<open>Whatever a replica gives has the hash; a good replica gives the chunk or nothing.\<close>

lemma try_replica_hash: "try_replica env h hash a c = (Some d, c') \<Longrightarrow> sha256hex d = hash"
  by (auto simp: try_replica_def split: prod.splits sum.splits option.splits if_splits)

lemma try_replica_good:
  assumes "replica_ok env h c chunk a" "snappy_ok (snappy_of env)"
    and "try_replica env h (sha256hex chunk) a c = (Some d, c')"
  shows "d = chunk"
proof -
  obtain data c1 where g: "client_GetChunk (net_of env) a (sha256hex chunk) c = (Inr data, c1)"
    using assms(3) by (auto simp: try_replica_def split: prod.splits sum.splits)
  have "node_holds c a (sha256hex chunk) data" by (rule client_GetChunk_holds [OF g sha256hex_plain])
  with assms(1) obtain rand where
    "Encrypt rand (snappy_Encode (snappy_of env) chunk) (EncryptionKey h) = Inr data"
    by (auto simp: replica_ok_def node_holds_def)
  from Decrypt_Encrypt [OF this] show ?thesis
    using assms(2,3) g by (simp add: try_replica_def snappy_ok_def split: if_splits)
qed


section \<open>\<open>Download\<close> sends what the metadata says\<close>

lemma fetch_chunk_frame: "storage_nodes (snd (fetch_chunk env h hash as c)) = storage_nodes c"
proof (induction as arbitrary: c)
  case (Cons a as)
  obtain r c1 where "try_replica env h hash a c = (r, c1)" by fastforce
  with Cons try_replica_frame [of env h hash a c] show ?case by (auto split: option.split)
qed simp

lemma fetch_chunk_hash: "fetch_chunk env h hash as c = (Some d, c') \<Longrightarrow> sha256hex d = hash"
  by (induction as arbitrary: c) (auto split: prod.splits option.splits dest: try_replica_hash)

lemma fetch_chunk_good:
  assumes "snappy_ok (snappy_of env)"
  shows "\<forall>a \<in> set as. replica_ok env h c chunk a \<Longrightarrow>
    fetch_chunk env h (sha256hex chunk) as c = (Some d, c') \<Longrightarrow> d = chunk"
proof (induction as arbitrary: c)
  case (Cons a as)
  obtain r c1 where r: "try_replica env h (sha256hex chunk) a c = (r, c1)" by fastforce
  then have "storage_nodes c1 = storage_nodes c" using try_replica_frame by (metis snd_conv)
  then have "replica_ok env h c1 = replica_ok env h c" by (rule replica_ok_cong)
  with Cons.prems(1) have good: "replica_ok env h c chunk a" "\<forall>x \<in> set as. replica_ok env h c1 chunk x"
    by simp_all
  show ?case
  proof (cases r)
    case None
    with Cons.prems(2) r Cons.IH [OF good(2)] show ?thesis by simp
  next
    case (Some d')
    with Cons.prems(2) r try_replica_good [OF good(1) assms, of d' c1] show ?thesis by simp
  qed
qed simp

text \<open>
  The body that \<open>send_chunks\<close> appends: some of the chunks from the first on, each with its hash,
  then an error text if a chunk could not be had.
\<close>

lemma response_Write_body:
  "response_Write p w = (ok, w') \<Longrightarrow>
     status_code w' = (if status w = None then 200 else status_code w) \<and> status w' \<noteq> None \<and>
     body w' = (if ok then body w @ [p] else body w) \<and>
     (writes_left w = None \<longrightarrow> ok \<and> writes_left w' = None)"
  by (cases "status w")
    (auto simp: response_Write_def WriteHeader_def status_code_def Let_def split: option.splits nat.splits)

lemma http_Error_body:
  "\<exists>tail. body (http_Error m s w) = body w @ tail \<and> (tail = [] \<or> tail = [ErrorText m]) \<and>
     (writes_left w = None \<longrightarrow> tail \<noteq> [])"
  by (cases "status w") (auto simp: http_Error_def set_header_def WriteHeader_def response_Write_def Let_def
      split: option.split nat.split)

lemma send_chunks_body:
  assumes "send_chunks env h cs w c = (w', c')"
  shows "\<exists>ds tail. body w' = body w @ map Raw ds @ tail \<and> length ds \<le> length cs \<and>
    (\<forall>i < length ds. sha256hex (ds ! i) = ch_Hash (cs ! i)) \<and>
    (tail = [] \<or> tail = [ErrorText ''all replicas failed or corrupted'']) \<and>
    (writes_left w = None \<longrightarrow> (tail = []) = (length ds = length cs))"
  using assms
proof (induction cs arbitrary: w c)
  case Nil
  then show ?case by auto
next
  case (Cons chunk cs)
  obtain f c1 where f: "fetch_chunk env h (ch_Hash chunk) (ch_NodeAddresses chunk) c = (f, c1)" by fastforce
  show ?case
  proof (cases f)
    case None
    obtain tail where "body (http_Error ''all replicas failed or corrupted'' 500 w) = body w @ tail"
      "tail = [] \<or> tail = [ErrorText ''all replicas failed or corrupted'']" "writes_left w = None \<longrightarrow> tail \<noteq> []"
      using http_Error_body [of "''all replicas failed or corrupted''" 500 w]
      by (elim exE conjE) (rule that)
    with None f Cons.prems show ?thesis by - (rule exI [of _ "[]"], rule exI [of _ tail], auto)
  next
    case (Some d)
    obtain ok w1 where w: "response_Write (Raw d) w = (ok, w1)" by fastforce
    note W = response_Write_body [OF w]
    have d: "sha256hex d = ch_Hash chunk" using fetch_chunk_hash f Some by simp
    show ?thesis
    proof (cases ok)
      case False
      with W w f Some Cons.prems show ?thesis by (intro exI [of _ "[]"]) auto
    next
      case True
      with w f Some Cons.prems have "send_chunks env h cs w1 c1 = (w', c')" by simp
      from Cons.IH [OF this] obtain ds tail where IH: "body w' = body w1 @ map Raw ds @ tail"
        "length ds \<le> length cs" "\<forall>i < length ds. sha256hex (ds ! i) = ch_Hash (cs ! i)"
        "tail = [] \<or> tail = [ErrorText ''all replicas failed or corrupted'']"
        "writes_left w1 = None \<longrightarrow> (tail = []) = (length ds = length cs)" by (elim exE conjE) (rule that)
      have "\<forall>i < length (d # ds). sha256hex ((d # ds) ! i) = ch_Hash ((chunk # cs) ! i)"
        using IH(3) d by (auto simp: nth_Cons split: nat.split)
      with IH W True show ?thesis by (intro exI [of _ "d # ds"] exI [of _ tail]) auto
    qed
  qed
qed

text \<open>Where every replica is good, the chunks sent are the right ones.\<close>

lemma send_chunks_good:
  assumes "snappy_ok (snappy_of env)"
  shows "send_chunks env h cs w c = (w', c') \<Longrightarrow> length cs = length chunks_data \<Longrightarrow>
    \<forall>i < length cs. ch_Hash (cs ! i) = sha256hex (chunks_data ! i) \<and>
      (\<forall>a \<in> set (ch_NodeAddresses (cs ! i)). replica_ok env h c (chunks_data ! i) a) \<Longrightarrow>
    \<exists>k tail. body w' = body w @ map Raw (take k chunks_data) @ tail \<and>
      (tail = [] \<or> tail = [ErrorText ''all replicas failed or corrupted''])"
proof (induction cs arbitrary: w c chunks_data)
  case Nil
  then show ?case by (intro exI [of _ 0]) simp
next
  case (Cons chunk cs)
  obtain dat rest where cd: "chunks_data = dat # rest" using Cons.prems(2) by (cases chunks_data) auto
  obtain f c1 where f: "fetch_chunk env h (ch_Hash chunk) (ch_NodeAddresses chunk) c = (f, c1)" by fastforce
  have c1: "storage_nodes c1 = storage_nodes c" using f fetch_chunk_frame by (metis snd_conv)
  have hash: "ch_Hash chunk = sha256hex dat" "\<forall>a \<in> set (ch_NodeAddresses chunk). replica_ok env h c dat a"
    using Cons.prems(3) cd by force+
  show ?case
  proof (cases f)
    case None
    from http_Error_body [of "''all replicas failed or corrupted''" 500 w] None f Cons.prems show ?thesis
      by (intro exI [of _ 0]) auto
  next
    case (Some d)
    then have d: "d = dat" using fetch_chunk_good [OF assms hash(2)] f hash(1) by simp
    obtain ok w1 where w: "response_Write (Raw d) w = (ok, w1)" by fastforce
    note W = response_Write_body [OF w]
    show ?thesis
    proof (cases ok)
      case False
      with W w f Some Cons.prems show ?thesis by (intro exI [of _ 0]) auto
    next
      case True
      with w f Some Cons.prems have s: "send_chunks env h cs w1 c1 = (w', c')" by simp
      have "\<forall>i < length cs. ch_Hash (cs ! i) = sha256hex (rest ! i) \<and>
          (\<forall>a \<in> set (ch_NodeAddresses (cs ! i)). replica_ok env h c1 (rest ! i) a)"
        using Cons.prems(3) cd replica_ok_cong [OF c1] by auto
      from Cons.IH [OF s _ this] obtain k tail where "body w' = body w1 @ map Raw (take k rest) @ tail"
        "tail = [] \<or> tail = [ErrorText ''all replicas failed or corrupted'']"
        using Cons.prems(2) cd by auto
      with W True d cd show ?thesis by (intro exI [of _ "Suc k"] exI [of _ tail]) simp
    qed
  qed
qed


lemma set_header_body [simp]: "body (set_header k v w) = body w"
  "writes_left (set_header k v w) = writes_left w"
  by (simp_all add: set_header_def)

lemma GetObjectByID_ok:
  assumes "GetObjectByID env i u db = (Inr (Some ob), db')"
  shows "\<exists>oid uid. uuid_in env i = Some oid \<and> uuid_in env u = Some uid \<and> ob \<in> set (objects db) \<and>
    obj_ID ob = oid \<and> obj_UserID ob = uid \<and> same_tables db db'"
  using assms unfolding GetObjectByID_def Let_def
  by (auto simp: exec_stmt_ok dest!: filter_eq_ConsD split: prod.splits sum.splits option.splits list.splits if_splits)

text \<open>What a request that got as far as the chunks has read.\<close>

lemma Download_cases:
  obtains (early) "body (fst (Download env h r gw)) = [] \<or> (\<exists>m. body (fst (Download env h r gw)) = [ErrorText m])"
  | (chunks) ob db1 cs db2 w where
    "GetObjectByID (db_of env) (pathValue r ''id'') (userID r) (database_of_gw gw) = (Inr (Some ob), db1)"
    "GetChunksByObjectID (db_of env) (pathValue r ''id'') db1 = (Inr cs, db2)"
    "w = set_header ''Content-Disposition'' (''attachment; filename=\"'' @ obj_Name ob @ ''\"'')
       (set_header ''Content-Type'' (obj_ContentType ob) (new_response (clientGone r)))"
    "Download env h r gw = (fst (send_chunks env h cs w (cluster_of_gw gw)),
       \<lparr>cluster_of_gw = snd (send_chunks env h cs w (cluster_of_gw gw)), database_of_gw = db2\<rparr>)"
proof -
  let ?w = "new_response (clientGone r)"
  have err: "body (http_Error m s ?w) = [] \<or> (\<exists>m'. body (http_Error m s ?w) = [ErrorText m'])" for m s
    using http_Error_body [of m s ?w] by auto
  obtain o1 db1 where g: "GetObjectByID (db_of env) (pathValue r ''id'') (userID r) (database_of_gw gw) = (o1, db1)"
    by fastforce
  obtain o2 db2 where g2: "GetChunksByObjectID (db_of env) (pathValue r ''id'') db1 = (o2, db2)" by fastforce
  show thesis
  proof (cases "\<exists>ob cs. o1 = Inr (Some ob) \<and> o2 = Inr cs")
    case True
    then obtain ob cs where "o1 = Inr (Some ob)" "o2 = Inr cs" by blast
    with g g2 show thesis by (intro chunks [OF _ _ refl]) (auto simp: Download_def Let_def split_beta)
  next
    case False
    with g g2 err show thesis
      by (intro early) (auto simp: Download_def Let_def split: sum.split option.split)
  qed
qed

text \<open>The chunk rows of an object by index, with locations, as the join returns them.\<close>

definition object_rows :: "database \<Rightarrow> uuid \<Rightarrow> (int \<times> uuid \<times> string \<times> int) list" where
  "object_rows db oid = sort_key fst (map chunk_fields (located_chunks db (\<lambda>c. ch_ObjectID c = oid)))"

definition row_hash :: "int \<times> uuid \<times> string \<times> int \<Rightarrow> string" where
  "row_hash f = fst (snd (snd f))"

lemma row_hash_fields [simp]: "row_hash (chunk_fields c) = ch_Hash c"
  by (simp add: row_hash_def chunk_fields_def)

lemma chunks_are_rows:
  assumes "GetChunksByObjectID env i db = (Inr cs, db')"
  shows "\<exists>oid m. uuid_in env i = Some oid \<and> map chunk_fields cs = take m (object_rows db oid) \<and>
    (rows_cut env (stmt_no db) = None \<longrightarrow> map chunk_fields cs = object_rows db oid) \<and>
    (\<forall>c \<in> set cs. set (ch_NodeAddresses c) = set (locations_of db (ch_ID c)) \<and>
       length (ch_NodeAddresses c) = length (locations_of db (ch_ID c)))"
proof -
  obtain oid where o: "uuid_in env i = Some oid"
    "\<forall>c \<in> set cs. mset (ch_NodeAddresses c) = mset (locations_of db (ch_ID c))"
    "map chunk_fields cs = fetch_rows env (stmt_no db) (object_rows db oid)"
    using GetChunksByObjectID_ok [OF assms] unfolding object_rows_def by blast
  moreover have "\<exists>m. map chunk_fields cs = take m (object_rows db oid)"
  proof (cases "rows_cut env (stmt_no db)")
    case None
    with o(3) have "map chunk_fields cs = take (length (object_rows db oid)) (object_rows db oid)"
      by (simp add: fetch_rows_def)
    then show ?thesis by blast
  next
    case (Some m)
    with o(3) show ?thesis by (auto simp: fetch_rows_def)
  qed
  moreover have "rows_cut env (stmt_no db) = None \<longrightarrow> map chunk_fields cs = object_rows db oid"
    using o(3) by (simp add: fetch_rows_def)
  moreover have "\<forall>c \<in> set cs. set (ch_NodeAddresses c) = set (locations_of db (ch_ID c)) \<and>
       length (ch_NodeAddresses c) = length (locations_of db (ch_ID c))"
    using o(2) by (auto dest: mset_eq_setD mset_eq_length)
  ultimately show ?thesis by (elim exE) (intro exI conjI)
qed

lemma Download_chunks:
  assumes "Download env h r gw = (w, gw')"
  shows "\<exists>ds tail. body w = map Raw ds @ tail \<and> (tail = [] \<or> (\<exists>m. tail = [ErrorText m])) \<and>
    (ds \<noteq> [] \<longrightarrow> (\<exists>ob \<in> set (objects (database_of_gw gw)).
       uuid_in (db_of env) (pathValue r ''id'') = Some (obj_ID ob) \<and>
       uuid_in (db_of env) (userID r) = Some (obj_UserID ob) \<and>
       length ds \<le> length (object_rows (database_of_gw gw) (obj_ID ob)) \<and>
       (\<forall>i < length ds. sha256hex (ds ! i) = row_hash (object_rows (database_of_gw gw) (obj_ID ob) ! i))))"
proof (cases rule: Download_cases [of env h r gw])
  case early
  with assms show ?thesis
    by - (rule exI [of _ "[]"], rule exI [of _ "body w"], auto)
next
  case (chunks ob db1 cs db2 w0)
  obtain uid where ob: "uuid_in (db_of env) (pathValue r ''id'') = Some (obj_ID ob)"
    "uuid_in (db_of env) (userID r) = Some (obj_UserID ob)" "ob \<in> set (objects (database_of_gw gw))"
    "same_tables (database_of_gw gw) db1"
    using GetObjectByID_ok [OF chunks(1)] by auto
  obtain m where m: "map chunk_fields cs = take m (object_rows db1 (obj_ID ob))"
    using chunks_are_rows [OF chunks(2)] ob(1) by auto
  have rows: "object_rows db1 = object_rows (database_of_gw gw)"
    using tables_eq [OF ob(4)] by (simp add: fun_eq_iff object_rows_def located_chunks_def locations_of_def)
  have "body w0 = []" using chunks(3) by simp
  then obtain ds tail where ds: "body w = map Raw ds @ tail" "length ds \<le> length cs"
    "\<forall>i < length ds. sha256hex (ds ! i) = ch_Hash (cs ! i)"
    "tail = [] \<or> tail = [ErrorText ''all replicas failed or corrupted'']"
    using send_chunks_body [of env h cs w0 "cluster_of_gw gw" w, OF prod_eqI] chunks(4) assms by auto
  have "ch_Hash (cs ! i) = row_hash (object_rows (database_of_gw gw) (obj_ID ob) ! i)" if "i < length cs" for i
    using that m by (metis length_map length_take min_less_iff_conj nth_map nth_take row_hash_fields rows)
  moreover have "length cs \<le> length (object_rows (database_of_gw gw) (obj_ID ob))"
    using arg_cong [OF m, of length] rows by simp
  ultimately show ?thesis
    using ds ob by (intro exI [of _ ds] exI [of _ tail]) (auto intro!: bexI [of _ ob])
qed


section \<open>Reading back what was stored\<close>

text \<open>The same stored data, whatever else has happened to breakers, connections and the clock.\<close>

definition same_store :: "gateway \<Rightarrow> gateway \<Rightarrow> bool" where
  "same_store gw gw2 \<longleftrightarrow> storage_nodes (cluster_of_gw gw2) = storage_nodes (cluster_of_gw gw) \<and>
     same_tables (database_of_gw gw) (database_of_gw gw2)"

lemma stored_rows:
  assumes "chunks_stored env h oid cs gw" "0 \<le> ReplicationFactor h"
    and "same_tables (database_of_gw gw) db"
  shows "\<exists>rows :: chunk_row list. object_rows db oid = map chunk_fields rows \<and> length rows = length cs \<and>
    (\<forall>i < length cs. ch_Hash (rows ! i) = sha256hex (cs ! i) \<and>
       quorum h \<le> int (card (set (locations_of db (ch_ID (rows ! i))))) \<and>
       (\<forall>a \<in> set (locations_of db (ch_ID (rows ! i))). replica_ok env h (cluster_of_gw gw) (cs ! i) a))"
proof -
  let ?db = "database_of_gw gw"
  let ?rows = "sort_key ch_ChunkIndex (filter (\<lambda>c. ch_ObjectID c = oid) (chunks ?db))"
  have len: "length ?rows = length cs"
    and row: "\<And>i. i < length cs \<Longrightarrow> ch_Hash (?rows ! i) = sha256hex (cs ! i) \<and>
       distinct (locations_of ?db (ch_ID (?rows ! i))) \<and>
       quorum h \<le> int (length (locations_of ?db (ch_ID (?rows ! i)))) \<and>
       (\<forall>a \<in> set (locations_of ?db (ch_ID (?rows ! i))). replica_ok env h (cluster_of_gw gw) (cs ! i) a)"
    using assms(1) by (simp_all add: chunks_stored_def object_chunks_def Let_def)
  have q: "0 < quorum h" using assms(2) by (simp add: quorum_def go_div_nonneg)
  have loc: "locations_of ?db (ch_ID c) \<noteq> []" if "c \<in> set (filter (\<lambda>c. ch_ObjectID c = oid) (chunks ?db))" for c
  proof -
    from that have "c \<in> set ?rows" by simp
    then obtain i where "i < length cs" "c = ?rows ! i" using len by (metis in_set_conv_nth)
    with row [of i] q show ?thesis by auto
  qed
  have T: "chunks db = chunks ?db" "locations_of db = locations_of ?db"
    using tables_eq [OF assms(3)] by (simp_all add: locations_of_def fun_eq_iff)
  have "located_chunks db (\<lambda>c. ch_ObjectID c = oid) = filter (\<lambda>c. ch_ObjectID c = oid) (chunks ?db)"
    using loc by (auto simp: located_chunks_def T intro!: filter_cong)
  then have "object_rows db oid = map chunk_fields ?rows"
    by (simp add: object_rows_def map_sort_key [of chunk_fields fst, unfolded fst_chunk_fields, symmetric])
  moreover have "quorum h \<le> int (card (set (locations_of ?db (ch_ID (?rows ! i)))))" if "i < length cs" for i
    using row [OF that] by (simp add: distinct_card)
  ultimately show ?thesis
    using len row by - (rule exI [of _ ?rows], simp add: T)
qed

lemma download_good:
  assumes "chunks_stored env h oid cs gw" "0 \<le> ReplicationFactor h" "snappy_ok (snappy_of env2)"
    and "snappy_of env2 = snappy_of env" "same_store gw gw2"
    and "uuid_in (db_of env2) (pathValue r ''id'') = Some oid"
    and "GetObjectByID (db_of env2) (pathValue r ''id'') (userID r) (database_of_gw gw2) = (Inr (Some ob), db1)"
    and "GetChunksByObjectID (db_of env2) (pathValue r ''id'') db1 = (Inr qs, db2)"
  shows "length qs \<le> length cs \<and> (rows_cut (db_of env2) (stmt_no db1) = None \<longrightarrow> length qs = length cs) \<and>
    (\<forall>i < length qs. ch_Hash (qs ! i) = sha256hex (take (length qs) cs ! i) \<and>
       quorum h \<le> int (card (set (ch_NodeAddresses (qs ! i)))) \<and>
       (\<forall>a \<in> set (ch_NodeAddresses (qs ! i)). replica_ok env2 h (cluster_of_gw gw2) (take (length qs) cs ! i) a))"
proof -
  have s: "same_tables (database_of_gw gw) db1"
    using GetObjectByID_ok [OF assms(7)] assms(5) by (auto simp: same_store_def intro: same_tables_trans)
  obtain rows :: "chunk_row list" where rows: "object_rows db1 oid = map chunk_fields rows" "length rows = length cs"
    "\<And>i. i < length cs \<Longrightarrow> ch_Hash (rows ! i) = sha256hex (cs ! i) \<and>
       quorum h \<le> int (card (set (locations_of db1 (ch_ID (rows ! i))))) \<and>
       (\<forall>a \<in> set (locations_of db1 (ch_ID (rows ! i))). replica_ok env h (cluster_of_gw gw) (cs ! i) a)"
    using stored_rows [OF assms(1,2) s] by auto
  obtain m where m: "map chunk_fields qs = take m (map chunk_fields rows)"
    and full: "rows_cut (db_of env2) (stmt_no db1) = None \<longrightarrow> map chunk_fields qs = map chunk_fields rows"
    and adr: "\<And>c. c \<in> set qs \<Longrightarrow> set (ch_NodeAddresses c) = set (locations_of db1 (ch_ID c)) \<and>
       length (ch_NodeAddresses c) = length (locations_of db1 (ch_ID c))"
    using chunks_are_rows [OF assms(8)] unfolding assms(6) option.inject
    by (elim exE conjE) (rule that, simp_all add: rows(1) [symmetric])
  have rep: "replica_ok env2 h (cluster_of_gw gw2) = replica_ok env h (cluster_of_gw gw)"
    using assms(4,5) by (simp add: same_store_def replica_ok_def node_holds_def fun_eq_iff)
  have len: "length qs \<le> length cs" using arg_cong [OF m, of length] rows(2) by simp
  have "ch_Hash (qs ! i) = sha256hex (take (length qs) cs ! i) \<and>
      quorum h \<le> int (card (set (ch_NodeAddresses (qs ! i)))) \<and>
      (\<forall>a \<in> set (ch_NodeAddresses (qs ! i)). replica_ok env2 h (cluster_of_gw gw2) (take (length qs) cs ! i) a)"
    if i: "i < length qs" for i
  proof -
    have "map chunk_fields qs ! i = take m (map chunk_fields rows) ! i" by (simp only: m)
    moreover have "i < m" "i < length rows" using i arg_cong [OF m, of length] by simp_all
    ultimately have "chunk_fields (qs ! i) = chunk_fields (rows ! i)" using i by simp
    then have f: "ch_Hash (qs ! i) = ch_Hash (rows ! i)" "ch_ID (qs ! i) = ch_ID (rows ! i)"
      by (simp_all add: chunk_fields_def)
    have ics: "i < length cs" "take (length qs) cs ! i = cs ! i" using i len by simp_all
    have a: "set (ch_NodeAddresses (qs ! i)) = set (locations_of db1 (ch_ID (rows ! i)))"
      using adr [OF nth_mem [OF i]] f(2) by simp
    with f(1) rows(3) [OF ics(1)] show ?thesis by (simp only: ics(2) rep) simp
  qed
  moreover have "rows_cut (db_of env2) (stmt_no db1) = None \<longrightarrow> length qs = length cs"
    using arg_cong [of _ _ length, OF full [THEN mp]] rows(2) by auto
  ultimately show ?thesis using len by blast
qed

lemma download_prefix:
  assumes "chunks_stored env h oid cs gw" "0 \<le> ReplicationFactor h" "snappy_ok (snappy_of env2)"
    and "snappy_of env2 = snappy_of env" "same_store gw gw2"
    and "uuid_in (db_of env2) (pathValue r ''id'') = Some oid"
  shows "\<exists>k tail. body (fst (Download env2 h r gw2)) = map Raw (take k cs) @ tail \<and>
    (tail = [] \<or> (\<exists>m. tail = [ErrorText m]))"
proof (cases rule: Download_cases [of env2 h r gw2])
  case early
  then show ?thesis by - (rule exI [of _ 0], rule exI [of _ "body (fst (Download env2 h r gw2))"], auto)
next
  case (chunks ob db1 qs db2 w0)
  note G = download_good [OF assms chunks(1,2)]
  obtain w' c' where s: "send_chunks env2 h qs w0 (cluster_of_gw gw2) = (w', c')" by fastforce
  have "length qs = length (take (length qs) cs)" using G by simp
  then obtain k tail where "body w' = body w0 @ map Raw (take k (take (length qs) cs)) @ tail"
    "tail = [] \<or> tail = [ErrorText ''all replicas failed or corrupted'']"
    using send_chunks_good [OF assms(3) s, of "take (length qs) cs"] G by auto
  moreover have "body w0 = []" using chunks(3) by simp
  ultimately show ?thesis
    using chunks(4) s by - (rule exI [of _ "min k (length qs)"], rule exI [of _ tail], auto)
qed

end
