(* ===== verification/ObjectStore.thy ===== *)
theory ObjectStore imports ObjectHandler begin

text \<open>
  What the object handlers promise together: an acknowledged upload is on a quorum of nodes, a
  download never sends anything but the chunks of the caller's object, and what was uploaded
  comes back. Then where the handlers fall short of that.
\<close>

section \<open>Downloads while enough nodes answer\<close>

lemma cluster_calm_call:
  assumes "cluster_calm c A" "request_ok req" "a \<in> A \<longrightarrow> \<not> is_err (fst (client_call net a req c))"
  shows "cluster_calm (snd (client_call net a req c)) A"
proof (cases rule: client_call_cases [of c a net req])
  case rejected
  with assms(1) show ?thesis by simp
next
  case (ran c1 r c2)
  have "cluster_calm c1 A"
    using assms(1) ran(1,2) by (auto simp: cluster_calm_def cb_enter_def split: if_splits)
  then have "cluster_calm c2 A"
    using cluster_calm_operation [OF _ assms(2), of c1 A net a] ran(3) by simp
  with ran(4) assms(3) show ?thesis
    by (auto simp: breaker_leave_eq cluster_calm_def cb_leave_def)
qed

lemma client_call_get_calm:
  assumes "net_calm net A" "cluster_calm c A" "a \<in> A" "node_holds c a h d"
  shows "fst (client_call net a (ReqGet h) c) = Inr (RepData d)"
proof (cases rule: client_call_cases [of c a net "ReqGet h"])
  case rejected
  with assms(2,3) show ?thesis by (simp add: cluster_calm_def)
next
  case (ran c1 r c2)
  obtain n where n: "storage_nodes c a = Some n" "chunk_at n h = Some d"
    using assms(4) by (auto simp: node_holds_def)
  then have "storage_nodes c1 a = Some n" using ran(2) by simp
  from client_operation_calm [OF assms(1,3) this, of "ReqGet h"] ran(3) n(2) node_GetChunk_eq [of io_ok h n d]
  have "r = Inr (RepData d)" by (simp add: io_ok_def)
  with ran(4) show ?thesis by simp
qed

lemma try_replica_calm:
  assumes "net_calm (net_of env) A" "cluster_calm c A" "snappy_ok (snappy_of env)"
    and "replica_ok env h c chunk a"
  shows "cluster_calm (snd (try_replica env h (sha256hex chunk) a c)) A"
    "a \<in> A \<Longrightarrow> fst (try_replica env h (sha256hex chunk) a c) = Some chunk"
proof -
  obtain data rand where r: "node_holds c a (sha256hex chunk) data"
    "Encrypt rand (snappy_Encode (snappy_of env) chunk) (EncryptionKey h) = Inr data"
    using assms(4) by (auto simp: replica_ok_def)
  obtain v c1 where g: "client_call (net_of env) a (ReqGet (sha256hex chunk)) c = (v, c1)" by fastforce
  have v: "v = Inr (RepData data)" if "a \<in> A"
    using client_call_get_calm [OF assms(1,2) that r(1)] g by simp
  have "cluster_calm c1 A"
    using cluster_calm_call [OF assms(2), of "ReqGet (sha256hex chunk)" a "net_of env"] g v by auto
  with g show "cluster_calm (snd (try_replica env h (sha256hex chunk) a c)) A"
    by (auto simp: try_replica_def client_GetChunk_def split: sum.split node_reply.split option.split)
  assume "a \<in> A"
  with v g Decrypt_Encrypt [OF r(2)] assms(3)
  show "fst (try_replica env h (sha256hex chunk) a c) = Some chunk"
    by (simp add: try_replica_def client_GetChunk_def snappy_ok_def)
qed

lemma fetch_chunk_calm:
  assumes "net_calm (net_of env) A" "snappy_ok (snappy_of env)"
  shows "cluster_calm c A \<Longrightarrow> \<forall>a \<in> set as. replica_ok env h c chunk a \<Longrightarrow> set as \<inter> A \<noteq> {} \<Longrightarrow>
    \<exists>c'. fetch_chunk env h (sha256hex chunk) as c = (Some chunk, c') \<and> cluster_calm c' A \<and>
      storage_nodes c' = storage_nodes c"
proof (induction as arbitrary: c)
  case (Cons a as)
  have ra: "replica_ok env h c chunk a" using Cons.prems(2) by simp
  obtain r c1 where r: "try_replica env h (sha256hex chunk) a c = (r, c1)" by fastforce
  have c1: "cluster_calm c1 A" using try_replica_calm(1) [OF assms(1) Cons.prems(1) assms(2) ra] r by simp
  have s1: "storage_nodes c1 = storage_nodes c" using try_replica_frame [of env h "sha256hex chunk" a c] r by simp
  show ?case
  proof (cases r)
    case (Some d)
    with try_replica_good [OF ra assms(2)] r c1 s1 show ?thesis by auto
  next
    case None
    then have "a \<notin> A" using try_replica_calm(2) [OF assms(1) Cons.prems(1) assms(2) ra] r by auto
    then have "set as \<inter> A \<noteq> {}" using Cons.prems(3) by auto
    moreover have "\<forall>a \<in> set as. replica_ok env h c1 chunk a"
      using Cons.prems(2) replica_ok_cong [OF s1] by simp
    ultimately show ?thesis using Cons.IH [OF c1] r None s1 by simp
  qed
qed simp

lemma send_chunks_calm:
  assumes "net_calm (net_of env) A" "snappy_ok (snappy_of env)"
  shows "cluster_calm c A \<Longrightarrow> length cs = length ds \<Longrightarrow> writes_left w = None \<Longrightarrow>
    \<forall>i < length cs. ch_Hash (cs ! i) = sha256hex (ds ! i) \<and> set (ch_NodeAddresses (cs ! i)) \<inter> A \<noteq> {} \<and>
      (\<forall>a \<in> set (ch_NodeAddresses (cs ! i)). replica_ok env h c (ds ! i) a) \<Longrightarrow>
    body (fst (send_chunks env h cs w c)) = body w @ map Raw ds \<and>
    status_code (fst (send_chunks env h cs w c)) = (if ds \<noteq> [] \<and> status w = None then 200 else status_code w)"
proof (induction cs arbitrary: w c ds)
  case Nil
  then show ?case by simp
next
  case (Cons chunk cs)
  obtain d ds' where ds: "ds = d # ds'" using Cons.prems(2) by (cases ds) auto
  have "ch_Hash chunk = sha256hex d" "set (ch_NodeAddresses chunk) \<inter> A \<noteq> {}"
    "\<forall>a \<in> set (ch_NodeAddresses chunk). replica_ok env h c d a"
    using Cons.prems(4) ds by force+
  then obtain c' where c': "fetch_chunk env h (ch_Hash chunk) (ch_NodeAddresses chunk) c = (Some d, c')"
    "cluster_calm c' A" "storage_nodes c' = storage_nodes c"
    using fetch_chunk_calm [OF assms Cons.prems(1)] by metis
  obtain ok w' where w: "response_Write (Raw d) w = (ok, w')" by fastforce
  from response_Write_body [OF w] Cons.prems(3) have ok: ok "writes_left w' = None"
    and w': "body w' = body w @ [Raw d]" "status w' \<noteq> None"
      "status_code w' = (if status w = None then 200 else status_code w)" by auto
  have "\<forall>i < length cs. ch_Hash (cs ! i) = sha256hex (ds' ! i) \<and> set (ch_NodeAddresses (cs ! i)) \<inter> A \<noteq> {} \<and>
      (\<forall>a \<in> set (ch_NodeAddresses (cs ! i)). replica_ok env h c' (ds' ! i) a)"
    using Cons.prems(4) ds replica_ok_cong [OF c'(3)] by (simp add: All_less_Suc2)
  from Cons.IH [OF c'(2) _ ok(2) this] Cons.prems(2) ds w' ok(1) w c'(1) show ?case by simp
qed

definition db_calm :: "db_env \<Rightarrow> bool" where
  "db_calm env \<longleftrightarrow> (\<forall>k. db_fault env k = Deliver \<and> rows_cut env k = None)"

lemma GetObjectByID_calm:
  assumes "db_calm env" "uuid_in env i = Some (obj_ID ob)" "uuid_in env u = Some (obj_UserID ob)"
    and "ob \<in> set (objects db)"
  shows "\<exists>ob' db'. GetObjectByID env i u db = (Inr (Some ob'), db')"
proof -
  have "filter (\<lambda>r. obj_ID r = obj_ID ob \<and> obj_UserID r = obj_UserID ob) (objects db) \<noteq> []"
    using assms(4) by (auto simp: filter_empty_conv)
  then obtain r rs where "filter (\<lambda>r. obj_ID r = obj_ID ob \<and> obj_UserID r = obj_UserID ob) (objects db) = r # rs"
    by (cases "filter (\<lambda>r. obj_ID r = obj_ID ob \<and> obj_UserID r = obj_UserID ob) (objects db)") auto
  with assms show ?thesis by (simp add: GetObjectByID_def exec_stmt_def db_calm_def Let_def)
qed

lemma GetChunksByObjectID_calm:
  assumes "db_calm env" "uuid_in env i = Some oid"
  shows "\<exists>cs db'. GetChunksByObjectID env i db = (Inr cs, db')"
  using assms by (simp add: GetChunksByObjectID_def exec_stmt_def db_calm_def Let_def)

text \<open>
  Nodes that fail, fewer of them than a quorum, cannot hide a chunk: it has a replica on a node
  that works.
\<close>

lemma quorum_survives:
  assumes "finite F" "int (card F) < quorum h" "quorum h \<le> int (card (set as))"
    and "dom (storage_nodes c) \<subseteq> A \<union> F" "\<forall>a \<in> set as. replica_ok env h c chunk a"
  shows "set as \<inter> A \<noteq> {}"
proof
  assume "set as \<inter> A = {}"
  moreover have "set as \<subseteq> dom (storage_nodes c)" using assms(5) by (auto simp: replica_ok_def node_holds_def)
  ultimately have "card (set as) \<le> card F" using assms(1,4) by (intro card_mono) auto
  with assms(2,3) show False by simp
qed

lemma download_calm:
  assumes "chunks_stored env h (obj_ID ob) cs gw" "0 \<le> ReplicationFactor h" "snappy_ok (snappy_of env2)"
    and "snappy_of env2 = snappy_of env" "same_store gw gw2" "ob \<in> set (objects (database_of_gw gw))"
    and "uuid_in (db_of env2) (pathValue r ''id'') = Some (obj_ID ob)"
    and "uuid_in (db_of env2) (userID r) = Some (obj_UserID ob)"
    and "finite F" "int (card F) < quorum h"
    and "net_calm (net_of env2) A" "cluster_calm (cluster_of_gw gw2) A"
    and "dom (storage_nodes (cluster_of_gw gw2)) \<subseteq> A \<union> F"
    and "db_calm (db_of env2)" "clientGone r = None"
  shows "body (fst (Download env2 h r gw2)) = map Raw cs \<and> status_code (fst (Download env2 h r gw2)) = 200"
proof -
  have ob: "ob \<in> set (objects (database_of_gw gw2))"
    using assms(5,6) tables_eq by (auto simp: same_store_def)
  obtain ob' db1 where g1: "GetObjectByID (db_of env2) (pathValue r ''id'') (userID r) (database_of_gw gw2) = (Inr (Some ob'), db1)"
    using GetObjectByID_calm [OF assms(14,7,8) ob] by blast
  obtain qs db2 where g2: "GetChunksByObjectID (db_of env2) (pathValue r ''id'') db1 = (Inr qs, db2)"
    using GetChunksByObjectID_calm [OF assms(14,7)] by blast
  let ?w = "set_header ''Content-Disposition'' (''attachment; filename=\"'' @ obj_Name ob' @ ''\"'')
       (set_header ''Content-Type'' (obj_ContentType ob') (new_response (clientGone r)))"
  note G = download_good [OF assms(1-5,7) g1 g2]
  have len: "length qs = length cs" using G assms(14) by (simp add: db_calm_def)
  have "writes_left ?w = None" using assms(15) by (simp add: new_response_def)
  moreover have "\<forall>i < length qs. set (ch_NodeAddresses (qs ! i)) \<inter> A \<noteq> {}"
    using G quorum_survives [OF assms(9,10) _ assms(13)] by blast
  ultimately have "body (fst (send_chunks env2 h qs ?w (cluster_of_gw gw2))) = body ?w @ map Raw cs \<and>
      status_code (fst (send_chunks env2 h qs ?w (cluster_of_gw gw2))) =
        (if cs \<noteq> [] \<and> status ?w = None then 200 else status_code ?w)"
    using G len by (intro send_chunks_calm [OF assms(11,3,12)]) simp_all
  moreover have "fst (Download env2 h r gw2) = fst (send_chunks env2 h qs ?w (cluster_of_gw gw2))"
    using g1 g2 by (simp add: Download_def Let_def split_beta)
  ultimately show ?thesis by (simp add: status_code_def)
qed

section \<open>Uploads while enough nodes answer\<close>

subsection \<open>The metadata\<close>

text \<open>Identifiers that \<open>gen_random_uuid()\<close> makes are new.\<close>

definition uuids_fresh :: "db_env \<Rightarrow> database \<Rightarrow> bool" where
  "uuids_fresh env db \<longleftrightarrow> inj (\<lambda>k. gen_uuid env k 0) \<and>
     (\<forall>k \<ge> stmt_no db. gen_uuid env k 0 \<notin> obj_ID ` set (objects db) \<union> ch_ID ` set (chunks db))"

lemma insert_locations_live:
  assumes "db_calm env" "uuid_in env c = Some c" "\<forall>n \<in> set ns. text_ok env n"
  shows "c \<in> ch_ID ` set (chunks db) \<Longrightarrow> distinct ns \<Longrightarrow> \<forall>n \<in> set ns. (c, n) \<notin> set (chunk_locations db) \<Longrightarrow>
    insert_locations env c ns db = (Inr (), db\<lparr>stmt_no := stmt_no db + length ns,
      chunk_locations := chunk_locations db @ map (Pair c) ns\<rparr>)"
  using assms(3)
proof (induction ns arbitrary: db)
  case (Cons n ns)
  let ?db = "db\<lparr>stmt_no := Suc (stmt_no db), chunk_locations := chunk_locations db @ [(c, n)]\<rparr>"
  have "insert_locations env c (n # ns) db = insert_locations env c ns ?db"
    using Cons.prems assms(1,2) by (simp add: tx_stmt_def insert_location_def db_calm_def Let_def)
  also have "\<dots> = (Inr (), ?db\<lparr>stmt_no := stmt_no ?db + length ns,
      chunk_locations := chunk_locations ?db @ map (Pair c) ns\<rparr>)"
    using Cons.prems by (intro Cons.IH) auto
  finally show ?case by simp
qed simp

lemma CreateChunk_live:
  assumes "db_calm env" "uuids_ok env" "uuids_fresh env db"
    and "uuid_in env r = Some u" "u \<in> obj_ID ` set (objects db)" "int4_ok i"
    and "(u, i) \<notin> key_of_chunk ` set (chunks db)" "fst ` set (chunk_locations db) \<subseteq> ch_ID ` set (chunks db)"
    and "text_ok env h" "\<forall>n \<in> set ns. text_ok env n" "distinct ns"
  shows "\<exists>k \<ge> stmt_no db. CreateChunk env r i h s ns db =
    (Inr (), (with_chunk u (gen_uuid env k 0) i h s ns db)\<lparr>stmt_no := k + length ns + 2\<rparr>)"
proof -
  let ?k = "Suc (stmt_no db)"
  let ?c = "gen_uuid env ?k 0"
  have new: "?c \<notin> ch_ID ` set (chunks db)" using assms(3) by (simp add: uuids_fresh_def)
  with assms(8) have "(?c, n) \<notin> set (chunk_locations db)" for n by force
  with assms(7) new show ?thesis
    using assms(1,2,4,5,6,9,10,11)
    by (intro exI [of _ ?k])
      (simp add: CreateChunk_def transaction_def tx_stmt_def insert_chunk_def insert_locations_live db_calm_def
        uuids_ok_def with_chunk_def key_of_chunk_def Let_def image_iff)
qed

lemma store_chunks_live:
  assumes "db_calm env" "uuids_ok env" "uuid_in env r = Some u"
    and "\<forall>m \<in> set ms. int4_ok (int (cm_index m)) \<and> text_ok env (cm_hash m) \<and> distinct (cm_nodes m) \<and>
      (\<forall>n \<in> set (cm_nodes m). text_ok env n)"
  shows "uuids_fresh env db \<Longrightarrow> u \<in> obj_ID ` set (objects db) \<Longrightarrow> distinct (map cm_index ms) \<Longrightarrow>
    \<forall>m \<in> set ms. (u, int (cm_index m)) \<notin> key_of_chunk ` set (chunks db) \<Longrightarrow>
    fst ` set (chunk_locations db) \<subseteq> ch_ID ` set (chunks db) \<Longrightarrow> fst (store_chunks env r ms db)"
  using assms(4)
proof (induction ms arbitrary: db)
  case (Cons m ms)
  have "(u, int (cm_index m)) \<notin> key_of_chunk ` set (chunks db)" using Cons.prems(4) by simp
  with Cons.prems obtain k where k: "k \<ge> stmt_no db"
    and c: "CreateChunk env r (int (cm_index m)) (cm_hash m) (cm_size m) (cm_nodes m) db =
      (Inr (), (with_chunk u (gen_uuid env k 0) (int (cm_index m)) (cm_hash m) (cm_size m) (cm_nodes m) db)
        \<lparr>stmt_no := k + length (cm_nodes m) + 2\<rparr>)" (is "_ = (Inr (), ?db)")
    using CreateChunk_live [OF assms(1,2) Cons.prems(1) assms(3) Cons.prems(2) _ _ Cons.prems(5),
        of "int (cm_index m)" "cm_hash m" "cm_nodes m" "cm_size m"] by auto
  have "gen_uuid env k' 0 \<noteq> gen_uuid env k 0" if "k < k'" for k'
    using Cons.prems(1) that by (auto simp: uuids_fresh_def inj_def)
  then have "uuids_fresh env ?db"
    using Cons.prems(1) k by (auto simp: uuids_fresh_def with_chunk_def)
  moreover have "\<forall>m' \<in> set ms. (u, int (cm_index m')) \<notin> key_of_chunk ` set (chunks ?db)"
    using Cons.prems(3,4) by (simp add: with_chunk_def key_of_chunk_def) (metis image_eqI)
  moreover have "fst ` set (chunk_locations ?db) \<subseteq> ch_ID ` set (chunks ?db)"
    using Cons.prems(5) by (auto simp: with_chunk_def)
  ultimately have "fst (store_chunks env r ms ?db)"
    using Cons.prems(2,3,6) by (intro Cons.IH) (auto simp: with_chunk_def)
  with c show ?case by simp
qed simp

subsection \<open>The chunks\<close>

context placement
begin

lemma survivors:
  assumes "ok r" "0 < k" "finite F" "candidates r \<subseteq> A \<union> F"
  shows "min (nat k) (card (candidates r)) \<le> card (set (place r c k) \<inter> A) + card F"
proof -
  have "set (place r c k) \<subseteq> (set (place r c k) \<inter> A) \<union> F"
    using place_candidates [OF assms(1)] assms(4) by blast
  then have "card (set (place r c k)) \<le> card ((set (place r c k) \<inter> A) \<union> F)"
    using assms(3) by (intro card_mono) auto
  also have "\<dots> \<le> card (set (place r c k) \<inter> A) + card F" by (rule card_Un_le)
  finally show ?thesis
    using place_distinct [OF assms(1)] place_length [OF assms(1,2)] by (simp add: distinct_card)
qed

end

lemma sure_calls_tasks:
  assumes "\<forall>t \<in> set tasks. \<forall>as hash data. t = Inr (as, hash, data) \<longrightarrow> plain_name hash"
  shows "sure_calls (map snd (task_calls tasks))"
proof -
  have "\<exists>hash data. snd (snd x) = ReqSave hash data \<and> plain_name hash" if "x \<in> set (task_calls tasks)" for x
  proof -
    obtain i a req where x: "x = (i, a, req)" by (metis prod_cases3)
    with that obtain as hash data where "i < length tasks" "tasks ! i = Inr (as, hash, data)" "req = ReqSave hash data"
      using task_calls_iff [of i a req tasks] by auto
    then have "plain_name hash" using assms nth_mem by blast
    with x \<open>req = ReqSave hash data\<close> show ?thesis by simp
  qed
  then show ?thesis by (fastforce simp: sure_calls_def)
qed

lemma run_tasks_calm:
  assumes "run_tasks env up h cs c = (results, c')"
  shows "dom (storage_nodes c') = dom (storage_nodes c)"
    "net_calm (net_of env) A \<Longrightarrow> cluster_calm c A \<Longrightarrow> cluster_calm c' A"
proof -
  obtain tasks ps fin where f: "fan_out (net_of env) (map snd (task_calls tasks)) (up_sched up) c = (ps, fin, c')"
    and len: "length tasks = length cs"
    and t: "\<And>j. j < length cs \<Longrightarrow> tasks ! j = chunk_prepare env h (up_rings up j) (up_rand up j) (cs ! j)"
    using run_tasks_eq [OF assms(1)] by blast
  show "dom (storage_nodes c') = dom (storage_nodes c)"
    using dom_fan_out [of "net_of env" "map snd (task_calls tasks)" "up_sched up" c] f by simp
  have prep: "\<exists>j. t' = chunk_prepare env h (up_rings up j) (up_rand up j) (cs ! j)" if "t' \<in> set tasks" for t'
    using that t len by (metis in_set_conv_nth)
  have "sure_calls (map snd (task_calls tasks))"
    by (rule sure_calls_tasks) (auto dest!: prep simp: chunk_prepare_ok sha256hex_plain)
  then show "net_calm (net_of env) A \<Longrightarrow> cluster_calm c A \<Longrightarrow> cluster_calm c' A"
    using fan_out_calm(2) f by blast
qed

text \<open>What a chunk's goroutine reports when a quorum of its nodes works.\<close>

lemma run_tasks_live:
  assumes "run_tasks env up h cs c = (results, c')" "net_calm (net_of env) A" "cluster_calm c A"
    and "aes_key_ok (EncryptionKey h)" "\<forall>i. 12 \<le> length (up_rand up i)" "\<forall>i. ring_wf (up_rings up i)"
    and "0 < quorum h" "\<forall>i hash. quorum h \<le> int (card (set (GetNodes (up_rings up i) hash (ReplicationFactor h)) \<inter> A))"
    and "i < length cs"
  shows "\<exists>m. results ! i = Inr m \<and> cm_index m = i \<and> cm_hash m = sha256hex (cs ! i) \<and>
    distinct (cm_nodes m) \<and> set (cm_nodes m) \<subseteq> ran (ring (up_rings up i))"
proof -
  obtain tasks ps fin where f: "fan_out (net_of env) (map snd (task_calls tasks)) (up_sched up) c = (ps, fin, c')"
    and len: "length tasks = length cs"
    and t: "\<And>j. j < length cs \<Longrightarrow> tasks ! j = chunk_prepare env h (up_rings up j) (up_rand up j) (cs ! j)"
    and res: "results ! i = chunk_finish h (task_calls tasks) ps fin (i, cs ! i, tasks ! i)"
    using run_tasks_eq [OF assms(1)] assms(9) by blast
  let ?calls = "task_calls tasks"
  let ?as = "GetNodes (up_rings up i) (sha256hex (cs ! i)) (ReplicationFactor h)"
  let ?succ = "successNodes ?calls ps fin i"
  have prep: "\<exists>j < length cs. t' = chunk_prepare env h (up_rings up j) (up_rand up j) (cs ! j)" if "t' \<in> set tasks" for t'
    using that t len by (metis in_set_conv_nth)
  have saves: "sure_calls (map snd ?calls)"
    by (rule sure_calls_tasks) (auto dest!: prep simp: chunk_prepare_ok sha256hex_plain)
  have dist: "distinct (map call_key ?calls)"
    by (rule distinct_task_calls) (use assms(6) in \<open>auto dest!: prep simp: chunk_prepare_ok distinct_GetNodes\<close>)
  have q: "quorum h \<le> int (card (set ?as \<inter> A))" using assms(8) by blast
  obtain data where "Encrypt (up_rand up i) (snappy_Encode (snappy_of env) (cs ! i)) (EncryptionKey h) = Inr data"
    using Encrypt_live [OF assms(4)] assms(5) by blast
  moreover have "?as \<noteq> []" using q assms(7) by auto
  ultimately have ti: "tasks ! i = Inr (?as, sha256hex (cs ! i), data)"
    using t [OF assms(9)] by (simp add: chunk_prepare_ok)
  have fin: "set fin = {0..<length ?calls}" using mset_eq_setD [OF fan_out_finished(3) [OF f]] by simp
  have "a \<in> set ?succ" if a: "a \<in> set ?as" "a \<in> A" for a
  proof -
    have "(i, a, ReqSave (sha256hex (cs ! i)) data) \<in> set ?calls"
      using a(1) ti len assms(9) by (simp add: task_calls_iff)
    then obtain j where j: "j < length ?calls" "?calls ! j = (i, a, ReqSave (sha256hex (cs ! i)) data)"
      by (auto simp: in_set_conv_nth)
    then have "\<not> is_err (result (ps ! j))"
      using fan_out_calm(1) [OF assms(2) saves assms(3) f, of j] a(2) by simp
    with j fin show ?thesis by (force simp: successNodes_def)
  qed
  then have "card (set ?as \<inter> A) \<le> card (set ?succ)" by (intro card_mono) auto
  with q card_length [of ?succ] have "quorum h \<le> int (length ?succ)" by simp
  then have m: "results ! i = Inr \<lparr>cm_index = i, cm_hash = sha256hex (cs ! i), cm_size = int (length (cs ! i)),
      cm_nodes = ?succ\<rparr>"
    by (simp add: res ti chunk_finish_def Let_def)
  have "set ?succ \<subseteq> ran (ring (up_rings up i))"
  proof
    fix a assume "a \<in> set ?succ"
    from successNodes_success(2) [OF f dist this] obtain j where j: "j < length ?calls" "fst (?calls ! j) = i"
      "fst (snd (?calls ! j)) = a" by blast
    obtain req where cj: "?calls ! j = (i, a, req)" using j by (metis prod.collapse)
    with nth_mem [OF j(1)] have "(i, a, req) \<in> set ?calls" by simp
    then have "a \<in> set ?as" using task_calls_iff [of i a req tasks] ti by simp
    then show "a \<in> ran (ring (up_rings up i))" using ringp.place_candidates assms(6) by blast
  qed
  with m successNodes_success(1) [OF f dist] show ?thesis by simp
qed

subsection \<open>The whole upload\<close>

lemma CreateObject_live:
  assumes "db_calm env" "uuids_fresh env db" "uuid_in env u = Some uid" "uid \<in> usr_ID ` set (users db)"
    and "text_ok env n" "text_ok env ct"
  shows "CreateObject env u n ct s db = (Inr (gen_uuid env (stmt_no db) 0), db\<lparr>stmt_no := Suc (stmt_no db),
    objects := objects db @ [\<lparr>obj_ID = gen_uuid env (stmt_no db) 0, obj_UserID = uid, obj_Name = n, obj_SizeBytes = s,
      obj_ContentType = ct, obj_CreatedAt = db_now env (stmt_no db)\<rparr>]\<rparr>)"
  using assms by (simp add: CreateObject_def exec_stmt_def insert_object_def db_calm_def uuids_fresh_def Let_def)

lemma upload_metadata_live:
  assumes "db_calm (db_of env)" "uuids_ok (db_of env)" "uuids_fresh (db_of env) db" "db_inv db"
    and "uuid_in (db_of env) (userID r) = Some uid" "uid \<in> usr_ID ` set (users db)"
    and "text_ok (db_of env) (upload_name r)" "text_ok (db_of env) (upload_type r)"
    and "\<forall>m \<in> set ms. int4_ok (int (cm_index m)) \<and> text_ok (db_of env) (cm_hash m) \<and> distinct (cm_nodes m) \<and>
      (\<forall>n \<in> set (cm_nodes m). text_ok (db_of env) n)"
    and "distinct (map cm_index ms)" "status w = None"
  shows "status_code (fst (upload_metadata env r ms w db)) = 201"
proof -
  let ?env = "db_of env" and ?oid = "gen_uuid (db_of env) (stmt_no db) 0"
  obtain db1 where db1: "CreateObject ?env (userID r) (upload_name r) (upload_type r) (sum_list (map cm_size ms)) db
      = (Inr ?oid, db1)" "chunks db1 = chunks db" "chunk_locations db1 = chunk_locations db"
      "stmt_no db1 = Suc (stmt_no db)" "obj_ID ` set (objects db1) = insert ?oid (obj_ID ` set (objects db))"
    using CreateObject_live [OF assms(1,3,5-8)] by simp
  have new: "?oid \<notin> obj_ID ` set (objects db)" using assms(3) by (simp add: uuids_fresh_def)
  have inv: "ch_ObjectID ` set (chunks db) \<subseteq> obj_ID ` set (objects db)"
    "fst ` set (chunk_locations db) \<subseteq> ch_ID ` set (chunks db)"
    using assms(4) by (simp_all add: db_inv_def chunks_inv_def)
  have "gen_uuid ?env k 0 \<noteq> ?oid" if "stmt_no db < k" for k
    using assms(3) that by (auto simp: uuids_fresh_def inj_def)
  then have fresh: "uuids_fresh ?env db1" using assms(3) db1(2,4,5) by (auto simp: uuids_fresh_def)
  have "\<forall>m \<in> set ms. (?oid, int (cm_index m)) \<notin> key_of_chunk ` set (chunks db1)"
    using inv(1) new db1(2) by (auto simp: key_of_chunk_def)
  moreover have "uuid_in ?env ?oid = Some ?oid" using assms(2) by (simp add: uuids_ok_def)
  ultimately have "fst (store_chunks ?env ?oid ms db1)"
    using fresh inv(2) db1 assms(10) by (intro store_chunks_live [OF assms(1,2) _ assms(9)]) simp_all
  then obtain db2 where "store_chunks ?env ?oid ms db1 = (True, db2)"
    by (cases "store_chunks ?env ?oid ms db1") simp
  with db1(1) assms(11) show ?thesis
    by (simp add: upload_metadata_def Let_def write_json_def response_Write_def WriteHeader_def set_header_def
        status_code_def split: option.split nat.split)
qed

lemma Upload_live:
  assumes "0 < chunk_size h" "reqEnd r \<noteq> EndErr" "length (blocks_of (nat (chunk_size h)) (reqBody r)) \<le> 2 ^ 31"
    and "aes_key_ok (EncryptionKey h)" "\<forall>i. 12 \<le> length (up_rand up i)" "\<forall>i. ring_wf (up_rings up i)"
    and "\<forall>i. ran (ring (up_rings up i)) \<subseteq> A \<union> F \<and> ReplicationFactor h \<le> int (card (ran (ring (up_rings up i))))"
    and "finite F" "int (card F) + quorum h \<le> ReplicationFactor h" "0 < ReplicationFactor h"
    and "net_calm (net_of env) A" "cluster_calm (cluster_of_gw gw) A"
    and "db_calm (db_of env)" "uuids_ok (db_of env)" "uuids_fresh (db_of env) (database_of_gw gw)"
    and "db_inv (database_of_gw gw)" "uuid_in (db_of env) (userID r) = Some uid"
    and "uid \<in> usr_ID ` set (users (database_of_gw gw))"
    and "\<forall>s \<in> {upload_name r, upload_type r} \<union> range sha256hex \<union> A \<union> F. text_ok (db_of env) s"
  shows "\<exists>w gw'. Upload env up h r gw = Some (Response w, gw') \<and> status_code w = 201 \<and>
    cluster_calm (cluster_of_gw gw') A \<and>
    dom (storage_nodes (cluster_of_gw gw')) = dom (storage_nodes (cluster_of_gw gw))"
proof -
  let ?cs = "blocks_of (nat (chunk_size h)) (reqBody r)"
  obtain results c where rt: "run_tasks env up h ?cs (cluster_of_gw gw) = (results, c)" by fastforce
  have len: "length results = length ?cs" using run_tasks_eq [OF rt] by blast
  have q: "0 < quorum h" using assms(10) by (simp add: quorum_def go_div_nonneg)
  have "quorum h \<le> int (card (set (GetNodes (up_rings up i) hash (ReplicationFactor h)) \<inter> A))" for i hash
  proof -
    have "ReplicationFactor h \<le> int (min (nat (ReplicationFactor h)) (card (ran (ring (up_rings up i)))))"
      using assms(7) [rule_format, of i] assms(10) by (simp add: min_def)
    with ringp.survivors [OF assms(6) [rule_format] assms(10,8), of i A hash] assms(7) [rule_format, of i] assms(9) show ?thesis
      by linarith
  qed
  then have res: "\<exists>m. results ! i = Inr m \<and> cm_index m = i \<and> cm_hash m = sha256hex (?cs ! i) \<and>
      distinct (cm_nodes m) \<and> set (cm_nodes m) \<subseteq> A \<union> F" if "i < length ?cs" for i
    using run_tasks_live [OF rt assms(11,12,4,5,6) q _ that] assms(7) by fastforce
  then have ok: "\<forall>e \<in> set results. \<not> is_err e" using len by (metis in_set_conv_nth is_err.simps(2))
  note O = oks_all [OF ok]
  let ?ms = "shuffle (up_order up) (oks results)"
  have idx: "cm_index (oks results ! i) = i" if "i < length ?cs" for i
    using res [OF that] O len that by auto
  then have ind: "map cm_index (oks results) = [0..<length ?cs]"
    using O len by (intro nth_equalityI) simp_all
  have "int4_ok (int (cm_index m)) \<and> text_ok (db_of env) (cm_hash m) \<and> distinct (cm_nodes m) \<and>
      (\<forall>n \<in> set (cm_nodes m). text_ok (db_of env) n)" if "m \<in> set ?ms" for m
  proof -
    from that obtain i where "i < length ?cs" "m = oks results ! i" using O len by (auto simp: in_set_conv_nth)
    with res [of i] O len have m: "cm_index m = i" "cm_hash m = sha256hex (?cs ! i)" "distinct (cm_nodes m)"
      "set (cm_nodes m) \<subseteq> A \<union> F" "i < 2 ^ 31" using assms(3) by auto
    then show ?thesis using assms(19) by (auto simp: int4_ok_def)
  qed
  moreover have "distinct (map cm_index ?ms)"
  proof -
    have "mset (map cm_index ?ms) = mset (map cm_index (oks results))" by simp
    then show ?thesis using ind by (metis distinct_upt mset_eq_imp_distinct_iff)
  qed
  ultimately have st: "status_code (fst (upload_metadata env r ?ms (new_response (clientGone r)) (database_of_gw gw))) = 201"
    using assms(19) by (intro upload_metadata_live [OF assms(13-18)]) (auto simp: new_response_def)
  have "read_loop (nat (chunk_size h)) (reqBody r) (reqEnd r) [] = Some (?cs, True)"
    using read_loop_blocks [of "nat (chunk_size h)"] assms(1,2) by simp
  then show ?thesis
    using rt ok st assms(1) run_tasks_calm(1) [OF rt] run_tasks_calm(2) [OF rt assms(11,12)]
    by (auto simp: Upload_def Let_def split_beta)
qed

section \<open>When \<open>Upload\<close> returns\<close>

lemma Upload_returns: "Upload env up h r gw = None \<longleftrightarrow> chunk_size h = 0"
proof (cases "0 < chunk_size h")
  case True
  then show ?thesis
    using read_loop_blocks [of "nat (chunk_size h)"] by (auto simp: Upload_def Let_def split_beta)
next
  case False
  then show ?thesis by (cases "chunk_size h = 0") (auto simp: Upload_def read_loop_0)
qed

lemma Upload_panics: "(\<exists>gw'. Upload env up h r gw = Some (Panicked, gw')) \<longleftrightarrow> chunk_size h < 0"
  by (auto simp: Upload_def Let_def split_beta split: option.splits if_splits)

section \<open>Properties\<close>

text \<open>The object bytes among what a response has sent.\<close>

fun raw_bytes :: "body_part list \<Rightarrow> bytes" where
  "raw_bytes [] = []"
| "raw_bytes (Raw d # ps) = d @ raw_bytes ps"
| "raw_bytes (p # ps) = raw_bytes ps"

lemma raw_bytes_append [simp]: "raw_bytes (ps @ qs) = raw_bytes ps @ raw_bytes qs"
  by (induction ps rule: raw_bytes.induct) simp_all

lemma raw_bytes_map [simp]: "raw_bytes (map Raw ds) = concat ds"
  by (induction ds) simp_all

text \<open>The object that the last upload has made.\<close>

definition last_object :: "gateway \<Rightarrow> Object" where
  "last_object gw = last (objects (database_of_gw gw))"

text \<open>
  C4: an acknowledged upload is durable. When \<open>Upload\<close> answers 201, whatever the schedule of its
  goroutines, the network, the disks, the rings they saw and the faults of the database were, and
  as long as its chunks do not overwrite each other (different chunks have different hashes, and
  where a chunk occurs twice no disk cuts a write short), the body was read to its end; the caller has a new object with the name, the content type and the
  size of the body; the chunk rows of the object are, in order, the chunks of the body; and each
  chunk is on a quorum of distinct nodes, which hold an encryption of it under its hash.
\<close>

theorem Upload_acknowledged:
  assumes "Upload env up h r gw = Some (Response w, gw')" "status_code w = 201" "0 < chunk_size h"
    and "db_inv (database_of_gw gw)" "uuids_ok (db_of env)" "\<forall>i. ring_wf (up_rings up i)"
    and "separable (net_of env) (blocks_of (nat (chunk_size h)) (reqBody r))"
  shows "reqEnd r \<noteq> EndErr \<and> objects (database_of_gw gw') = objects (database_of_gw gw) @ [last_object gw'] \<and>
    uuid_in (db_of env) (userID r) = Some (obj_UserID (last_object gw')) \<and>
    obj_Name (last_object gw') = upload_name r \<and> obj_ContentType (last_object gw') = upload_type r \<and>
    obj_SizeBytes (last_object gw') = int (length (reqBody r)) \<and>
    object_stored env h (obj_ID (last_object gw')) (blocks_of (nat (chunk_size h)) (reqBody r)) gw'"
  using upload_result [OF assms] by (auto simp: last_object_def)


text \<open>
  C8: a download never sends wrong bytes. Whatever the network, the disks and the breakers do,
  the object bytes in the answer are some number of whole chunks, each with the hash that the
  metadata has at its position, from the first on; after them comes at most an error text; and
  nothing is sent unless the object belongs to the caller.
\<close>

theorem Download_integrity:
  "\<exists>ds tail. body (fst (Download env h r gw)) = map Raw ds @ tail \<and> (tail = [] \<or> (\<exists>m. tail = [ErrorText m])) \<and>
    (ds = [] \<or> (\<exists>ob \<in> set (objects (database_of_gw gw)).
       uuid_in (db_of env) (pathValue r ''id'') = Some (obj_ID ob) \<and>
       uuid_in (db_of env) (userID r) = Some (obj_UserID ob) \<and>
       prefix (map sha256hex ds) (map row_hash (object_rows (database_of_gw gw) (obj_ID ob)))))"
proof -
  obtain ds tail where d: "body (fst (Download env h r gw)) = map Raw ds @ tail"
    "tail = [] \<or> (\<exists>m. tail = [ErrorText m])"
    "ds \<noteq> [] \<longrightarrow> (\<exists>ob \<in> set (objects (database_of_gw gw)).
       uuid_in (db_of env) (pathValue r ''id'') = Some (obj_ID ob) \<and>
       uuid_in (db_of env) (userID r) = Some (obj_UserID ob) \<and>
       length ds \<le> length (object_rows (database_of_gw gw) (obj_ID ob)) \<and>
       (\<forall>i < length ds. sha256hex (ds ! i) = row_hash (object_rows (database_of_gw gw) (obj_ID ob) ! i)))"
    using Download_chunks [of env h r gw, OF surjective_pairing] by (elim exE conjE) (rule that)
  have "prefix (map sha256hex ds) (map row_hash rs)"
    if "length ds \<le> length rs" "\<forall>i < length ds. sha256hex (ds ! i) = row_hash (rs ! i)" for rs
  proof -
    have "map sha256hex ds = take (length ds) (map row_hash rs)"
      using that by (intro nth_equalityI) simp_all
    then show ?thesis by (metis take_is_prefix)
  qed
  with d show ?thesis by - (rule exI [of _ ds], rule exI [of _ tail], auto)
qed


text \<open>
  C1: what was uploaded comes back. After an acknowledged upload whose chunks do not overwrite each
  other (different chunks have different hashes, and where a chunk occurs twice no disk cuts a write
  short), as long as fewer nodes than a quorum fail, whatever these do, and the others hold what they held
  then, the owner's download is answered with 200 and exactly the body that was uploaded.
\<close>

theorem upload_download_roundtrip:
  assumes "Upload env up h r gw = Some (Response w, gw')" "status_code w = 201" "0 < chunk_size h"
    and "db_inv (database_of_gw gw)" "uuids_ok (db_of env)" "\<forall>i. ring_wf (up_rings up i)"
    and "separable (net_of env) (blocks_of (nat (chunk_size h)) (reqBody r))" "0 \<le> ReplicationFactor h"
    and "snappy_ok (snappy_of env)" "snappy_of env2 = snappy_of env" "same_store gw' gw2"
    and "uuid_in (db_of env2) (pathValue r2 ''id'') = Some (obj_ID (last_object gw'))"
    and "uuid_in (db_of env2) (userID r2) = Some (obj_UserID (last_object gw'))"
    and "finite F" "int (card F) < quorum h" "dom (storage_nodes (cluster_of_gw gw2)) \<subseteq> A \<union> F"
    and "net_calm (net_of env2) A" "cluster_calm (cluster_of_gw gw2) A"
    and "db_calm (db_of env2)" "clientGone r2 = None"
  shows "raw_bytes (body (fst (Download env2 h r2 gw2))) = reqBody r \<and>
    status_code (fst (Download env2 h r2 gw2)) = 200"
proof -
  let ?cs = "blocks_of (nat (chunk_size h)) (reqBody r)"
  have st: "object_stored env h (obj_ID (last_object gw')) ?cs gw'" "last_object gw' \<in> set (objects (database_of_gw gw'))"
    using upload_result [OF assms(1-7)] by (auto simp: last_object_def)
  have sn: "snappy_ok (snappy_of env2)" using assms(9,10) by simp
  have "concat ?cs = reqBody r" using assms(3) by (simp add: concat_blocks_of)
  with download_calm [OF object_stored_chunks [OF st(1)] assms(8) sn assms(10,11) st(2) assms(12-15,17,18,16,19,20)]
  show ?thesis by simp
qed

text \<open>
  \<open>Upload\<close> cannot tell a body that ends from one whose connection breaks: what has arrived so
  far is stored and acknowledged as the whole object.
\<close>

theorem Upload_broken_body:
  "Upload env up h (r\<lparr>reqEnd := EndUnexpectedEOF\<rparr>) gw = Upload env up h (r\<lparr>reqEnd := EndEOF\<rparr>) gw"
proof (cases "0 < chunk_size h")
  case True
  then have "read_loop (nat (chunk_size h)) (reqBody r) EndUnexpectedEOF [] =
      read_loop (nat (chunk_size h)) (reqBody r) EndEOF []"
    by (simp add: read_loop_blocks)
  moreover have N: "upload_name (r\<lparr>reqEnd := e\<rparr>) = upload_name r" "upload_type (r\<lparr>reqEnd := e\<rparr>) = upload_type r" for e
    by (simp_all add: upload_name_def upload_type_def)
  have M: "upload_metadata env (r\<lparr>reqEnd := e\<rparr>) = upload_metadata env r" for e
    unfolding upload_metadata_def N by simp
  ultimately show ?thesis unfolding Upload_def M by (simp add: Let_def)
next
  case False
  then show ?thesis by (cases "chunk_size h = 0") (simp_all add: Upload_def read_loop_0)
qed

text \<open>
  \<open>UploadPart\<close> neither looks at who the caller is nor at how long the part is. A part longer
  than the chunk size and a kilobyte is cut there and stored as if it were the whole part, and
  any user can add parts to any upload.
\<close>

theorem UploadPart_unchecked:
  "UploadPart env sched rg rand h
     (r\<lparr>userID := u, reqBody := take (nat (wrap64 (ChunkSizeMB h * 1024 * 1024 + 1024))) (reqBody r),
        reqEnd := EndEOF\<rparr>) gw =
   UploadPart env sched rg rand h (r\<lparr>reqEnd := EndEOF\<rparr>) gw"
proof -
  have "ReadAll_limited l (take (nat l) b) EndEOF = ReadAll_limited l b EndEOF" for l b
    by (auto simp: ReadAll_limited_def)
  then show ?thesis by (simp add: UploadPart_def)
qed

section \<open>Concrete instances\<close>

text \<open>Three nodes, of which one is down, and a replication factor of three.\<close>

definition plain_snappy :: snappy where
  "plain_snappy = \<lparr>snappy_Encode = (\<lambda>x. x), snappy_Decode = Some\<rparr>"

definition env_ok :: gw_env where
  "env_ok = \<lparr>net_of = net_ok, db_of = db_ok, snappy_of = plain_snappy\<rparr>"

definition ring3 :: HashRing where
  "ring3 = \<lparr>vNodes = 1, keys = [1, 2, 3], ring = [1 \<mapsto> ''n1'', 2 \<mapsto> ''n2'', 3 \<mapsto> ''n3''],
     nodesMap = [''n1'' \<mapsto> True, ''n2'' \<mapsto> True, ''n3'' \<mapsto> True]\<rparr>"

definition up_ok :: upload_env where
  "up_ok = \<lparr>up_sched = [(1, 5), (0, 1)], up_rings = (\<lambda>i. ring3), up_rand = (\<lambda>i. replicate 12 7), up_order = []\<rparr>"

definition handler3 :: ObjectHandler where
  "handler3 = \<lparr>ChunkSizeMB = 1, ReplicationFactor = 3, QuorumSize = 2, EncryptionKey = replicate 32 9\<rparr>"

definition req_ok :: request where
  "req_ok = \<lparr>userID = '''', pathValue = (\<lambda>x. ''u''), reqHeader = (\<lambda>x. ''f''), reqBody = [1, 2, 3], reqEnd = EndEOF,
     reqJson = None, clientGone = None\<rparr>"

definition gw3 :: gateway where
  "gw3 = \<lparr>cluster_of_gw = cluster_of [''n1'' \<mapsto> disk_example, ''n2'' \<mapsto> disk_example] Map.empty 0,
     database_of_gw = db_run db_ok (CallCreateUser ''e'' ''p'') empty_db\<rparr>"

lemma net_live_three:
  "net_calm net_ok A" "cluster_calm (cluster_of_gw gw3) {''n1'', ''n2''}"
  "dom (storage_nodes (cluster_of_gw gw3)) = {''n1'', ''n2''}"
  by (auto simp: cluster_calm_def gw3_def cluster_of_def breaker_of_def new_breaker_def node_live_def node_ok_example
      split: if_splits)

lemma ring3_wf: "ran (ring ring3) = {''n1'', ''n2'', ''n3''}" "ring_wf ring3"
proof -
  show ran: "ran (ring ring3) = {''n1'', ''n2'', ''n3''}" by (simp add: ring3_def insert_commute)
  then show "ring_wf ring3" by (simp add: ring_wf_def) (simp add: ring3_def insert_commute)
qed

lemma database3: "db_inv (database_of_gw gw3)" "'''' \<in> usr_ID ` set (users (database_of_gw gw3))"
  "uuids_fresh db_ok (database_of_gw gw3)"
  using inv_db_runs [of db_ok "[CallCreateUser ''e'' ''p'']"]
  by (auto simp: gw3_def uuids_fresh_def db_eval inj_def)

lemma handler3_ok:
  "chunk_size handler3 = 1048576" "quorum handler3 = 2" "aes_key_ok (EncryptionKey handler3)"
  "blocks_of 1048576 (reqBody req_ok) = [[1, 2, 3]]"
  by (simp_all add: handler3_def chunk_size_def wrap64_def quorum_def go_div_def aes_key_ok_def req_ok_def
      blocks_of_step [of 1048576])

lemma env3_simps:
  "net_of env_ok = net_ok" "db_of env_ok = db_ok" "snappy_of env_ok = plain_snappy" "snappy_ok plain_snappy"
  "up_rings up_ok i = ring3" "up_rand up_ok i = replicate 12 7" "ReplicationFactor handler3 = 3"
  "reqEnd req_ok = EndEOF" "userID req_ok = ''''" "clientGone req_ok = None"
  "db_calm db_ok" "uuid_in db_ok s = Some s" "text_ok db_ok s"
  by (simp_all add: env_ok_def up_ok_def handler3_def req_ok_def db_calm_def db_ok_def plain_snappy_def snappy_ok_def)

lemma upload3:
  "\<exists>w gw'. Upload env_ok up_ok handler3 req_ok gw3 = Some (Response w, gw') \<and> status_code w = 201 \<and>
     cluster_calm (cluster_of_gw gw') {''n1'', ''n2''} \<and>
     dom (storage_nodes (cluster_of_gw gw')) = dom (storage_nodes (cluster_of_gw gw3))"
  by (rule Upload_live [where F = "{''n3''}" and uid = "''''"])
    (use net_live_three ring3_wf database3 in \<open>simp_all add: handler3_ok env3_simps\<close>)


lemma ready3:
  "0 < chunk_size handler3" "db_inv (database_of_gw gw3)" "uuids_ok (db_of env_ok)"
  "\<forall>i. ring_wf (up_rings up_ok i)" "0 \<le> ReplicationFactor handler3"
  "separable (net_of env_ok) (blocks_of (nat (chunk_size handler3)) (reqBody req_ok))"
  by (simp_all add: handler3_ok env3_simps ring3_wf database3 separable_def)

lemma Upload_acknowledged_witness:
  "\<exists>w gw'. Upload env_ok up_ok handler3 req_ok gw3 = Some (Response w, gw') \<and>
     obj_SizeBytes (last_object gw') = 3 \<and> object_stored env_ok handler3 (obj_ID (last_object gw')) [[1, 2, 3]] gw'"
proof -
  obtain w gw' where u: "Upload env_ok up_ok handler3 req_ok gw3 = Some (Response w, gw')" "status_code w = 201"
    using upload3 by blast
  from Upload_acknowledged [OF u ready3(1-4,6)] u(1) show ?thesis by (simp add: handler3_ok) (simp add: req_ok_def)
qed



text \<open>After the upload the second node fails as well, or rather its network: one replica is enough.\<close>

definition env_n1_only :: gw_env where
  "env_n1_only = env_ok\<lparr>net_of := net_ok\<lparr>rpc_fault := (\<lambda>a k. if a = ''n1'' then Deliver else DropRequest)\<rparr>\<rparr>"

lemma upload_download_roundtrip_witness:
  "\<exists>w gw'. Upload env_ok up_ok handler3 req_ok gw3 = Some (Response w, gw') \<and>
     raw_bytes (body (fst (Download env_n1_only handler3
       (req_ok\<lparr>pathValue := (\<lambda>x. obj_ID (last_object gw'))\<rparr>) gw'))) = [1, 2, 3]"
proof -
  obtain w gw' where u: "Upload env_ok up_ok handler3 req_ok gw3 = Some (Response w, gw')" "status_code w = 201"
    and c: "cluster_calm (cluster_of_gw gw') {''n1'', ''n2''}"
      "dom (storage_nodes (cluster_of_gw gw')) = {''n1'', ''n2''}"
    using upload3 net_live_three by auto
  let ?r = "req_ok\<lparr>pathValue := (\<lambda>x. obj_ID (last_object gw'))\<rparr>"
  have env: "db_of env_n1_only = db_ok" "snappy_of env_n1_only = plain_snappy" "net_calm (net_of env_n1_only) {''n1''}"
    by (simp_all add: env_n1_only_def env3_simps net_calm_def net_ok_def)
  have own: "obj_UserID (last_object gw') = userID req_ok"
    using upload_result [OF u ready3(1-4,6)] by (auto simp: env3_simps last_object_def)
  have "same_store gw' gw'" by (simp add: same_store_def)
  moreover have "cluster_calm (cluster_of_gw gw') {''n1''}" using c(1) by (simp add: cluster_calm_def)
  ultimately have "raw_bytes (body (fst (Download env_n1_only handler3 ?r gw'))) = reqBody req_ok"
    using upload_download_roundtrip [OF u ready3(1-4,6,5), of env_n1_only gw' ?r "{''n2''}" "{''n1''}"] c(2) env own
    by (simp add: env3_simps handler3_ok)
  with u(1) show ?thesis by (simp add: req_ok_def)
qed

end
