(* ===== verification/RaftAPI.thy ===== *)
theory RaftAPI imports ClusterFSM Http begin

text \<open>
  The storage node's part in the cluster membership (\<open>cmd/storagenode/main.go\<close>): the HTTP API
  with \<open>/join\<close> and \<open>/state\<close>, the start of raft, the settings that \<open>main\<close> derives and the
  announcement of a leader. The raft library is a parameter: whether
  the node leads, and what \<open>AddVoter\<close> and \<open>Apply\<close> report and do.
\<close>

section \<open>Raft as the program sees it\<close>

record raft_env =
  State_Leader :: bool
  Leader :: string
  AddVoter_error :: "go_error option"
  Apply_error :: "go_error option"
  Apply_commits :: bool
  map_range :: "address list \<Rightarrow> address list"

text \<open>
  What raft promises: an entry whose future has no error was committed and applied. The order in
  which a map is ranged over is any permutation.
\<close>

definition raft_ok :: "raft_env \<Rightarrow> bool" where
  "raft_ok env \<longleftrightarrow> (Apply_error env = None \<longrightarrow> Apply_commits env) \<and> (\<forall>xs. mset (map_range env xs) = mset xs)"

record raft_node =
  raft_fsm :: ClusterFSM
  raft_voters :: "(string \<times> string) list"

definition raft_Apply :: "raft_env \<Rightarrow> json_text \<Rightarrow> raft_node \<Rightarrow> go_error option \<times> raft_node" where
  "raft_Apply env data n =
     (Apply_error env, if Apply_commits env then n\<lparr>raft_fsm := snd (Apply data (raft_fsm n))\<rparr> else n)"

definition raft_AddVoter :: "raft_env \<Rightarrow> string \<Rightarrow> string \<Rightarrow> raft_node \<Rightarrow> go_error option \<times> raft_node" where
  "raft_AddVoter env nodeID nodeAddr n =
     (case AddVoter_error env of
        Some err \<Rightarrow> (Some err, n)
      | None \<Rightarrow> (None, n\<lparr>raft_voters := AList.update nodeID nodeAddr (raft_voters n)\<rparr>))"

section \<open>The HTTP API\<close>

record api_request =
  api_header :: "string \<Rightarrow> string"
  api_query :: "string \<Rightarrow> string"

definition ascii_bytes :: "string \<Rightarrow> bytes" where
  "ascii_bytes s = map (\<lambda>c. of_nat (of_char c)) s"

definition raft_join :: "raft_env \<Rightarrow> string \<Rightarrow> api_request \<Rightarrow> raft_node \<Rightarrow> http_response \<times> raft_node" where
  "raft_join env clusterSecret r n =
     (let w = new_response None
      in if api_header r ''X-Cluster-Token'' \<noteq> clusterSecret then (http_Error ''Forbidden'' 403 w, n)
         else if \<not> State_Leader env then (http_Error ''Not the leader'' 502 w, n)
         else let nodeID = api_query r ''id'';
                  nodeAddr = api_query r ''addr'';
                  grpcAddr = api_query r ''grpc_addr''
              in if nodeID = '''' \<or> nodeAddr = '''' \<or> grpcAddr = ''''
                 then (http_Error ''Missing id, addr, or grpc_addr'' 400 w, n)
                 else case raft_AddVoter env nodeID nodeAddr n of
                        (Some err, n) \<Rightarrow> (http_Error (''Failed to add voter: '' @ error_text err) 500 w, n)
                      | (None, n) \<Rightarrow>
                          (let data = Encode \<lparr>Type = CmdNodeJoin, Address = grpcAddr\<rparr>
                           in case raft_Apply env data n of
                                (Some err, n) \<Rightarrow>
                                  (http_Error (''Failed to apply join to FSM: '' @ error_text err) 500 w, n)
                              | (None, n) \<Rightarrow>
                                  (snd (response_Write (Raw (ascii_bytes ''joined successfully''))
                                     (WriteHeader 200 w)), n)))"

text \<open>A Go slice without elements that was never appended to is nil, and is written as \<open>null\<close>.\<close>

definition json_of_strings :: "string list \<Rightarrow> json" where
  "json_of_strings xs = (if xs = [] then JNull else JArr (map json_string xs))"

definition raft_state :: "raft_env \<Rightarrow> string \<Rightarrow> api_request \<Rightarrow> raft_node \<Rightarrow> http_response" where
  "raft_state env clusterSecret r n =
     (let w = new_response None
      in if api_header r ''X-Cluster-Token'' \<noteq> clusterSecret then http_Error ''Forbidden'' 403 w
         else let w = set_header ''Content-Type'' ''application/json'' w;
                  leaderAddr = (if Leader env \<noteq> '''' then Leader env else '''')
              in write_json (JObj [(''leader'', json_string leaderAddr),
                                   (''nodes'', json_of_strings (fsm_GetNodes (map_range env) (raft_fsm n)))]) w)"

section \<open>Starting up\<close>

text \<open>The calls of \<open>startRaft\<close> that can fail, in their order, and the servers it bootstraps with.\<close>

record start_env =
  mkdir_error :: "go_error option"
  bolt_error :: "go_error option"
  snapshot_error :: "go_error option"
  resolve_error :: "go_error option"
  transport_error :: "go_error option"
  newraft_error :: "go_error option"

definition startRaft :: "start_env \<Rightarrow> string \<Rightarrow> string list \<Rightarrow> go_error + (string \<times> string) list" where
  "startRaft env raftAddr peers =
     (case mkdir_error env of Some err \<Rightarrow> Inl (Wrapf ''create raft dir'' err) | None \<Rightarrow>
     (case bolt_error env of Some err \<Rightarrow> Inl (Wrapf ''bolt store'' err) | None \<Rightarrow>
     (case snapshot_error env of Some err \<Rightarrow> Inl (Wrapf ''snapshot store'' err) | None \<Rightarrow>
     (case resolve_error env of Some err \<Rightarrow> Inl (Wrapf ''resolve raft addr'' err) | None \<Rightarrow>
     (case transport_error env of Some err \<Rightarrow> Inl (Wrapf ''raft transport'' err) | None \<Rightarrow>
     (case newraft_error env of Some err \<Rightarrow> Inl (Wrapf ''new raft'' err) | None \<Rightarrow>
        if length peers = 0 then Inr [(raftAddr, raftAddr)] else Inr []))))))"

fun strings_Split :: "char \<Rightarrow> string \<Rightarrow> string list" where
  "strings_Split sep [] = ['''']"
| "strings_Split sep (c # s) =
     (if c = sep then '''' # strings_Split sep s
      else case strings_Split sep s of
             [] \<Rightarrow> [[c]]
           | p # ps \<Rightarrow> (c # p) # ps)"

record node_settings =
  dataDir :: string
  raftPort :: string
  raftAddr :: string
  raftDataDir :: string
  peers :: "string list"
  raftAPIPort :: string
  grpcAddr :: string
  nodeAddress :: string

definition settings_of :: "(string \<Rightarrow> string) \<Rightarrow> string \<Rightarrow> node_settings" where
  "settings_of getenv storageNodePort =
     (let dd = getenv ''STORAGE_DATA_DIR''; dd = (if dd = '''' then ''./data/chunks'' else dd);
          rp = getenv ''RAFT_PORT''; rp = (if rp = '''' then ''1'' @ storageNodePort else rp);
          rd = getenv ''RAFT_DATA_DIR''; rd = (if rd = '''' then ''./raft/'' @ rp else rd);
          p = getenv ''RAFT_PEERS''
      in \<lparr>dataDir = dd, raftPort = rp, raftAddr = ''localhost:'' @ rp, raftDataDir = rd,
          peers = (if p \<noteq> '''' then strings_Split (CHR '','') p else []),
          raftAPIPort = ''2'' @ storageNodePort, grpcAddr = '':'' @ storageNodePort,
          nodeAddress = ''localhost:'' @ storageNodePort\<rparr>)"

text \<open>What an HTTP client gets, and the request that asks a peer to let the node join.\<close>

datatype http_reply = HttpErr go_error | HttpReply nat json_text

definition joinURL :: "string \<Rightarrow> node_settings \<Rightarrow> string" where
  "joinURL peerAPIAddr s =
     ''http://'' @ peerAPIAddr @ ''/join?id='' @ raftAddr s @ ''&addr='' @ raftAddr s @
     ''&grpc_addr='' @ nodeAddress s"

fun accepted :: "http_reply \<Rightarrow> bool" where
  "accepted (HttpErr e) = False"
| "accepted (HttpReply st b) = (st = 200)"

text \<open>Once raft has a leader, a node that leads announces itself; the result is ignored.\<close>

definition announce :: "raft_env \<Rightarrow> node_settings \<Rightarrow> raft_node \<Rightarrow> raft_node" where
  "announce env s n =
     (if State_Leader env
      then snd (raft_Apply env (Encode \<lparr>Type = CmdNodeJoin, Address = nodeAddress s\<rparr>) n)
      else n)"

section \<open>Lemmas\<close>

lemma fsm_inv_raft_Apply: "fsm_inv (raft_fsm n) \<Longrightarrow> fsm_inv (raft_fsm (snd (raft_Apply env data n)))"
  by (simp add: raft_Apply_def fsm_inv_Apply)

lemma raft_fsm_AddVoter [simp]: "raft_fsm (snd (raft_AddVoter env i a n)) = raft_fsm n"
  by (simp add: raft_AddVoter_def split: option.split)

lemma fsm_inv_raft_join: "fsm_inv (raft_fsm n) \<Longrightarrow> fsm_inv (raft_fsm (snd (raft_join env sec r n)))"
  using fsm_inv_raft_Apply [of "snd (raft_AddVoter env i a n)" for i a]
  by (auto simp: raft_join_def Let_def split_beta split: option.split prod.split
      dest: arg_cong [of _ _ "\<lambda>x. raft_fsm (snd x)"])

text \<open>A join that is answered with 200 has made the address a member.\<close>

lemma raft_join_ok:
  assumes "raft_join env sec r n = (w, n')" "status_code w = 200" "raft_ok env" "fsm_inv (raft_fsm n)"
  shows "api_header r ''X-Cluster-Token'' = sec \<and> State_Leader env \<and>
    members (raft_fsm n') = insert (to_valid_utf8 (api_query r ''grpc_addr'')) (members (raft_fsm n))"
proof -
  obtain ev n1 where v: "raft_AddVoter env (api_query r ''id'') (api_query r ''addr'') n = (ev, n1)" by fastforce
  let ?data = "Encode \<lparr>Type = CmdNodeJoin, Address = api_query r ''grpc_addr''\<rparr>"
  obtain ea n2 where a: "raft_Apply env ?data n1 = (ea, n2)" by fastforce
  have J: "api_header r ''X-Cluster-Token'' = sec" "State_Leader env" "ev = None" "ea = None" "n' = n2"
    using assms(1,2) v a
    by (auto simp: raft_join_def Let_def split: if_splits option.splits)
  have n1: "raft_fsm n1 = raft_fsm n"
    using raft_fsm_AddVoter [of env "api_query r ''id''" "api_query r ''addr''" n] v by simp
  then have "raft_fsm n2 = snd (Apply ?data (raft_fsm n))"
    using a J(4) assms(3) by (auto simp: raft_Apply_def raft_ok_def)
  moreover have "to_valid_utf8 CmdNodeJoin = CmdNodeJoin"
    by (simp add: to_valid_utf8_ascii ascii_def code_def CmdNodeJoin_def)
  ultimately show ?thesis
    using J assms(4) by (simp add: members_Apply DecodeCommand_Encode utf8_command_def apply_members_def)
qed

end
