(* ===== verification/RingManager.thy ===== *)
theory RingManager imports Ring Database RaftAPI begin

text \<open>
  The gateway's view of the cluster (\<open>internal/api/ring_manager.go\<close>): one round of \<open>SyncLoop\<close>
  asks the raft API for the members, falls back to the nodes of the database, rebuilds the ring
  and sets the degraded flag. The file shows what the state is after any number of rounds, and
  that the ring of a round that reached raft is the membership of the state machine.
\<close>

section \<open>The code\<close>

record RingManager =
  rm_Ring :: HashRing
  ClusterSecret :: string
  degraded :: bool
  rm_quorumSize :: int
  activeCount :: int

definition NewRingManager :: "int \<Rightarrow> string \<Rightarrow> int \<Rightarrow> RingManager" where
  "NewRingManager vn clusterSecret quorumSize =
     \<lparr>rm_Ring = New vn, ClusterSecret = clusterSecret, degraded = False,
      rm_quorumSize = quorumSize, activeCount = 0\<rparr>"

text \<open>Decoding into a struct with one field, a slice of strings.\<close>

fun string_element :: "json \<Rightarrow> string option" where
  "string_element (JStr s) = Some s"
| "string_element JNull = Some ''''"
| "string_element _ = None"

fun decode_nodes_member :: "string \<times> json \<Rightarrow> string list \<times> bool \<Rightarrow> string list \<times> bool" where
  "decode_nodes_member (k, v) (ns, ok) =
     (if fold_name k \<noteq> ''nodes'' then (ns, ok)
      else case v of
             JNull \<Rightarrow> ([], ok)
           | JArr js \<Rightarrow>
               (map (\<lambda>j. case string_element j of None \<Rightarrow> '''' | Some s \<Rightarrow> s) js,
                ok \<and> list_all (\<lambda>j. string_element j \<noteq> None) js)
           | _ \<Rightarrow> (ns, False))"

definition decode_state :: "json_text \<Rightarrow> go_error + string list" where
  "decode_state t =
     (case t of
        None \<Rightarrow> Inl (Errorf ''invalid JSON'')
      | Some JNull \<Rightarrow> Inr []
      | Some (JObj ms) \<Rightarrow>
          (let (ns, ok) = fold decode_nodes_member ms ([], True)
           in if ok then Inr ns else Inl (Errorf ''json: cannot unmarshal''))
      | Some _ \<Rightarrow> Inl (Errorf ''json: cannot unmarshal''))"

definition fetchRaftClusterState :: "(api_request \<Rightarrow> http_reply) \<Rightarrow> string \<Rightarrow> go_error + address list" where
  "fetchRaftClusterState raftAPI clusterSecret =
     (let req = \<lparr>api_header = (\<lambda>_. '''')(''X-Cluster-Token'' := clusterSecret), api_query = (\<lambda>_. '''')\<rparr>
      in case raftAPI req of
           HttpErr err \<Rightarrow> Inl err
         | HttpReply st b \<Rightarrow>
             if st \<noteq> 200 then Inl (Errorf (''raft API returned '' @ dec st)) else decode_state b)"

text \<open>The nodes of one round, if they can be had.\<close>

definition sync_nodes ::
  "(api_request \<Rightarrow> http_reply) \<Rightarrow> db_env \<Rightarrow> RingManager \<Rightarrow> database \<Rightarrow> address list option \<times> database" where
  "sync_nodes raftAPI env rm db =
     (case fetchRaftClusterState raftAPI (ClusterSecret rm) of
        Inr raftNodes \<Rightarrow> (Some raftNodes, db)
      | Inl err \<Rightarrow>
          (case GetAllNodes env db of
             (Inl err, db) \<Rightarrow> (None, db)
           | (Inr dbNodes, db) \<Rightarrow> (Some (map nd_Address (filter nd_IsActive dbNodes)), db)))"

text \<open>
  The part under the lock. Other goroutines read the field \<open>Ring\<close> without it: \<open>published_rings\<close>
  are the rings they can see, from the new, empty one on.
\<close>

definition rebuild :: "address list \<Rightarrow> RingManager \<Rightarrow> RingManager" where
  "rebuild activeNodes rm =
     (let rm = rm\<lparr>rm_Ring := New 50\<rparr>;
          rm = rm\<lparr>rm_Ring := fold AddNode activeNodes (rm_Ring rm)\<rparr>;
          rm = rm\<lparr>activeCount := int (length activeNodes)\<rparr>;
          rm = (if \<not> degraded rm \<and> activeCount rm < rm_quorumSize rm then rm\<lparr>degraded := True\<rparr> else rm);
          rm = (if degraded rm \<and> activeCount rm \<ge> rm_quorumSize rm then rm\<lparr>degraded := False\<rparr> else rm)
      in rm)"

definition published_rings :: "address list \<Rightarrow> HashRing list" where
  "published_rings activeNodes =
     map (\<lambda>k. fold AddNode (take k activeNodes) (New 50)) [0..<Suc (length activeNodes)]"

definition sync_step ::
  "(api_request \<Rightarrow> http_reply) \<Rightarrow> db_env \<Rightarrow> RingManager \<times> database \<Rightarrow> RingManager \<times> database" where
  "sync_step raftAPI env s =
     (let (rm, db) = s
      in case sync_nodes raftAPI env rm db of
           (None, db) \<Rightarrow> (rm, db)
         | (Some activeNodes, db) \<Rightarrow> (rebuild activeNodes rm, db))"

definition IsDegraded :: "RingManager \<Rightarrow> bool" where
  "IsDegraded rm = degraded rm"

definition ActiveNodeCount :: "RingManager \<Rightarrow> int" where
  "ActiveNodeCount rm = activeCount rm"

section \<open>Rounds\<close>

text \<open>
  The states that the loop can be in, with the nodes of the last round that could get them: the
  rounds see any raft API and any database, and between two rounds the database changes.
\<close>

inductive sync_reachable :: "string \<Rightarrow> int \<Rightarrow> address list option \<Rightarrow> RingManager \<Rightarrow> bool"
  for secret :: string and q :: int where
  start: "sync_reachable secret q None (NewRingManager vn secret q)"
| skip: "sync_reachable secret q ns rm \<Longrightarrow> sync_nodes raftAPI env rm db = (None, db') \<Longrightarrow>
    sync_reachable secret q ns (fst (sync_step raftAPI env (rm, db)))"
| sync: "sync_reachable secret q ns rm \<Longrightarrow> sync_nodes raftAPI env rm db = (Some ns', db') \<Longrightarrow>
    sync_reachable secret q (Some ns') (fst (sync_step raftAPI env (rm, db)))"

lemma rebuild_eq:
  "rebuild ns rm = rm\<lparr>rm_Ring := build 50 ns, activeCount := int (length ns),
     degraded := (int (length ns) < rm_quorumSize rm)\<rparr>"
  by (cases rm) (simp add: rebuild_def build_def Let_def)

lemma sync_reachable_spec:
  "sync_reachable secret q ns rm \<Longrightarrow> ClusterSecret rm = secret \<and> rm_quorumSize rm = q \<and>
     (case ns of
        None \<Rightarrow> (\<exists>vn. rm_Ring rm = New vn) \<and> \<not> degraded rm \<and> activeCount rm = 0
      | Some ns \<Rightarrow> rm_Ring rm = build 50 ns \<and> activeCount rm = int (length ns) \<and>
          (degraded rm \<longleftrightarrow> int (length ns) < q))"
proof (induction rule: sync_reachable.induct)
  case (start vn)
  then show ?case by (auto simp: NewRingManager_def)
next
  case (skip ns rm raftAPI env db db')
  then have same: "fst (sync_step raftAPI env (rm, db)) = rm" by (simp add: sync_step_def)
  show ?case unfolding same by (rule skip.IH)
next
  case (sync ns rm raftAPI env db ns' db')
  then show ?case by (simp add: sync_step_def rebuild_eq)
qed

section \<open>The membership reaches the ring\<close>

text \<open>What an HTTP client gets of a response.\<close>

definition reply_of :: "http_response \<Rightarrow> http_reply" where
  "reply_of w = HttpReply (status_code w) (case body w of [Json j] \<Rightarrow> Some j | _ \<Rightarrow> None)"

lemma fold_name_nodes [simp]: "fold_name ''nodes'' = ''nodes''" "fold_name ''leader'' = ''leader''"
  by (simp_all add: fold_name.simps lower_def code_def)

lemma decode_json_of_strings:
  "decode_state (Some (JObj [(''leader'', json_string l), (''nodes'', json_of_strings xs)])) =
     Inr (map to_valid_utf8 xs)"
  by (simp add: decode_state_def json_of_strings_def json_string_def comp_def list_all_iff)

lemma fetch_state:
  "fetchRaftClusterState (\<lambda>r. reply_of (raft_state env secret r n)) secret =
     Inr (map to_valid_utf8 (fsm_GetNodes (map_range env) (raft_fsm n)))"
proof -
  let ?r = "\<lparr>api_header = (\<lambda>_. '''')(''X-Cluster-Token'' := secret), api_query = (\<lambda>_. '''')\<rparr> :: api_request"
  let ?l = "if Leader env \<noteq> '''' then Leader env else ''''"
  let ?j = "JObj [(''leader'', json_string ?l), (''nodes'', json_of_strings (fsm_GetNodes (map_range env) (raft_fsm n)))]"
  have "reply_of (raft_state env secret ?r n) = HttpReply 200 (Some ?j)"
    by (simp add: raft_state_def Let_def reply_of_def write_json_def response_Write_def WriteHeader_def
        set_header_def new_response_def status_code_def)
  then show ?thesis
    unfolding fetchRaftClusterState_def Let_def by (simp only: http_reply.case decode_json_of_strings) simp
qed

lemma sync_members:
  assumes "raft_ok renv"
  shows "dom (nodesMap (rm_Ring (fst (sync_step
           (\<lambda>r. reply_of (raft_state renv (ClusterSecret rm) r n)) env (rm, db))))) =
         to_valid_utf8 ` members (raft_fsm n)"
proof -
  have "set (map_range renv xs) = set xs" for xs
    using assms by (metis raft_ok_def mset_eq_setD)
  then show ?thesis
    by (simp add: sync_step_def sync_nodes_def fetch_state rebuild_eq fsm_GetNodes_def members_def)
qed

section \<open>Properties\<close>

text \<open>
  C34: whatever the raft API answers and whatever the database does, in any number of rounds: the
  ring is the one built from the nodes of the last round that could get them, the count is
  theirs, and the gateway counts as degraded exactly while they are fewer than the quorum. A
  round that gets no nodes changes nothing.
\<close>

theorem sync_state:
  assumes "sync_reachable secret q (Some ns) rm"
  shows "rm_Ring rm = build 50 ns \<and> ActiveNodeCount rm = int (length ns) \<and>
         (IsDegraded rm \<longleftrightarrow> int (length ns) < q) \<and> ClusterSecret rm = secret"
  using sync_reachable_spec [OF assms] by (simp add: ActiveNodeCount_def IsDegraded_def)

text \<open>
  C35: the ring is the membership. A round that asks a node whose cluster secret is the gateway's
  gives a ring with exactly the members of that node's state machine (as JSON carries them),
  whatever the database says about their health: a member that is down stays in the ring.
\<close>

theorem sync_is_membership:
  assumes "raft_ok renv"
  shows "dom (nodesMap (rm_Ring (fst (sync_step
           (\<lambda>r. reply_of (raft_state renv (ClusterSecret rm) r n)) env (rm, db))))) =
         to_valid_utf8 ` members (raft_fsm n)"
  using assms by (rule sync_members)

text \<open>
  A node that was let into the cluster is in the gateway's next ring. When the leader has
  answered its \<open>/join\<close> with 200, a round that asks the leader with the same secret adds it.
\<close>

theorem join_reaches_ring:
  assumes "raft_join renv (ClusterSecret rm) r n = (w, n')" "status_code w = 200" "raft_ok renv" "raft_ok renv2"
    and "fsm_inv (raft_fsm n)" "api_query r ''grpc_addr'' = a" "to_valid_utf8 a = a"
  shows "a \<in> dom (nodesMap (rm_Ring (fst (sync_step
           (\<lambda>r. reply_of (raft_state renv2 (ClusterSecret rm) r n')) env (rm, db)))))"
proof -
  have "a \<in> members (raft_fsm n')" using raft_join_ok [OF assms(1-3,5)] assms(6,7) by simp
  with assms(7) show ?thesis unfolding sync_members [OF assms(4)] by (metis image_eqI)
qed

section \<open>Concrete instances\<close>

definition raft_leading :: raft_env where
  "raft_leading = \<lparr>State_Leader = True, Leader = ''localhost:19001'', AddVoter_error = None, Apply_error = None,
     Apply_commits = True, map_range = rev\<rparr>"

definition raft_new :: raft_node where
  "raft_new = \<lparr>raft_fsm = NewClusterFSM, raft_voters = []\<rparr>"

definition join_request :: api_request where
  "join_request = \<lparr>api_header = (\<lambda>_. ''s''), api_query = (\<lambda>_. ''n1'')\<rparr>"

lemma raft_leading_ok: "raft_ok raft_leading"
  by (simp add: raft_ok_def raft_leading_def)

lemma utf8_n1: "to_valid_utf8 ''n1'' = ''n1''"
  by (simp add: to_valid_utf8_ascii ascii_def code_def)

lemma joined: "status_code (fst (raft_join raft_leading ''s'' join_request raft_new)) = 200"
  by (simp add: raft_join_def join_request_def raft_leading_def raft_AddVoter_def raft_Apply_def Let_def
      response_Write_def WriteHeader_def new_response_def status_code_def)

lemma sync_state_witness:
  "\<not> IsDegraded (fst (sync_step (\<lambda>r. reply_of (raft_state raft_leading ''s'' r
      (snd (raft_join raft_leading ''s'' join_request raft_new)))) db_ok (NewRingManager 50 ''s'' 1, empty_db)))"
proof -
  let ?n = "snd (raft_join raft_leading ''s'' join_request raft_new)"
  let ?api = "\<lambda>r. reply_of (raft_state raft_leading ''s'' r ?n)"
  let ?rm = "NewRingManager 50 ''s'' 1"
  obtain ns where ns: "sync_nodes ?api db_ok ?rm empty_db = (Some ns, empty_db)"
    by (simp add: sync_nodes_def fetch_state NewRingManager_def)
  from sync_reachable.sync [OF start ns] have "sync_reachable ''s'' 1 (Some ns) (fst (sync_step ?api db_ok (?rm, empty_db)))" .
  note S = sync_state [OF this]
  have "members (raft_fsm ?n) = {''n1''}"
    using raft_join_ok [OF surjective_pairing joined raft_leading_ok] fsm_inv_New
    by (simp add: raft_new_def join_request_def utf8_n1)
  moreover have sec: "ClusterSecret ?rm = ''s''" by (simp add: NewRingManager_def)
  have "set ns = to_valid_utf8 ` members (raft_fsm ?n)"
    using sync_members [OF raft_leading_ok, of ?rm ?n db_ok empty_db]
    by (simp only: S [THEN conjunct1] sec dom_nodesMap_build)
  ultimately have "\<not> int (length ns) < 1" by (cases ns) simp_all
  with S show ?thesis by blast
qed

lemma sync_is_membership_witness:
  "dom (nodesMap (rm_Ring (fst (sync_step (\<lambda>r. reply_of (raft_state raft_leading ''s'' r
      (snd (raft_join raft_leading ''s'' join_request raft_new)))) db_ok (NewRingManager 50 ''s'' 1, empty_db)))))
    = {''n1''}"
  using sync_is_membership [OF raft_leading_ok, of "NewRingManager 50 ''s'' 1"]
    raft_join_ok [OF surjective_pairing joined raft_leading_ok] fsm_inv_New
  by (simp add: NewRingManager_def raft_new_def join_request_def utf8_n1)

lemma join_reaches_ring_witness:
  "''n1'' \<in> dom (nodesMap (rm_Ring (fst (sync_step (\<lambda>r. reply_of (raft_state raft_leading ''s'' r
      (snd (raft_join raft_leading ''s'' join_request raft_new)))) db_ok (NewRingManager 50 ''s'' 2, empty_db)))))"
proof -
  have "raft_join raft_leading (ClusterSecret (NewRingManager 50 ''s'' 2)) join_request raft_new =
      (fst (raft_join raft_leading ''s'' join_request raft_new), snd (raft_join raft_leading ''s'' join_request raft_new))"
    by (simp add: NewRingManager_def)
  from join_reaches_ring [OF this joined raft_leading_ok raft_leading_ok, of "''n1''"] fsm_inv_New
  show ?thesis by (simp add: NewRingManager_def raft_new_def join_request_def utf8_n1)
qed

end
