(* ===== verification/Rebalancer.thy ===== *)
theory Rebalancer imports ObjectStore RingManager begin

text \<open>
  The background loop that moves chunks to the nodes the ring assigns them to
  (\<open>internal/api/rebalancer.go\<close>). One pass reads all chunks and, for each, fetches a copy, saves it
  to the nodes that miss it and deletes it from the nodes that should not have it. The file
  shows that a pass keeps the metadata true, that it converges when nothing fails, and that it
  destroys a chunk when all its saves fail.
\<close>

section \<open>The code\<close>

text \<open>
  What a pass depends on besides the stored state: the ring that each chunk's iteration reads
  (the first one is that of the test for emptiness), the order in which the maps are ranged over,
  and the schedules of the saves.
\<close>

record rb_env =
  rb_rings :: "nat \<Rightarrow> HashRing"
  rb_expected :: "nat \<Rightarrow> nat list"
  rb_current :: "nat \<Rightarrow> nat list"
  rb_fetches :: "nat \<Rightarrow> nat list"
  rb_sched :: "nat \<Rightarrow> (nat \<times> nat) list"

text \<open>The loop over the current nodes: the first copy that can be had, or the last error.\<close>

fun rb_fetch ::
  "net_env \<Rightarrow> string \<Rightarrow> address list \<Rightarrow> go_error + bytes \<Rightarrow> cluster \<Rightarrow> (go_error + bytes) \<times> cluster" where
  "rb_fetch net hash [] r c = (r, c)"
| "rb_fetch net hash (n # ns) r c =
     (case client_GetChunk net n hash c of
        (Inr chunkData, c) \<Rightarrow> (Inr chunkData, c)
      | (Inl getErr, c) \<Rightarrow> rb_fetch net hash ns (Inl getErr) c)"

fun add_locations :: "db_env \<Rightarrow> uuid \<Rightarrow> address list \<Rightarrow> database \<Rightarrow> database" where
  "add_locations env chunkID [] db = db"
| "add_locations env chunkID (n # ns) db =
     (let (err, db) = AddChunkLocation env chunkID n db in add_locations env chunkID ns db)"

fun drop_obsolete :: "gw_env \<Rightarrow> uuid \<Rightarrow> string \<Rightarrow> address list \<Rightarrow> gateway \<Rightarrow> gateway" where
  "drop_obsolete env chunkID hash [] gw = gw"
| "drop_obsolete env chunkID hash (n # ns) gw =
     (let (err, c) = client_DeleteChunk (net_of env) n hash (cluster_of_gw gw);
          (err, db) = RemoveChunkLocation (db_of env) chunkID n (database_of_gw gw)
      in drop_obsolete env chunkID hash ns \<lparr>cluster_of_gw = c, database_of_gw = db\<rparr>)"

definition missing_nodes :: "nat list \<Rightarrow> address list \<Rightarrow> address list \<Rightarrow> address list" where
  "missing_nodes p expected current = filter (\<lambda>n. n \<notin> set current) (shuffle p (remdups expected))"

definition rebalance_chunk ::
  "gw_env \<Rightarrow> rb_env \<Rightarrow> int \<Rightarrow> nat \<times> Chunk \<Rightarrow> gateway \<Rightarrow> gateway" where
  "rebalance_chunk env rb replicationFactor ic gw =
     (let (i, chunk) = ic;
          expectedNodes = GetNodes (rb_rings rb (Suc i)) (ch_Hash chunk) replicationFactor;
          missingNodes = missing_nodes (rb_expected rb i) expectedNodes (ch_NodeAddresses chunk);
          obsoleteNodes = missing_nodes (rb_current rb i) (ch_NodeAddresses chunk) expectedNodes
      in if missingNodes = [] \<and> obsoleteNodes = [] then gw
         else let (chunkData, c) = rb_fetch (net_of env) (ch_Hash chunk)
                    (shuffle (rb_fetches rb i) (remdups (ch_NodeAddresses chunk))) (Inr []) (cluster_of_gw gw);
                  gw = gw\<lparr>cluster_of_gw := c\<rparr>
              in case chunkData of
                   Inl getErr \<Rightarrow> gw
                 | Inr chunkData \<Rightarrow>
                     if length chunkData = 0 then gw
                     else let gw = (if missingNodes \<noteq> []
                            then let ((successNodes, errs), c) =
                                       client_SaveChunk (net_of env) (rb_sched rb i) missingNodes
                                         (ch_Hash chunk) chunkData (cluster_of_gw gw)
                                 in \<lparr>cluster_of_gw = c, database_of_gw =
                                      add_locations (db_of env) (ch_ID chunk) successNodes (database_of_gw gw)\<rparr>
                            else gw)
                          in drop_obsolete env (ch_ID chunk) (ch_Hash chunk) obsoleteNodes gw)"

definition rebalance_scan :: "gw_env \<Rightarrow> HashRing \<Rightarrow> gateway \<Rightarrow> (nat \<times> Chunk) list \<times> gateway" where
  "rebalance_scan env rg gw =
     (let (cs, db) = GetAllChunks (db_of env) (database_of_gw gw);
          gw = gw\<lparr>database_of_gw := db\<rparr>
      in case cs of
           Inl err \<Rightarrow> ([], gw)
         | Inr cs \<Rightarrow>
             if length cs = 0 then ([], gw)
             else if IsEmpty rg then ([], gw)
             else (enumerate 0 cs, gw))"

definition rebalance_pass :: "gw_env \<Rightarrow> rb_env \<Rightarrow> int \<Rightarrow> gateway \<Rightarrow> gateway" where
  "rebalance_pass env rb replicationFactor gw =
     (let (chunks, gw) = rebalance_scan env (rb_rings rb 0) gw
      in fold (rebalance_chunk env rb replicationFactor) chunks gw)"

lemma rebalance_pass_unfold:
  "rebalance_pass env rb replicationFactor gw =
     (let (cs, db) = GetAllChunks (db_of env) (database_of_gw gw);
          gw = gw\<lparr>database_of_gw := db\<rparr>
      in case cs of
           Inl err \<Rightarrow> gw
         | Inr cs \<Rightarrow>
             if length cs = 0 then gw
             else if IsEmpty (rb_rings rb 0) then gw
             else fold (rebalance_chunk env rb replicationFactor) (enumerate 0 cs) gw)"
  by (simp add: rebalance_pass_def rebalance_scan_def Let_def split: prod.split sum.split)

section \<open>Lemmas\<close>

lemma set_missing [simp]: "set (missing_nodes p xs ys) = set xs - set ys"
  by (auto simp: missing_nodes_def)

lemma distinct_missing [simp]: "distinct (missing_nodes p xs ys)"
  by (simp add: missing_nodes_def)

subsection \<open>The storage nodes\<close>

lemma client_call_frame_chunk:
  assumes "plain_name h" "request_ok req" "b = a \<longrightarrow> \<not> changes req h"
  shows "node_holds (snd (client_call net a req c)) b h d = node_holds c b h d"
proof (cases rule: client_call_cases [of c a net req])
  case (ran c1 r c2)
  with client_operation_frame_chunk [OF assms, of net c1 d] show ?thesis by (simp add: breaker_leave_eq)
qed simp

lemma client_DeleteChunk_eq:
  "snd (client_DeleteChunk net a h c) = snd (client_call net a (ReqDelete h) c)"
  by (auto simp: client_DeleteChunk_def split: prod.split sum.split)

lemma rb_fetch_holds:
  assumes "rb_fetch net h ns r c = (Inr d, c')" "plain_name h"
  shows "(\<exists>a \<in> set ns. node_holds c a h d) \<or> r = Inr d \<and> ns = []"
  using assms(1)
proof (induction ns arbitrary: r c)
  case (Cons n ns)
  obtain v c1 where v: "client_GetChunk net n h c = (v, c1)" by fastforce
  show ?case
  proof (cases v)
    case (Inr data)
    with v Cons.prems client_GetChunk_holds [OF _ assms(2)] show ?thesis by auto
  next
    case (Inl e)
    with v Cons.prems have "rb_fetch net h ns (Inl e) c1 = (Inr d, c')" by simp
    from Cons.IH [OF this] obtain a where "a \<in> set ns" "node_holds c1 a h d" by auto
    moreover have "storage_nodes c1 = storage_nodes c" using client_GetChunk_frame [of net n h c] v by simp
    ultimately show ?thesis by (auto simp: node_holds_def)
  qed
qed simp

lemma rb_fetch_frame: "storage_nodes (snd (rb_fetch net h ns r c)) = storage_nodes c"
proof (induction ns arbitrary: r c)
  case (Cons n ns)
  obtain v c1 where "client_GetChunk net n h c = (v, c1)" by fastforce
  with Cons client_GetChunk_frame [of net n h c] show ?case by (auto split: sum.split)
qed simp

subsection \<open>The locations\<close>

lemma AddChunkLocation_locations:
  assumes "db_calm env" "uuid_in env u = Some u" "u \<in> ch_ID ` set (chunks db)"
  shows "set (locations_of (snd (AddChunkLocation env u n db)) i) =
      (if i = u \<and> text_ok env n then insert n (set (locations_of db i)) else set (locations_of db i))"
    "chunks (snd (AddChunkLocation env u n db)) = chunks db"
    "objects (snd (AddChunkLocation env u n db)) = objects db"
  using assms
  by (auto simp: AddChunkLocation_def exec_stmt_def locations_of_def db_calm_def Let_def image_iff split: option.split)

lemma add_locations_set:
  assumes "db_calm env" "uuid_in env u = Some u"
  shows "u \<in> ch_ID ` set (chunks db) \<Longrightarrow>
    set (locations_of (add_locations env u ns db) i) =
      (if i = u then set (locations_of db i) \<union> {n \<in> set ns. text_ok env n} else set (locations_of db i)) \<and>
    chunks (add_locations env u ns db) = chunks db \<and> objects (add_locations env u ns db) = objects db"
proof (induction ns arbitrary: db)
  case (Cons n ns)
  note A = AddChunkLocation_locations [OF assms Cons.prems]
  have "u \<in> ch_ID ` set (chunks (snd (AddChunkLocation env u n db)))" using Cons.prems A(2) by simp
  from Cons.IH [OF this] A show ?case by (auto simp: split_beta Let_def)
qed simp

lemma RemoveChunkLocation_locations:
  assumes "db_calm env" "uuid_in env u = Some u"
  shows "set (locations_of (snd (RemoveChunkLocation env u n db)) i) =
      (if i = u then set (locations_of db i) - {n} else set (locations_of db i))"
    "chunks (snd (RemoveChunkLocation env u n db)) = chunks db"
    "objects (snd (RemoveChunkLocation env u n db)) = objects db"
  using assms
  by (auto simp: RemoveChunkLocation_def exec_stmt_def locations_of_def db_calm_def Let_def split: option.split)

lemma drop_obsolete_spec:
  assumes "db_calm (db_of env)" "uuid_in (db_of env) u = Some u" "plain_name h"
  shows "set (locations_of (database_of_gw (drop_obsolete env u h ns gw)) i) =
      (if i = u then set (locations_of (database_of_gw gw) i) - set ns else set (locations_of (database_of_gw gw) i)) \<and>
    chunks (database_of_gw (drop_obsolete env u h ns gw)) = chunks (database_of_gw gw) \<and>
    objects (database_of_gw (drop_obsolete env u h ns gw)) = objects (database_of_gw gw) \<and>
    (a \<notin> set ns \<longrightarrow> node_holds (cluster_of_gw (drop_obsolete env u h ns gw)) a h d = node_holds (cluster_of_gw gw) a h d)"
proof (induction ns arbitrary: gw)
  case (Cons n ns)
  note R = RemoveChunkLocation_locations [OF assms(1,2)]
  have D: "a \<noteq> n \<Longrightarrow> node_holds (snd (client_DeleteChunk (net_of env) n h (cluster_of_gw gw))) a h d
      = node_holds (cluster_of_gw gw) a h d"
    using client_call_frame_chunk [OF assms(3), of "ReqDelete h" a n] assms(3) by (simp add: client_DeleteChunk_eq)
  show ?case using Cons.IH R D by (simp add: split_beta Let_def) blast
qed simp


subsection \<open>One chunk\<close>

definition expected_nodes :: "rb_env \<Rightarrow> int \<Rightarrow> nat \<times> Chunk \<Rightarrow> address list" where
  "expected_nodes rb replicationFactor ic =
     GetNodes (rb_rings rb (Suc (fst ic))) (ch_Hash (snd ic)) replicationFactor"

lemma rebalance_chunk_cases:
  fixes ch :: Chunk and rb :: rb_env and rf :: int and i :: nat
  defines "E \<equiv> expected_nodes rb rf (i, ch)"
  defines "miss \<equiv> missing_nodes (rb_expected rb i) E (ch_NodeAddresses ch)"
  defines "obs \<equiv> missing_nodes (rb_current rb i) (ch_NodeAddresses ch) E"
  obtains (balanced) "set E = set (ch_NodeAddresses ch)" "rebalance_chunk env rb rf (i, ch) gw = gw"
  | (unavailable) r c1 where
      "rb_fetch (net_of env) (ch_Hash ch) (shuffle (rb_fetches rb i) (remdups (ch_NodeAddresses ch))) (Inr [])
         (cluster_of_gw gw) = (r, c1)" "is_err r \<or> r = Inr []"
      "rebalance_chunk env rb rf (i, ch) gw = gw\<lparr>cluster_of_gw := c1\<rparr>"
  | (moved) data c1 succ c2 where
      "rb_fetch (net_of env) (ch_Hash ch) (shuffle (rb_fetches rb i) (remdups (ch_NodeAddresses ch))) (Inr [])
         (cluster_of_gw gw) = (Inr data, c1)" "data \<noteq> []"
      "(miss = [] \<and> succ = [] \<and> c2 = c1) \<or>
       (\<exists>errs. client_SaveChunk (net_of env) (rb_sched rb i) miss (ch_Hash ch) data c1 = ((succ, errs), c2))"
      "rebalance_chunk env rb rf (i, ch) gw = drop_obsolete env (ch_ID ch) (ch_Hash ch) obs
         \<lparr>cluster_of_gw = c2, database_of_gw = add_locations (db_of env) (ch_ID ch) succ (database_of_gw gw)\<rparr>"
proof -
  obtain r c1 where f: "rb_fetch (net_of env) (ch_Hash ch)
      (shuffle (rb_fetches rb i) (remdups (ch_NodeAddresses ch))) (Inr []) (cluster_of_gw gw) = (r, c1)" by fastforce
  have E: "GetNodes (rb_rings rb (Suc i)) (ch_Hash ch) rf = E" by (simp add: E_def expected_nodes_def)
  have R: "rebalance_chunk env rb rf (i, ch) gw =
      (if miss = [] \<and> obs = [] then gw
       else case r of
              Inl getErr \<Rightarrow> gw\<lparr>cluster_of_gw := c1\<rparr>
            | Inr data \<Rightarrow>
                if length data = 0 then gw\<lparr>cluster_of_gw := c1\<rparr>
                else drop_obsolete env (ch_ID ch) (ch_Hash ch) obs
                  (if miss \<noteq> []
                   then let ((succ, errs), c) = client_SaveChunk (net_of env) (rb_sched rb i) miss (ch_Hash ch) data c1
                        in \<lparr>cluster_of_gw = c,
                            database_of_gw = add_locations (db_of env) (ch_ID ch) succ (database_of_gw gw)\<rparr>
                   else gw\<lparr>cluster_of_gw := c1\<rparr>))"
    unfolding rebalance_chunk_def Let_def prod.case E miss_def obs_def f by (cases r) simp_all
  show thesis
  proof (cases "miss = [] \<and> obs = []")
    case True
    then have "set E - set (ch_NodeAddresses ch) = {}" "set (ch_NodeAddresses ch) - set E = {}"
      unfolding miss_def obs_def by (metis set_missing list.set(1))+
    then have "set E = set (ch_NodeAddresses ch)" by blast
    with True R show thesis by (intro balanced) simp_all
  next
    case False
    show thesis
    proof (cases "is_err r \<or> r = Inr []")
      case True
      with False R f show thesis by (intro unavailable [OF f]) (auto split: sum.splits)
    next
      case ok: False
      then obtain data where data: "r = Inr data" "data \<noteq> []" by (cases r) auto
      obtain succ errs c2 where s: "client_SaveChunk (net_of env) (rb_sched rb i) miss (ch_Hash ch) data c1 = ((succ, errs), c2)"
        by (metis prod.exhaust)
      show thesis
      proof (cases "miss = []")
        case True
        have gw: "gw\<lparr>cluster_of_gw := c1\<rparr> = \<lparr>cluster_of_gw = c1, database_of_gw = database_of_gw gw\<rparr>" by simp
        from True False R data f show thesis
          by (intro moved [of data c1 "[]" c1]) (simp_all add: gw)
      next
        case False
        with R data f s show thesis by (intro moved [of data c1 succ c2]) auto
      qed
    qed
  qed
qed

lemma save_missing:
  assumes "(miss = [] \<and> succ = [] \<and> c2 = c1) \<or>
      (\<exists>errs. client_SaveChunk net sched miss h data c1 = ((succ, errs), c2))"
    and "distinct miss" "plain_name h"
  shows "set succ \<subseteq> set miss" "a \<in> set succ \<Longrightarrow> node_holds c2 a h data"
    "a \<notin> set miss \<Longrightarrow> node_holds c2 a h d = node_holds c1 a h d"
    "dom (storage_nodes c2) = dom (storage_nodes c1)"
proof -
  note S = SaveChunk_success [OF _ assms(2,3), where net = net and sched = sched and d = data]
  show "set succ \<subseteq> set miss" using assms(1) S(2) by fastforce
  show "a \<in> set succ \<Longrightarrow> node_holds c2 a h data" using assms(1) S(4) by auto
  have f: "snd (client_SaveChunk net sched miss h data c1) =
      snd (snd (fan_out net (map (\<lambda>a. (a, ReqSave h data)) miss) sched c1))"
    by (simp add: client_SaveChunk_def Let_def split_beta)
  show "a \<notin> set miss \<Longrightarrow> node_holds c2 a h d = node_holds c1 a h d"
    using assms(1) f fan_out_frame [OF assms(3), of "map (\<lambda>a. (a, ReqSave h data)) miss" a net sched c1 d] assms(3)
    by (auto simp: in_set_conv_nth)
  show "dom (storage_nodes c2) = dom (storage_nodes c1)"
    using assms(1) f dom_fan_out [of net "map (\<lambda>a. (a, ReqSave h data)) miss" sched c1] by (metis snd_conv)
qed


section \<open>What a pass promises for a chunk\<close>

text \<open>
  The chunk as \<open>GetAllChunks\<close> has read it, with all its replicas in place: \<open>G\<close> is what makes
  the contents of a file a good replica.
\<close>

definition chunk_ok :: "(bytes \<Rightarrow> bool) \<Rightarrow> Chunk \<Rightarrow> gateway \<Rightarrow> bool" where
  "chunk_ok G ch gw \<longleftrightarrow> ch_ID ch \<in> ch_ID ` set (chunks (database_of_gw gw)) \<and> plain_name (ch_Hash ch) \<and>
     set (ch_NodeAddresses ch) = set (locations_of (database_of_gw gw) (ch_ID ch)) \<and> ch_NodeAddresses ch \<noteq> [] \<and>
     (\<forall>a \<in> set (ch_NodeAddresses ch). \<exists>d. node_holds (cluster_of_gw gw) a (ch_Hash ch) d \<and> G d \<and> d \<noteq> [])"

lemma node_holds_unique: "node_holds c a h d \<Longrightarrow> node_holds c a h d' \<Longrightarrow> d = d'"
  by (auto simp: node_holds_def)

lemma node_holds_cong: "storage_nodes c' = storage_nodes c \<Longrightarrow> node_holds c' = node_holds c"
  by (simp add: node_holds_def fun_eq_iff)

text \<open>
  A chunk that is moved: the data is a good replica, the new locations are those of the saves
  that succeeded and the old ones that are expected, and no other location is touched.
\<close>

lemma moved_spec:
  fixes ch :: Chunk
  assumes "db_calm (db_of env)" "uuid_in (db_of env) (ch_ID ch) = Some (ch_ID ch)" "chunk_ok G ch gw"
    and "rb_fetch (net_of env) (ch_Hash ch) p (Inr []) (cluster_of_gw gw) = (Inr data, c1)" "data \<noteq> []"
      "set p = set (ch_NodeAddresses ch)"
    and "(miss = [] \<and> succ = [] \<and> c2 = c1) \<or>
      (\<exists>errs. client_SaveChunk (net_of env) sched miss (ch_Hash ch) data c1 = ((succ, errs), c2))"
    and "distinct miss" "set miss = set E - set (ch_NodeAddresses ch)" "set obs = set (ch_NodeAddresses ch) - set E"
    and "gw' = drop_obsolete env (ch_ID ch) (ch_Hash ch) obs
         \<lparr>cluster_of_gw = c2, database_of_gw = add_locations (db_of env) (ch_ID ch) succ (database_of_gw gw)\<rparr>"
  shows "G data" "set (locations_of (database_of_gw gw') i) =
      (if i = ch_ID ch then set (ch_NodeAddresses ch) \<inter> set E \<union> {n \<in> set succ. text_ok (db_of env) n}
       else set (locations_of (database_of_gw gw) i))"
    "chunks (database_of_gw gw') = chunks (database_of_gw gw)"
    "objects (database_of_gw gw') = objects (database_of_gw gw)"
    "a \<in> set (ch_NodeAddresses ch) \<inter> set E \<Longrightarrow>
       node_holds (cluster_of_gw gw') a (ch_Hash ch) d = node_holds (cluster_of_gw gw) a (ch_Hash ch) d"
    "a \<in> set succ \<Longrightarrow> node_holds (cluster_of_gw gw') a (ch_Hash ch) data"
proof -
  have ok: "plain_name (ch_Hash ch)" "ch_ID ch \<in> ch_ID ` set (chunks (database_of_gw gw))"
    "set (ch_NodeAddresses ch) = set (locations_of (database_of_gw gw) (ch_ID ch))"
    using assms(3) by (simp_all add: chunk_ok_def)
  obtain b where b: "b \<in> set p" "node_holds (cluster_of_gw gw) b (ch_Hash ch) data"
    using rb_fetch_holds [OF assms(4) ok(1)] assms(5) by auto
  with assms(3,6) node_holds_unique show "G data" by (metis chunk_ok_def)
  note S = save_missing [OF assms(7,8) ok(1)]
  note D = drop_obsolete_spec [OF assms(1,2) ok(1), of obs
      "\<lparr>cluster_of_gw = c2, database_of_gw = add_locations (db_of env) (ch_ID ch) succ (database_of_gw gw)\<rparr>",
      folded assms(11), simplified]
  note A = add_locations_set [OF assms(1,2) ok(2), of succ]
  show "chunks (database_of_gw gw') = chunks (database_of_gw gw)"
    "objects (database_of_gw gw') = objects (database_of_gw gw)" using D A by simp_all
  have "set succ \<inter> set obs = {}" using S(1) assms(9,10) by blast
  then show "set (locations_of (database_of_gw gw') i) =
      (if i = ch_ID ch then set (ch_NodeAddresses ch) \<inter> set E \<union> {n \<in> set succ. text_ok (db_of env) n}
       else set (locations_of (database_of_gw gw) i))"
    using D A ok(3) assms(10) by auto
  have c1: "node_holds c1 = node_holds (cluster_of_gw gw)"
    using rb_fetch_frame [of "net_of env" "ch_Hash ch" p "Inr []" "cluster_of_gw gw"] assms(4)
    by (intro node_holds_cong) simp
  have D2: "a \<notin> set obs \<Longrightarrow> node_holds (cluster_of_gw gw') a (ch_Hash ch) d = node_holds c2 a (ch_Hash ch) d" for a d
    using D by blast
  show "a \<in> set (ch_NodeAddresses ch) \<inter> set E \<Longrightarrow>
       node_holds (cluster_of_gw gw') a (ch_Hash ch) d = node_holds (cluster_of_gw gw) a (ch_Hash ch) d"
    using D2 [of a d] S(3) [of a d] assms(9,10) c1 by auto
  show "a \<in> set succ \<Longrightarrow> node_holds (cluster_of_gw gw') a (ch_Hash ch) data"
    using D2 [of a data] S(1) S(2) [of a] assms(9,10) by auto
qed

lemma rebalance_sound_lemma:
  fixes ch :: Chunk
  assumes "db_calm (db_of env)" "uuid_in (db_of env) (ch_ID ch) = Some (ch_ID ch)" "chunk_ok G ch gw"
    and "gw' = rebalance_chunk env rb rf (i, ch) gw"
  shows "(\<forall>a \<in> set (locations_of (database_of_gw gw') (ch_ID ch)).
      \<exists>d. node_holds (cluster_of_gw gw') a (ch_Hash ch) d \<and> G d \<and> d \<noteq> []) \<and>
    set (ch_NodeAddresses ch) \<inter> set (expected_nodes rb rf (i, ch)) \<subseteq> set (locations_of (database_of_gw gw') (ch_ID ch)) \<and>
    (\<forall>j. j \<noteq> ch_ID ch \<longrightarrow> set (locations_of (database_of_gw gw') j) = set (locations_of (database_of_gw gw) j)) \<and>
    chunks (database_of_gw gw') = chunks (database_of_gw gw) \<and> objects (database_of_gw gw') = objects (database_of_gw gw)"
proof -
  have ok: "plain_name (ch_Hash ch)" using assms(3) by (simp add: chunk_ok_def)
  show ?thesis
  proof (cases rule: rebalance_chunk_cases [of rb rf i ch env gw])
    case balanced
    with assms(3,4) show ?thesis by (auto simp: chunk_ok_def)
  next
    case (unavailable r c1)
    have "node_holds c1 = node_holds (cluster_of_gw gw)"
      using rb_fetch_frame [of "net_of env" "ch_Hash ch" "shuffle (rb_fetches rb i) (remdups (ch_NodeAddresses ch))"
          "Inr []" "cluster_of_gw gw"] unavailable(1)
      by (intro node_holds_cong) simp
    with unavailable(3) assms(3,4) show ?thesis by (auto simp: chunk_ok_def)
  next
    case (moved data c1 succ c2)
    note M = moved_spec [OF assms(1-3) moved(1,2) _ moved(3) distinct_missing set_missing set_missing moved(4) [folded assms(4)], simplified]
    have "\<exists>d. node_holds (cluster_of_gw gw') a (ch_Hash ch) d \<and> G d \<and> d \<noteq> []"
      if "a \<in> set (locations_of (database_of_gw gw') (ch_ID ch))" for a
    proof (cases "a \<in> set succ")
      case True
      with M(1,6) moved(2) show ?thesis by blast
    next
      case False
      with that M(2) [of "ch_ID ch"] have "a \<in> set (ch_NodeAddresses ch) \<inter> set (expected_nodes rb rf (i, ch))" by auto
      with M(5) assms(3) show ?thesis by (auto simp: chunk_ok_def)
    qed
    with M(2-4) show ?thesis by simp
  qed
qed


section \<open>When the nodes work\<close>

lemma rb_fetch_calm:
  assumes "net_calm net A" "cluster_calm c A" "ns \<noteq> []" "set ns \<subseteq> A" "\<forall>a \<in> set ns. \<exists>d. node_holds c a h d"
  shows "\<exists>d c'. rb_fetch net h ns r c = (Inr d, c') \<and> cluster_calm c' A \<and> node_holds c (hd ns) h d"
proof -
  obtain n ns' where ns: "ns = n # ns'" using assms(3) by (cases ns) auto
  then obtain d where d: "node_holds c n h d" "n \<in> A" using assms(4,5) by auto
  obtain v c1 where v: "client_call net n (ReqGet h) c = (v, c1)" by fastforce
  have "v = Inr (RepData d)" using client_call_get_calm [OF assms(1,2) d(2,1)] v by simp
  moreover from this v have "cluster_calm c1 A" using cluster_calm_call [OF assms(2), of "ReqGet h" n net] by simp
  ultimately show ?thesis using ns d v by (simp add: client_GetChunk_def)
qed

lemma client_DeleteChunk_calm:
  assumes "net_calm net A" "cluster_calm c A" "a \<in> A" "plain_name h" "node_holds c a h d"
  shows "cluster_calm (snd (client_DeleteChunk net a h c)) A" "\<not> node_holds (snd (client_DeleteChunk net a h c)) a h d'"
proof -
  obtain n where n: "storage_nodes c a = Some n" "chunk_at n h = Some d"
    using assms(5) by (auto simp: node_holds_def)
  have ok: "fst (node_DeleteChunk io_ok h n) = Inr True"
    using n(2) by (auto simp: node_DeleteChunk_def os_Remove_def chunk_at_def io_ok_def split: option.splits entry.splits)
  then have gone: "chunk_at (snd (node_DeleteChunk io_ok h n)) h = None"
    using node_DeleteChunk_gone [of io_ok h n True] by (metis prod.collapse)
  have call: "\<not> is_err (fst (client_call net a (ReqDelete h) c)) \<and>
      (\<forall>d'. \<not> node_holds (snd (client_call net a (ReqDelete h) c)) a h d')"
  proof (cases rule: client_call_cases [of c a net "ReqDelete h"])
    case rejected
    with assms(2,3) show ?thesis by (simp add: cluster_calm_def)
  next
    case (ran c1 r c2)
    have s1: "storage_nodes c1 a = Some n" using ran(2) n(1) by simp
    have "r = fst (serve io_ok (ReqDelete h) n)"
      using client_operation_calm [OF assms(1,3) s1, of "ReqDelete h"] ran(3) by simp
    then have "\<not> is_err r" using ok by (simp add: split_beta Let_def)
    moreover have "storage_nodes c2 a = Some (snd (serve io_ok (ReqDelete h) n))"
      using ran(3) s1 assms(1,3)
      by (auto simp: client_operation_def getClient_def rpc_def net_calm_def Let_def split_beta split: if_splits)
    then have "\<not> node_holds c2 a h d'" for d'
      using gone by (simp add: node_holds_def split_beta Let_def)
    ultimately show ?thesis using ran(4) by (simp add: breaker_leave_eq)
  qed
  then show "cluster_calm (snd (client_DeleteChunk net a h c)) A"
    "\<not> node_holds (snd (client_DeleteChunk net a h c)) a h d'"
    using cluster_calm_call [OF assms(2), of "ReqDelete h" a net] assms(4) by (simp_all add: client_DeleteChunk_eq)
qed

lemma drop_obsolete_gone:
  assumes "net_calm (net_of env) A" "plain_name h"
  shows "cluster_calm (cluster_of_gw gw) A \<Longrightarrow> distinct ns \<Longrightarrow> set ns \<subseteq> A \<Longrightarrow>
    \<forall>a \<in> set ns. \<exists>d. node_holds (cluster_of_gw gw) a h d \<Longrightarrow>
    cluster_calm (cluster_of_gw (drop_obsolete env u h ns gw)) A \<and>
    (\<forall>a d. a \<in> set ns \<or> \<not> node_holds (cluster_of_gw gw) a h d \<longrightarrow>
      \<not> node_holds (cluster_of_gw (drop_obsolete env u h ns gw)) a h d)"
proof (induction ns arbitrary: gw)
  case (Cons n ns)
  obtain d0 where d0: "node_holds (cluster_of_gw gw) n h d0" using Cons.prems(4) by auto
  let ?c = "snd (client_DeleteChunk (net_of env) n h (cluster_of_gw gw))"
  let ?gw = "\<lparr>cluster_of_gw = ?c, database_of_gw = snd (RemoveChunkLocation (db_of env) u n (database_of_gw gw))\<rparr>"
  have n: "n \<in> A" using Cons.prems(3) by simp
  note C = client_DeleteChunk_calm [OF assms(1) Cons.prems(1) n assms(2) d0]
  have D: "node_holds ?c a h d = node_holds (cluster_of_gw gw) a h d" if "a \<noteq> n" for a d
    using client_call_frame_chunk [OF assms(2), of "ReqDelete h" a n] assms(2) that by (simp add: client_DeleteChunk_eq)
  have "cluster_calm (cluster_of_gw (drop_obsolete env u h ns ?gw)) A \<and>
    (\<forall>a d. a \<in> set ns \<or> \<not> node_holds (cluster_of_gw ?gw) a h d \<longrightarrow>
      \<not> node_holds (cluster_of_gw (drop_obsolete env u h ns ?gw)) a h d)"
  proof (intro Cons.IH)
    show "\<forall>a \<in> set ns. \<exists>d. node_holds (cluster_of_gw ?gw) a h d"
      using Cons.prems(2,4) D by (metis distinct.simps(2) gateway.select_convs(1) list.set_intros(2))
  qed (use Cons.prems C(1) in simp_all)
  moreover have "\<not> node_holds ?c a h d" if "a = n \<or> \<not> node_holds (cluster_of_gw gw) a h d" for a d
  proof
    assume h: "node_holds ?c a h d"
    with C(2) have "a \<noteq> n" by blast
    with h D that show False by simp
  qed
  ultimately show ?case by (simp add: split_beta Let_def)
qed simp

lemma save_reaches:
  assumes "(miss = [] \<and> succ = [] \<and> c2 = c1) \<or>
      (\<exists>errs. client_SaveChunk net sched miss h data c1 = ((succ, errs), c2))"
    and "net_calm net A" "cluster_calm c1 A" "plain_name h"
  shows "set miss \<inter> A \<subseteq> set succ" "cluster_calm c2 A"
proof -
  note C = SaveChunk_calm [OF _ assms(2-4), where sched = sched and d = data and addrs = miss]
  from assms(1) show "set miss \<inter> A \<subseteq> set succ"
  proof
    assume "\<exists>errs. client_SaveChunk net sched miss h data c1 = ((succ, errs), c2)"
    then show ?thesis using C(1) by blast
  qed simp
  from assms(1) show "cluster_calm c2 A"
  proof
    assume "\<exists>errs. client_SaveChunk net sched miss h data c1 = ((succ, errs), c2)"
    then show ?thesis using C(3) by blast
  qed (use assms(3) in simp)
qed

lemma chunk_ok_holds:
  "chunk_ok G ch gw \<Longrightarrow>
    \<forall>a \<in> set (ch_NodeAddresses ch). \<exists>d. node_holds (cluster_of_gw gw) a (ch_Hash ch) d \<and> G d \<and> d \<noteq> []"
  unfolding chunk_ok_def by blast

lemma fetch_ok:
  fixes ch :: Chunk
  assumes "chunk_ok G ch gw" "net_calm (net_of env) A" "cluster_calm (cluster_of_gw gw) A"
    and "set (ch_NodeAddresses ch) \<subseteq> A" "set p = set (ch_NodeAddresses ch)"
  shows "\<exists>d c'. rb_fetch (net_of env) (ch_Hash ch) p (Inr []) (cluster_of_gw gw) = (Inr d, c') \<and>
    cluster_calm c' A \<and> d \<noteq> []"
proof -
  note H = chunk_ok_holds [OF assms(1)]
  have held: "\<forall>a \<in> set p. \<exists>d. node_holds (cluster_of_gw gw) a (ch_Hash ch) d"
    using H unfolding assms(5) by blast
  have ne: "p \<noteq> []" using assms(1,5) unfolding chunk_ok_def by (metis set_empty)
  have sub: "set p \<subseteq> A" using assms(4,5) by simp
  obtain d c' where d: "rb_fetch (net_of env) (ch_Hash ch) p (Inr []) (cluster_of_gw gw) = (Inr d, c')"
    "cluster_calm c' A" "node_holds (cluster_of_gw gw) (hd p) (ch_Hash ch) d"
    using rb_fetch_calm [OF assms(2,3) ne sub held, of "Inr []"] by blast
  have "hd p \<in> set (ch_NodeAddresses ch)" using ne assms(5) hd_in_set by metis
  then obtain d' where "node_holds (cluster_of_gw gw) (hd p) (ch_Hash ch) d'" "d' \<noteq> []"
    using H by blast
  then have "d \<noteq> []" using node_holds_unique [OF d(3)] by blast
  with d show ?thesis by blast
qed

lemma rebalance_converges_lemma:
  fixes ch :: Chunk
  assumes "db_calm (db_of env)" "uuid_in (db_of env) (ch_ID ch) = Some (ch_ID ch)" "chunk_ok G ch gw"
    and "net_calm (net_of env) A" "cluster_calm (cluster_of_gw gw) A"
    and "set (ch_NodeAddresses ch) \<union> set (expected_nodes rb rf (i, ch)) \<subseteq> A"
    and "\<forall>a \<in> set (expected_nodes rb rf (i, ch)). text_ok (db_of env) a"
  defines "gw' \<equiv> rebalance_chunk env rb rf (i, ch) gw"
  shows "set (locations_of (database_of_gw gw') (ch_ID ch)) = set (expected_nodes rb rf (i, ch))"
proof -
  let ?E = "expected_nodes rb rf (i, ch)" and ?p = "shuffle (rb_fetches rb i) (remdups (ch_NodeAddresses ch))"
  have ok: "plain_name (ch_Hash ch)" "ch_NodeAddresses ch \<noteq> []" using assms(3) by (simp_all add: chunk_ok_def)
  obtain d c' where f: "rb_fetch (net_of env) (ch_Hash ch) ?p (Inr []) (cluster_of_gw gw) = (Inr d, c')"
    "cluster_calm c' A" "d \<noteq> []"
    using fetch_ok [OF assms(3-5), of ?p] assms(6) by auto
  show ?thesis
  proof (cases rule: rebalance_chunk_cases [of rb rf i ch env gw])
    case balanced
    with assms(3) show ?thesis by (simp add: gw'_def chunk_ok_def)
  next
    case (unavailable r c1)
    with f(1,3) show ?thesis by simp
  next
    case (moved data c1 succ c2)
    note M = moved_spec [OF assms(1-3) moved(1,2) _ moved(3) distinct_missing set_missing set_missing moved(4) [folded gw'_def], simplified]
    have "set ?E - set (ch_NodeAddresses ch) \<subseteq> set succ"
    proof -
      have c1: "cluster_calm c1 A" using f(1,2) moved(1) by simp
      have "set (missing_nodes (rb_expected rb i) ?E (ch_NodeAddresses ch)) \<inter> A \<subseteq> set succ"
        using moved(3) save_reaches(1) [OF _ assms(4) c1 ok(1)] by blast
      then show ?thesis using assms(6) by auto
    qed
    moreover have "set succ \<subseteq> set ?E - set (ch_NodeAddresses ch)"
      using save_missing(1) [OF moved(3) distinct_missing ok(1)] by simp
    ultimately show ?thesis using M(2) [of "ch_ID ch"] assms(7) by auto
  qed
qed

lemma rebalance_chunk_calm:
  fixes ch :: Chunk
  assumes "chunk_ok G ch gw" "net_calm (net_of env) A" "cluster_calm (cluster_of_gw gw) A"
    and "set (ch_NodeAddresses ch) \<subseteq> A"
  shows "cluster_calm (cluster_of_gw (rebalance_chunk env rb rf (i, ch) gw)) A"
proof -
  let ?E = "expected_nodes rb rf (i, ch)" and ?p = "shuffle (rb_fetches rb i) (remdups (ch_NodeAddresses ch))"
  have ok: "plain_name (ch_Hash ch)" using assms(1) unfolding chunk_ok_def by blast
  obtain d c' where f: "rb_fetch (net_of env) (ch_Hash ch) ?p (Inr []) (cluster_of_gw gw) = (Inr d, c')"
    "cluster_calm c' A" "d \<noteq> []"
    using fetch_ok [OF assms(1-4), of ?p] by auto
  show ?thesis
  proof (cases rule: rebalance_chunk_cases [of rb rf i ch env gw])
    case balanced
    with assms(3) show ?thesis by simp
  next
    case (unavailable r c1)
    with f(1,3) show ?thesis by simp
  next
    case (moved data c1 succ c2)
    let ?obs = "missing_nodes (rb_current rb i) (ch_NodeAddresses ch) ?E"
    have c1: "cluster_calm c1 A" using f(1,2) moved(1) by simp
    have sn: "node_holds c1 = node_holds (cluster_of_gw gw)"
      using rb_fetch_frame [of "net_of env" "ch_Hash ch" ?p "Inr []" "cluster_of_gw gw"] moved(1)
      by (intro node_holds_cong) simp
    have "\<exists>d. node_holds c2 a (ch_Hash ch) d" if "a \<in> set ?obs" for a
    proof -
      have "a \<notin> set (missing_nodes (rb_expected rb i) ?E (ch_NodeAddresses ch))" "a \<in> set (ch_NodeAddresses ch)"
        using that by simp_all
      with save_missing(3) [OF moved(3) distinct_missing ok] chunk_ok_holds [OF assms(1)] sn show ?thesis by metis
    qed
    then show ?thesis
      unfolding moved(4) using save_reaches(2) [OF moved(3) assms(2) c1 ok] assms(4)
      by (intro drop_obsolete_gone [OF assms(2) ok, THEN conjunct1]) auto
  qed
qed

lemma rebalance_data_loss_lemma:
  fixes ch :: Chunk
  assumes "db_calm (db_of env)" "uuid_in (db_of env) (ch_ID ch) = Some (ch_ID ch)" "chunk_ok G ch gw"
    and "set (ch_NodeAddresses ch) \<inter> set (expected_nodes rb rf (i, ch)) = {}"
    and "\<forall>a \<in> set (expected_nodes rb rf (i, ch)). storage_nodes (cluster_of_gw gw) a = None"
    and "net_calm (net_of env) (set (ch_NodeAddresses ch))"
    and "cluster_calm (cluster_of_gw gw) (set (ch_NodeAddresses ch))"
  defines "gw' \<equiv> rebalance_chunk env rb rf (i, ch) gw"
  shows "locations_of (database_of_gw gw') (ch_ID ch) = [] \<and>
    (\<forall>a \<in> set (ch_NodeAddresses ch) \<union> set (expected_nodes rb rf (i, ch)). \<forall>d.
       \<not> node_holds (cluster_of_gw gw') a (ch_Hash ch) d)"
proof -
  let ?E = "expected_nodes rb rf (i, ch)" and ?p = "shuffle (rb_fetches rb i) (remdups (ch_NodeAddresses ch))"
  let ?A = "set (ch_NodeAddresses ch)"
  have ok: "plain_name (ch_Hash ch)" "ch_NodeAddresses ch \<noteq> []" using assms(3) by (simp_all add: chunk_ok_def)
  obtain d c' where f: "rb_fetch (net_of env) (ch_Hash ch) ?p (Inr []) (cluster_of_gw gw) = (Inr d, c')"
    "cluster_calm c' ?A" "d \<noteq> []"
    using fetch_ok [OF assms(3,6,7), of ?p] by auto
  show ?thesis
  proof (cases rule: rebalance_chunk_cases [of rb rf i ch env gw])
    case balanced
    with assms(4) ok(2) show ?thesis by auto
  next
    case (unavailable r c1)
    with f(1,3) show ?thesis by simp
  next
    case (moved data c1 succ c2)
    let ?obs = "missing_nodes (rb_current rb i) (ch_NodeAddresses ch) ?E"
    note S = save_missing [OF moved(3) distinct_missing ok(1)]
    note M = moved_spec [OF assms(1-3) moved(1,2) _ moved(3) distinct_missing set_missing set_missing moved(4) [folded gw'_def], simplified]
    have sn: "storage_nodes c1 = storage_nodes (cluster_of_gw gw)"
      using rb_fetch_frame [of "net_of env" "ch_Hash ch" ?p "Inr []" "cluster_of_gw gw"] moved(1) by simp
    have down: "\<not> node_holds c2 a h d" if "a \<in> set ?E" for a h d
    proof -
      have "a \<notin> dom (storage_nodes c2)" using assms(5) that S(4) sn by (simp add: domIff)
      then show ?thesis by (simp add: node_holds_def domIff)
    qed
    then have succ: "succ = []" using S(1,2) by (cases succ) auto
    with M(2) [of "ch_ID ch"] assms(4) have loc: "locations_of (database_of_gw gw') (ch_ID ch) = []" by auto
    have c2: "cluster_calm c2 ?A"
      using save_reaches(2) [OF moved(3) assms(6) _ ok(1)] f(1,2) moved(1) by simp
    have held: "\<exists>d. node_holds c2 a (ch_Hash ch) d" if "a \<in> ?A" for a
    proof -
      have "a \<notin> set (missing_nodes (rb_expected rb i) ?E (ch_NodeAddresses ch))" using that by simp
      with S(3) [of a] node_holds_cong [OF sn] chunk_ok_holds [OF assms(3)] that show ?thesis by metis
    qed
    have obs: "set ?obs = ?A" using assms(4) by auto
    let ?gw = "\<lparr>cluster_of_gw = c2, database_of_gw = add_locations (db_of env) (ch_ID ch) succ (database_of_gw gw)\<rparr>"
    have gone: "\<forall>a d. a \<in> set ?obs \<or> \<not> node_holds (cluster_of_gw ?gw) a (ch_Hash ch) d \<longrightarrow>
        \<not> node_holds (cluster_of_gw gw') a (ch_Hash ch) d"
      unfolding gw'_def moved(4)
    proof (rule drop_obsolete_gone [OF assms(6) ok(1), THEN conjunct2])
      show "\<forall>a \<in> set ?obs. \<exists>d. node_holds (cluster_of_gw ?gw) a (ch_Hash ch) d" using held obs by simp
      show "set ?obs \<subseteq> ?A" using obs by blast
    qed (use c2 in simp_all)
    have "\<not> node_holds (cluster_of_gw gw') a (ch_Hash ch) d" if "a \<in> ?A \<union> set ?E" for a d
    proof (cases "a \<in> ?A")
      case True
      then have "a \<in> set ?obs" using obs by blast
      with gone show ?thesis by blast
    next
      case False
      then have "\<not> node_holds (cluster_of_gw ?gw) a (ch_Hash ch) d" using down that by simp
      with gone show ?thesis by blast
    qed
    with loc show ?thesis by blast
  qed
qed

section \<open>A whole pass\<close>

text \<open>
  All the chunks of the database, with hashes that differ (two rows with one hash would share
  their files): every location names a node with a good replica.
\<close>

definition replicated :: "(string \<Rightarrow> bytes \<Rightarrow> bool) \<Rightarrow> gateway \<Rightarrow> bool" where
  "replicated G gw \<longleftrightarrow> (\<forall>r \<in> set (chunks (database_of_gw gw)). plain_name (ch_Hash r) \<and>
     (\<forall>a \<in> set (locations_of (database_of_gw gw) (ch_ID r)).
        \<exists>d. node_holds (cluster_of_gw gw) a (ch_Hash r) d \<and> G (ch_Hash r) d \<and> d \<noteq> []))"

definition ids_ok :: "db_env \<Rightarrow> database \<Rightarrow> bool" where
  "ids_ok env db \<longleftrightarrow> (\<forall>r \<in> set (chunks db). uuid_in env (ch_ID r) = Some (ch_ID r)) \<and>
     distinct (map ch_ID (chunks db)) \<and> distinct (map ch_Hash (chunks db))"

definition chunk_read :: "Chunk \<Rightarrow> database \<Rightarrow> bool" where
  "chunk_read ch db \<longleftrightarrow> (\<exists>r \<in> set (chunks db). ch_ID ch = ch_ID r \<and> ch_Hash ch = ch_Hash r) \<and>
     set (ch_NodeAddresses ch) = set (locations_of db (ch_ID ch)) \<and> ch_NodeAddresses ch \<noteq> []"

lemma chunk_read_ok:
  assumes "chunk_read ch (database_of_gw gw)" "replicated G gw"
  shows "chunk_ok (G (ch_Hash ch)) ch gw"
proof -
  obtain r where r: "r \<in> set (chunks (database_of_gw gw))" "ch_ID ch = ch_ID r" "ch_Hash ch = ch_Hash r"
    using assms(1) unfolding chunk_read_def by blast
  have s: "set (ch_NodeAddresses ch) = set (locations_of (database_of_gw gw) (ch_ID ch))" "ch_NodeAddresses ch \<noteq> []"
    using assms(1) unfolding chunk_read_def by blast+
  have "plain_name (ch_Hash r)" "\<forall>a \<in> set (locations_of (database_of_gw gw) (ch_ID r)).
      \<exists>d. node_holds (cluster_of_gw gw) a (ch_Hash r) d \<and> G (ch_Hash r) d \<and> d \<noteq> []"
    using assms(2) r(1) unfolding replicated_def by blast+
  with r s show ?thesis unfolding chunk_ok_def by (metis imageI)
qed

text \<open>What an iteration leaves alone: the files of every other chunk.\<close>

lemma drop_obsolete_frame:
  assumes "plain_name h" "plain_name h'" "h \<noteq> h'"
  shows "node_holds (cluster_of_gw (drop_obsolete env u h ns gw)) a h' d = node_holds (cluster_of_gw gw) a h' d"
proof (induction ns arbitrary: gw)
  case (Cons n ns)
  have "node_holds (snd (client_DeleteChunk (net_of env) n h (cluster_of_gw gw))) a h' d
      = node_holds (cluster_of_gw gw) a h' d"
    using client_call_frame_chunk [OF assms(2), of "ReqDelete h" a n] assms by (simp add: client_DeleteChunk_eq)
  then show ?case using Cons.IH by (simp add: split_beta Let_def)
qed simp

lemma save_missing_frame:
  assumes "(miss = [] \<and> succ = [] \<and> c2 = c1) \<or>
      (\<exists>errs. client_SaveChunk net sched miss h data c1 = ((succ, errs), c2))"
    and "plain_name h" "plain_name h'" "h \<noteq> h'"
  shows "node_holds c2 a h' d = node_holds c1 a h' d"
proof -
  have f: "snd (client_SaveChunk net sched miss h data c1) =
      snd (snd (fan_out net (map (\<lambda>a. (a, ReqSave h data)) miss) sched c1))"
    by (simp add: client_SaveChunk_def Let_def split_beta)
  show ?thesis
    using assms(1) f fan_out_frame [OF assms(3), of "map (\<lambda>a. (a, ReqSave h data)) miss" a net sched c1 d] assms(2,4)
    by auto
qed

lemma rebalance_chunk_frame:
  fixes ch :: Chunk
  assumes "plain_name (ch_Hash ch)" "plain_name h'" "ch_Hash ch \<noteq> h'"
  shows "node_holds (cluster_of_gw (rebalance_chunk env rb rf (i, ch) gw)) a h' d = node_holds (cluster_of_gw gw) a h' d"
proof -
  have f: "node_holds c1 = node_holds (cluster_of_gw gw)"
    if "rb_fetch (net_of env) (ch_Hash ch) p x (cluster_of_gw gw) = (r, c1)" for p x r c1
    using rb_fetch_frame [of "net_of env" "ch_Hash ch" p x "cluster_of_gw gw"] that by (intro node_holds_cong) simp
  show ?thesis
  proof (cases rule: rebalance_chunk_cases [of rb rf i ch env gw])
    case (unavailable r c1)
    with f show ?thesis by simp
  next
    case (moved data c1 succ c2)
    show ?thesis
      unfolding moved(4) drop_obsolete_frame [OF assms] gateway.select_convs
        save_missing_frame [OF moved(3) assms] f [OF moved(1)] by simp
  qed simp
qed

definition others_kept :: "uuid set \<Rightarrow> database \<Rightarrow> database \<Rightarrow> bool" where
  "others_kept ids db db' \<longleftrightarrow> chunks db' = chunks db \<and> objects db' = objects db \<and>
     (\<forall>j. j \<notin> ids \<longrightarrow> set (locations_of db' j) = set (locations_of db j))"

lemma chunk_read_kept:
  "chunk_read ch db \<Longrightarrow> others_kept ids db db' \<Longrightarrow> ch_ID ch \<notin> ids \<Longrightarrow> chunk_read ch db'"
  unfolding chunk_read_def others_kept_def by metis

lemma others_kept_trans:
  "others_kept is db db' \<Longrightarrow> others_kept js db' db'' \<Longrightarrow> others_kept (is \<union> js) db db''"
  unfolding others_kept_def by simp

lemma rebalance_chunk_replicated:
  fixes ch :: Chunk and rb :: rb_env and rf :: int and i :: nat
  assumes "db_calm (db_of env)" "ids_ok (db_of env) (database_of_gw gw)" "replicated G gw"
    and "chunk_read ch (database_of_gw gw)"
  defines "gw' \<equiv> rebalance_chunk env rb rf (i, ch) gw"
  shows "replicated G gw'" "others_kept {ch_ID ch} (database_of_gw gw) (database_of_gw gw')"
    "ids_ok (db_of env) (database_of_gw gw')"
    "set (ch_NodeAddresses ch) \<inter> set (expected_nodes rb rf (i, ch)) \<subseteq> set (locations_of (database_of_gw gw') (ch_ID ch))"
proof -
  obtain r where r: "r \<in> set (chunks (database_of_gw gw))" "ch_ID ch = ch_ID r" "ch_Hash ch = ch_Hash r"
    using assms(4) unfolding chunk_read_def by blast
  have u: "uuid_in (db_of env) (ch_ID ch) = Some (ch_ID ch)" using assms(2) r(1,2) unfolding ids_ok_def by metis
  have "gw' = rebalance_chunk env rb rf (i, ch) gw" by (simp add: gw'_def)
  note S = rebalance_sound_lemma [OF assms(1) u chunk_read_ok [OF assms(4,3)] this]
  from S show kept: "others_kept {ch_ID ch} (database_of_gw gw) (database_of_gw gw')" by (simp add: others_kept_def)
  then show "ids_ok (db_of env) (database_of_gw gw')" using assms(2) by (simp add: ids_ok_def others_kept_def)
  show "set (ch_NodeAddresses ch) \<inter> set (expected_nodes rb rf (i, ch)) \<subseteq> set (locations_of (database_of_gw gw') (ch_ID ch))"
    using S by blast
  have plain: "plain_name (ch_Hash r')" if "r' \<in> set (chunks (database_of_gw gw))" for r'
    using assms(3) that unfolding replicated_def by blast
  have "\<exists>d. node_holds (cluster_of_gw gw') a (ch_Hash r') d \<and> G (ch_Hash r') d \<and> d \<noteq> []"
    if r': "r' \<in> set (chunks (database_of_gw gw))" and a: "a \<in> set (locations_of (database_of_gw gw') (ch_ID r'))" for r' a
  proof (cases "r' = r")
    case True
    with S r a show ?thesis by simp
  next
    case False
    then have ne: "ch_ID r' \<noteq> ch_ID r" "ch_Hash r' \<noteq> ch_Hash r"
      using assms(2) r(1) r' unfolding ids_ok_def by (metis distinct_map inj_onD)+
    with kept a r(2) have "a \<in> set (locations_of (database_of_gw gw) (ch_ID r'))" by (simp add: others_kept_def)
    then obtain d where "node_holds (cluster_of_gw gw) a (ch_Hash r') d" "G (ch_Hash r') d" "d \<noteq> []"
      using assms(3) r' unfolding replicated_def by blast
    moreover have "plain_name (ch_Hash ch)" "ch_Hash ch \<noteq> ch_Hash r'" using plain [OF r(1)] r(3) ne(2) by simp_all
    ultimately show ?thesis using rebalance_chunk_frame [OF _ plain [OF r']] unfolding gw'_def by blast
  qed
  with kept plain show "replicated G gw'" by (simp add: replicated_def others_kept_def)
qed

text \<open>A pass is a fold; what it does to each chunk outlives the iterations for the others.\<close>

lemma fold_chunks:
  fixes f :: "nat \<times> Chunk \<Rightarrow> gateway \<Rightarrow> gateway"
  assumes step: "\<And>ic gw. I gw \<Longrightarrow> P ic \<Longrightarrow> chunk_read (snd ic) (database_of_gw gw) \<Longrightarrow>
      I (f ic gw) \<and> others_kept {ch_ID (snd ic)} (database_of_gw gw) (database_of_gw (f ic gw)) \<and>
      Q ic (set (locations_of (database_of_gw (f ic gw)) (ch_ID (snd ic))))"
  shows "I gw \<Longrightarrow> \<forall>ic \<in> set ics. P ic \<and> chunk_read (snd ic) (database_of_gw gw) \<Longrightarrow>
    distinct (map (ch_ID \<circ> snd) ics) \<Longrightarrow>
    I (fold f ics gw) \<and>
    others_kept ((ch_ID \<circ> snd) ` set ics) (database_of_gw gw) (database_of_gw (fold f ics gw)) \<and>
    (\<forall>ic \<in> set ics. Q ic (set (locations_of (database_of_gw (fold f ics gw)) (ch_ID (snd ic)))))"
proof (induction ics arbitrary: gw)
  case Nil
  then show ?case by (simp add: others_kept_def)
next
  case (Cons ic ics)
  let ?gw = "f ic gw" and ?fin = "fold f ics (f ic gw)"
  have s: "I ?gw" "others_kept {ch_ID (snd ic)} (database_of_gw gw) (database_of_gw ?gw)"
    "Q ic (set (locations_of (database_of_gw ?gw) (ch_ID (snd ic))))"
    using step [of gw ic] Cons.prems by simp_all
  have new: "ch_ID (snd x) \<noteq> ch_ID (snd ic)" if "x \<in> set ics" for x
    using Cons.prems(3) that by (force simp: image_iff)
  have "\<forall>x \<in> set ics. P x \<and> chunk_read (snd x) (database_of_gw ?gw)"
    using Cons.prems(2) chunk_read_kept [OF _ s(2)] new by simp
  moreover have "distinct (map (ch_ID \<circ> snd) ics)" using Cons.prems(3) by (simp add: comp_def)
  ultimately have e: "I ?fin" "others_kept ((ch_ID \<circ> snd) ` set ics) (database_of_gw ?gw) (database_of_gw ?fin)"
    "\<forall>x \<in> set ics. Q x (set (locations_of (database_of_gw ?fin) (ch_ID (snd x))))"
    using Cons.IH [OF s(1)] by blast+
  have "ch_ID (snd ic) \<notin> (ch_ID \<circ> snd) ` set ics" using new by fastforce
  with e(2) s(3) have "Q ic (set (locations_of (database_of_gw ?fin) (ch_ID (snd ic))))"
    by (simp add: others_kept_def)
  with e others_kept_trans [OF s(2) e(2)] show ?case by simp
qed

lemma GetAllChunks_calm:
  assumes "db_calm env" "distinct (map ch_ID (chunks db))"
  shows "\<exists>cs. GetAllChunks env db = (Inr cs, db\<lparr>stmt_no := Suc (stmt_no db)\<rparr>) \<and> distinct (map ch_ID cs) \<and>
    (\<forall>ch \<in> set cs. chunk_read ch db) \<and>
    (\<forall>r \<in> set (chunks db). locations_of db (ch_ID r) \<noteq> [] \<longrightarrow>
       (\<exists>ch \<in> set cs. ch_ID ch = ch_ID r \<and> ch_Hash ch = ch_Hash r))"
proof -
  let ?k = "stmt_no db" and ?db = "db\<lparr>stmt_no := Suc (stmt_no db)\<rparr>"
  let ?joined = "joined_chunks env ?k ?db (\<lambda>c. True)"
  let ?cs = "shuffle (row_order env ?k) ?joined"
  have loc: "locations_of ?db = locations_of db" by (simp add: locations_of_def fun_eq_iff)
  have get: "GetAllChunks env db = (Inr ?cs, ?db)"
    using assms(1) by (simp add: GetAllChunks_def exec_stmt_def db_calm_def fetch_rows_def Let_def)
  have ids: "map ch_ID (map (chunk_result env ?k ?db) (enumerate n xs)) = map ch_ID xs" for n xs
    by (induction xs arbitrary: n) (simp_all add: chunk_result_def)
  have "mset (map ch_ID ?cs) = mset (map ch_ID ?joined)" by simp
  moreover have "distinct (map ch_ID ?joined)"
    using assms(2) by (simp only: joined_chunks_def ids) (simp add: distinct_map_filter)
  ultimately have "distinct (map ch_ID ?cs)" by (metis mset_eq_imp_distinct_iff)
  moreover have "chunk_read ch db" if "ch \<in> set ?cs" for ch
  proof -
    from that obtain n r where r: "(n, r) \<in> set (enumerate 0 (filter (\<lambda>c. True \<and> locations_of ?db (ch_ID c) \<noteq> []) (chunks ?db)))"
      "ch = chunk_result env ?k ?db (n, r)"
      unfolding joined_chunks_def by auto
    have "r \<in> set (filter (\<lambda>c. True \<and> locations_of ?db (ch_ID c) \<noteq> []) (chunks ?db))"
      using r(1) unfolding enumerate_eq_zip by (rule set_zip_rightD)
    then have "r \<in> set (chunks db)" "set (locations_of db (ch_ID r)) \<noteq> {}" by (simp_all add: loc)
    moreover have "set (ch_NodeAddresses ch) = set (locations_of db (ch_ID r))" "ch_ID ch = ch_ID r" "ch_Hash ch = ch_Hash r"
      using r(2) by (simp_all add: chunk_result_def loc)
    ultimately show ?thesis unfolding chunk_read_def by (metis set_empty)
  qed
  moreover have "\<exists>ch \<in> set ?cs. ch_ID ch = ch_ID r \<and> ch_Hash ch = ch_Hash r"
    if "r \<in> set (chunks db)" "locations_of db (ch_ID r) \<noteq> []" for r
  proof -
    let ?rows = "filter (\<lambda>c. True \<and> locations_of ?db (ch_ID c) \<noteq> []) (chunks ?db)"
    have "r \<in> set ?rows" using that by (simp add: loc)
    then obtain n where "n < length ?rows" "?rows ! n = r" by (meson in_set_conv_nth)
    then have "(n, r) \<in> set (enumerate 0 ?rows)" by (auto simp: in_set_enumerate_eq)
    then have "chunk_result env ?k ?db (n, r) \<in> set ?cs" by (simp add: joined_chunks_def)
    then show ?thesis by (rule rev_bexI) (simp add: chunk_result_def)
  qed
  ultimately show ?thesis using get by blast
qed

lemma rebalance_chunk_converges:
  fixes ic :: "nat \<times> Chunk" and rb :: rb_env and rf :: int
  assumes "db_calm (db_of env)"
    and "replicated G gw \<and> ids_ok (db_of env) (database_of_gw gw) \<and> cluster_calm (cluster_of_gw gw) A"
    and "net_calm (net_of env) A" "\<forall>a \<in> A. text_ok (db_of env) a"
    and "chunk_read (snd ic) (database_of_gw gw)"
    and "set (ch_NodeAddresses (snd ic)) \<union> set (expected_nodes rb rf ic) \<subseteq> A"
  defines "gw' \<equiv> rebalance_chunk env rb rf ic gw"
  shows "replicated G gw' \<and> ids_ok (db_of env) (database_of_gw gw') \<and> cluster_calm (cluster_of_gw gw') A \<and>
    others_kept {ch_ID (snd ic)} (database_of_gw gw) (database_of_gw gw') \<and>
    set (locations_of (database_of_gw gw') (ch_ID (snd ic))) = set (expected_nodes rb rf ic)"
proof -
  obtain i ch where ic: "ic = (i, ch)" by fastforce
  have g: "ids_ok (db_of env) (database_of_gw gw)" "replicated G gw" "cluster_calm (cluster_of_gw gw) A"
    and r: "chunk_read ch (database_of_gw gw)"
    and s: "set (ch_NodeAddresses ch) \<union> set (expected_nodes rb rf (i, ch)) \<subseteq> A"
    using assms(2,5,6) by (simp_all add: ic)
  note ok = chunk_read_ok [OF r g(2)]
  have u: "uuid_in (db_of env) (ch_ID ch) = Some (ch_ID ch)"
    using g(1) r by (auto simp: ids_ok_def chunk_read_def)
  have t: "\<forall>a \<in> set (expected_nodes rb rf (i, ch)). text_ok (db_of env) a" using s assms(4) by blast
  from rebalance_converges_lemma [OF assms(1) u ok assms(3) g(3) s t]
    rebalance_chunk_replicated [OF assms(1) g(1,2) r, of rb rf i]
    rebalance_chunk_calm [OF ok assms(3) g(3), of rb rf i] s
  show ?thesis by (simp add: gw'_def ic)
qed

lemma rebalance_pass_eq:
  assumes "db_calm (db_of env)" "ids_ok (db_of env) (database_of_gw gw)"
  defines "gw1 \<equiv> gw\<lparr>database_of_gw := (database_of_gw gw)\<lparr>stmt_no := Suc (stmt_no (database_of_gw gw))\<rparr>\<rparr>"
  obtains cs where "distinct (map ch_ID cs)" "\<forall>ch \<in> set cs. chunk_read ch (database_of_gw gw1)"
    "\<forall>r \<in> set (chunks (database_of_gw gw)). locations_of (database_of_gw gw) (ch_ID r) \<noteq> [] \<longrightarrow>
       (\<exists>ch \<in> set cs. ch_ID ch = ch_ID r \<and> ch_Hash ch = ch_Hash r)"
    "rebalance_pass env rb rf gw =
       (if cs = [] \<or> IsEmpty (rb_rings rb 0) then gw1 else fold (rebalance_chunk env rb rf) (enumerate 0 cs) gw1)"
proof -
  have "distinct (map ch_ID (chunks (database_of_gw gw)))" using assms(2) by (simp add: ids_ok_def)
  from GetAllChunks_calm [OF assms(1) this] obtain cs where
    cs: "GetAllChunks (db_of env) (database_of_gw gw) = (Inr cs, database_of_gw gw1)" "distinct (map ch_ID cs)"
      "\<forall>ch \<in> set cs. chunk_read ch (database_of_gw gw)"
      "\<forall>r \<in> set (chunks (database_of_gw gw)). locations_of (database_of_gw gw) (ch_ID r) \<noteq> [] \<longrightarrow>
         (\<exists>ch \<in> set cs. ch_ID ch = ch_ID r \<and> ch_Hash ch = ch_Hash r)"
    by (auto simp: gw1_def)
  have "\<forall>ch \<in> set cs. chunk_read ch (database_of_gw gw1)"
    using cs(3) by (simp add: chunk_read_def gw1_def locations_of_def)
  with cs(1,2,4) show thesis
    by (intro that) (cases "cs = []"; simp add: rebalance_pass_unfold gw1_def Let_def)+
qed

lemma stmt_no_kept:
  "replicated G (gw\<lparr>database_of_gw := (database_of_gw gw)\<lparr>stmt_no := k\<rparr>\<rparr>) = replicated G gw"
  "ids_ok env ((database_of_gw gw)\<lparr>stmt_no := k\<rparr>) = ids_ok env (database_of_gw gw)"
  "locations_of ((database_of_gw gw)\<lparr>stmt_no := k\<rparr>) = locations_of (database_of_gw gw)"
  by (simp_all add: replicated_def ids_ok_def locations_of_def fun_eq_iff)

lemma snd_enumerate: "map (f \<circ> snd) (enumerate k xs) = map f xs"
  by (induction xs arbitrary: k) simp_all

lemma in_enumerate: "ic \<in> set (enumerate k xs) \<Longrightarrow> snd ic \<in> set xs"
  unfolding enumerate_eq_zip by (cases ic) (auto dest: set_zip_rightD)

lemma enumerate_in: "x \<in> set xs \<Longrightarrow> \<exists>i. (i, x) \<in> set (enumerate k xs)"
  by (induction xs arbitrary: k) auto

text \<open>The fold of a pass, with an invariant \<open>I\<close> and what is to be shown of each chunk's locations.\<close>

lemma rebalance_pass_run:
  fixes rb :: rb_env and rf :: int
  assumes "db_calm (db_of env)" "ids_ok (db_of env) (database_of_gw gw)"
  defines "gw1 \<equiv> gw\<lparr>database_of_gw := (database_of_gw gw)\<lparr>stmt_no := Suc (stmt_no (database_of_gw gw))\<rparr>\<rparr>"
  defines "gw' \<equiv> rebalance_pass env rb rf gw"
  assumes I: "I gw1" and P: "\<forall>i ch. chunk_read ch (database_of_gw gw1) \<longrightarrow> P (i, ch)"
    and step: "\<forall>ic gw. I gw \<longrightarrow> P ic \<longrightarrow> chunk_read (snd ic) (database_of_gw gw) \<longrightarrow>
      I (rebalance_chunk env rb rf ic gw) \<and>
      others_kept {ch_ID (snd ic)} (database_of_gw gw) (database_of_gw (rebalance_chunk env rb rf ic gw)) \<and>
      Q ic (set (locations_of (database_of_gw (rebalance_chunk env rb rf ic gw)) (ch_ID (snd ic))))"
  shows "I gw'" "chunks (database_of_gw gw') = chunks (database_of_gw gw)"
    "objects (database_of_gw gw') = objects (database_of_gw gw)"
    "r \<in> set (chunks (database_of_gw gw)) \<Longrightarrow> locations_of (database_of_gw gw) (ch_ID r) \<noteq> [] \<Longrightarrow>
      gw' = gw1 \<and> IsEmpty (rb_rings rb 0) \<or> (\<exists>i ch. chunk_read ch (database_of_gw gw) \<and> ch_ID ch = ch_ID r \<and> ch_Hash ch = ch_Hash r \<and>
        Q (i, ch) (set (locations_of (database_of_gw gw') (ch_ID r))))"
proof -
  obtain cs where cs: "distinct (map ch_ID cs)" "\<forall>ch \<in> set cs. chunk_read ch (database_of_gw gw1)"
    "\<forall>r \<in> set (chunks (database_of_gw gw)). locations_of (database_of_gw gw) (ch_ID r) \<noteq> [] \<longrightarrow>
       (\<exists>ch \<in> set cs. ch_ID ch = ch_ID r \<and> ch_Hash ch = ch_Hash r)"
    "gw' = (if cs = [] \<or> IsEmpty (rb_rings rb 0) then gw1 else fold (rebalance_chunk env rb rf) (enumerate 0 cs) gw1)"
    unfolding gw'_def gw1_def by (rule rebalance_pass_eq [OF assms(1,2), of rb rf]) blast
  have same: "chunk_read ch (database_of_gw gw1) = chunk_read ch (database_of_gw gw)" for ch
    by (simp add: chunk_read_def gw1_def stmt_no_kept)
  have "\<forall>ic \<in> set (enumerate 0 cs). P ic \<and> chunk_read (snd ic) (database_of_gw gw1)"
    using cs(2) P in_enumerate by (metis prod.collapse)
  moreover have "distinct (map (ch_ID \<circ> snd) (enumerate 0 cs))" using cs(1) by (simp add: snd_enumerate)
  moreover note fold_chunks [of I P "rebalance_chunk env rb rf" Q, OF step [rule_format] I]
  ultimately have F: "I (fold (rebalance_chunk env rb rf) (enumerate 0 cs) gw1) \<and>
    others_kept ((ch_ID \<circ> snd) ` set (enumerate 0 cs)) (database_of_gw gw1)
      (database_of_gw (fold (rebalance_chunk env rb rf) (enumerate 0 cs) gw1)) \<and>
    (\<forall>ic \<in> set (enumerate 0 cs).
       Q ic (set (locations_of (database_of_gw (fold (rebalance_chunk env rb rf) (enumerate 0 cs) gw1)) (ch_ID (snd ic)))))"
    by blast
  with I show "I gw'" by (simp add: cs(4))
  from F show "chunks (database_of_gw gw') = chunks (database_of_gw gw)"
    "objects (database_of_gw gw') = objects (database_of_gw gw)"
    by (simp_all add: cs(4) others_kept_def) (simp_all add: gw1_def)
  assume "r \<in> set (chunks (database_of_gw gw))" "locations_of (database_of_gw gw) (ch_ID r) \<noteq> []"
  then obtain ch where ch: "ch \<in> set cs" "ch_ID ch = ch_ID r" "ch_Hash ch = ch_Hash r" using cs(3) by blast
  from enumerate_in [OF ch(1)] obtain i where i: "(i, ch) \<in> set (enumerate 0 cs)" by blast
  have "chunk_read ch (database_of_gw gw)" using cs(2) ch(1) same by blast
  then show "gw' = gw1 \<and> IsEmpty (rb_rings rb 0) \<or>
      (\<exists>i ch. chunk_read ch (database_of_gw gw) \<and> ch_ID ch = ch_ID r \<and> ch_Hash ch = ch_Hash r \<and>
        Q (i, ch) (set (locations_of (database_of_gw gw') (ch_ID r))))"
  proof (cases "IsEmpty (rb_rings rb 0)")
    case True
    then show ?thesis using cs(4) by simp
  next
    case False
    moreover have "cs \<noteq> []" using ch(1) by auto
    ultimately have "gw' = fold (rebalance_chunk env rb rf) (enumerate 0 cs) gw1" using cs(4) by simp
    with F i have "Q (i, ch) (set (locations_of (database_of_gw gw') (ch_ID (snd (i, ch)))))" by blast
    with ch(2,3) \<open>chunk_read ch (database_of_gw gw)\<close> show ?thesis by (metis snd_conv)
  qed
qed

section \<open>Properties\<close>



text \<open>
  A pass over chunks that are where the ring wants them changes nothing (but for the number
  of the query it has made).
\<close>

theorem rebalance_fixpoint:
  assumes "db_calm (db_of env)" "ids_ok (db_of env) (database_of_gw gw)" "\<forall>i. rb_rings rb i = R"
    and "\<forall>r \<in> set (chunks (database_of_gw gw)). locations_of (database_of_gw gw) (ch_ID r) \<noteq> [] \<longrightarrow>
      set (locations_of (database_of_gw gw) (ch_ID r)) = set (GetNodes R (ch_Hash r) rf)"
  shows "rebalance_pass env rb rf gw =
    gw\<lparr>database_of_gw := (database_of_gw gw)\<lparr>stmt_no := Suc (stmt_no (database_of_gw gw))\<rparr>\<rparr>"
proof (rule rebalance_pass_eq [OF assms(1,2), of rb rf])
  let ?gw = "gw\<lparr>database_of_gw := (database_of_gw gw)\<lparr>stmt_no := Suc (stmt_no (database_of_gw gw))\<rparr>\<rparr>"
  fix cs
  assume read: "\<forall>ch \<in> set cs. chunk_read ch (database_of_gw ?gw)"
    and eq: "rebalance_pass env rb rf gw =
      (if cs = [] \<or> IsEmpty (rb_rings rb 0) then ?gw else fold (rebalance_chunk env rb rf) (enumerate 0 cs) ?gw)"
  have id: "rebalance_chunk env rb rf ic gw2 = gw2" if "ic \<in> set (enumerate 0 cs)" for ic gw2
  proof -
    obtain i ch where ic: "ic = (i, ch)" by fastforce
    with that read in_enumerate have "chunk_read ch (database_of_gw ?gw)" by fastforce
    then have "set (ch_NodeAddresses ch) = set (GetNodes (rb_rings rb (Suc i)) (ch_Hash ch) rf)"
      using assms(3,4) by (fastforce simp: chunk_read_def stmt_no_kept)
    then have "missing_nodes p (GetNodes (rb_rings rb (Suc i)) (ch_Hash ch) rf) (ch_NodeAddresses ch) = []"
      "missing_nodes q (ch_NodeAddresses ch) (GetNodes (rb_rings rb (Suc i)) (ch_Hash ch) rf) = []" for p q
      by (simp_all flip: set_empty)
    then show ?thesis by (simp add: ic rebalance_chunk_def Let_def)
  qed
  have "fold (rebalance_chunk env rb rf) ics gw2 = gw2"
    if "set ics \<subseteq> set (enumerate 0 cs)" for ics gw2
    using that by (induction ics arbitrary: gw2) (simp_all add: id)
  then show ?thesis using eq by simp
qed

text \<open>
  C33: a pass can destroy a chunk of which every replica is intact. When the ring assigns none of the
  current nodes to the chunk, and the nodes it assigns cannot be reached (or there are none,
  because the ring is being rebuilt), the saves fail, but the loop over the obsolete
  nodes runs all the same: afterwards no location is left and no node holds the chunk.
\<close>

theorem rebalance_data_loss:
  fixes ch :: Chunk
  assumes "db_calm (db_of env)" "uuid_in (db_of env) (ch_ID ch) = Some (ch_ID ch)" "chunk_ok G ch gw"
    and "set (ch_NodeAddresses ch) \<inter> set (GetNodes (rb_rings rb (Suc i)) (ch_Hash ch) rf) = {}"
    and "\<forall>a \<in> set (GetNodes (rb_rings rb (Suc i)) (ch_Hash ch) rf). storage_nodes (cluster_of_gw gw) a = None"
    and "net_calm (net_of env) (set (ch_NodeAddresses ch))"
    and "cluster_calm (cluster_of_gw gw) (set (ch_NodeAddresses ch))"
  shows "locations_of (database_of_gw (rebalance_chunk env rb rf (i, ch) gw)) (ch_ID ch) = [] \<and>
    (\<forall>a \<in> set (ch_NodeAddresses ch) \<union> set (GetNodes (rb_rings rb (Suc i)) (ch_Hash ch) rf). \<forall>d.
       \<not> node_holds (cluster_of_gw (rebalance_chunk env rb rf (i, ch) gw)) a (ch_Hash ch) d)"
  using rebalance_data_loss_lemma [OF assms(1-3) _ _ assms(6,7), of rb rf i] assms(4,5)
  by (simp add: expected_nodes_def)

section \<open>Concrete instances\<close>

text \<open>One chunk, on \<open>n1\<close>; the ring wants it on one node that is a parameter.\<close>

definition gw_one :: gateway where
  "gw_one = \<lparr>cluster_of_gw = cluster_of [''n1'' \<mapsto> snd (node_SaveChunk io_ok ''h'' [5] disk_example), ''n2'' \<mapsto> disk_example]
       Map.empty 0,
     database_of_gw = empty_db\<lparr>chunks := [\<lparr>ch_ID = ''c'', ch_ObjectID = ''o'', ch_ChunkIndex = 0, ch_Hash = ''h'', ch_SizeBytes = 1\<rparr>],
       chunk_locations := [(''c'', ''n1'')]\<rparr>\<rparr>"

definition ring_one :: "address \<Rightarrow> HashRing" where
  "ring_one a = \<lparr>vNodes = 1, keys = [2], ring = [2 \<mapsto> a], nodesMap = [a \<mapsto> True]\<rparr>"

definition rb_one :: "HashRing \<Rightarrow> rb_env" where
  "rb_one R = \<lparr>rb_rings = (\<lambda>i. R), rb_expected = (\<lambda>i. []), rb_current = (\<lambda>i. []), rb_fetches = (\<lambda>i. []), rb_sched = (\<lambda>i. [])\<rparr>"

definition chunk_one :: Chunk where
  "chunk_one = \<lparr>ch_ID = ''c'', ch_ObjectID = ''o'', ch_ChunkIndex = 0, ch_Hash = ''h'', ch_SizeBytes = 1,
     ch_NodeAddresses = [''n1'']\<rparr>"

lemma GetNodes_one: "set (GetNodes (ring_one a) h 1) = {a}"
proof -
  have wf: "ring_wf (ring_one a)" by (simp add: ring_wf_def) (simp add: ring_one_def)
  have "set (GetNodes (ring_one a) h 1) \<subseteq> {a}" using GetNodes_subset [OF wf] by (simp add: ring_one_def)
  moreover have "GetNodes (ring_one a) h 1 \<noteq> []" using wf by (rule GetNodes_nonempty) (simp_all add: ring_one_def)
  ultimately show ?thesis by (metis set_empty subset_singletonD)
qed

lemma disk_one: "chunk_at (snd (node_SaveChunk io_ok ''h'' [5] disk_example)) ''h'' = Some [5]"
  by (simp add: disk_eval disk_example_def chunk_at_def)

lemma gw_one_ok:
  "ids_ok db_ok (database_of_gw gw_one)" "replicated (\<lambda>h d. d = [5]) gw_one"
  "cluster_calm (cluster_of_gw gw_one) {''n1'', ''n2''}" "chunk_ok (\<lambda>d. d = [5]) chunk_one gw_one"
  "locations_of (database_of_gw gw_one) ''c'' = [''n1'']"
proof -
  have h: "plain_name ''h''" by (simp add: plain_name_def)
  show loc: "locations_of (database_of_gw gw_one) ''c'' = [''n1'']"
    by (simp add: gw_one_def locations_of_def)
  show "ids_ok db_ok (database_of_gw gw_one)" by (simp add: ids_ok_def gw_one_def env3_simps)
  have holds: "node_holds (cluster_of_gw gw_one) ''n1'' ''h'' [5]"
    using disk_one by (simp add: node_holds_def gw_one_def cluster_of_def)
  with h loc show "replicated (\<lambda>h d. d = [5]) gw_one"
    unfolding replicated_def by (simp add: gw_one_def)
  from holds h loc show "chunk_ok (\<lambda>d. d = [5]) chunk_one gw_one"
    unfolding chunk_ok_def by (simp add: gw_one_def chunk_one_def)
  show "cluster_calm (cluster_of_gw gw_one) {''n1'', ''n2''}"
    using node_ok_SaveChunk [OF node_ok_example h]
    by (auto simp: cluster_calm_def gw_one_def cluster_of_def breaker_of_def new_breaker_def node_live_def node_ok_example)
qed



lemma rebalance_fixpoint_witness:
  "rebalance_pass env_ok (rb_one (ring_one ''n1'')) 1 gw_one =
     gw_one\<lparr>database_of_gw := (database_of_gw gw_one)\<lparr>stmt_no := 1\<rparr>\<rparr>"
proof -
  have "\<forall>i. rb_rings (rb_one (ring_one ''n1'')) i = ring_one ''n1''" by (simp add: rb_one_def)
  moreover have "\<forall>r \<in> set (chunks (database_of_gw gw_one)). ch_ID r = ''c''" "stmt_no (database_of_gw gw_one) = 0"
    by (simp_all add: gw_one_def empty_db_def)
  ultimately show ?thesis
    using rebalance_fixpoint [of env_ok gw_one "rb_one (ring_one ''n1'')" "ring_one ''n1''" 1] gw_one_ok(1,5)
    by (simp add: env3_simps GetNodes_one)
qed

lemma rebalance_data_loss_witness:
  "\<not> node_holds (cluster_of_gw (rebalance_chunk env_ok (rb_one (New 1)) 1 (0, chunk_one) gw_one)) ''n1'' ''h'' [5]"
proof -
  have "GetNodes (rb_rings (rb_one (New 1)) (Suc 0)) (ch_Hash chunk_one) 1 = []"
    by (simp add: GetNodes_def New_def rb_one_def)
  moreover have "cluster_calm (cluster_of_gw gw_one) (set (ch_NodeAddresses chunk_one))"
    using gw_one_ok(3) by (simp add: cluster_calm_def chunk_one_def)
  ultimately show ?thesis
    using rebalance_data_loss [of env_ok chunk_one "\<lambda>d. d = [5]" gw_one "rb_one (New 1)" 0 1] gw_one_ok(4) net_live_three(1)
    by (simp add: env3_simps) (simp add: chunk_one_def)
qed

end
