(* ===== verification/Auth.thy ===== *)
theory Auth imports ObjectHandler begin

text \<open>
  Accounts and access: \<open>internal/auth/handler.go\<close> (register, login and the tokens they hand out) and
  \<open>internal/auth/middleware.go\<close> (what a request must show to get past \<open>RequireAuth\<close> and
  \<open>RequireClusterSecret\<close>). The JWT library and bcrypt are parameters, with what the
  program relies on as named laws.
\<close>

section \<open>The libraries\<close>

type_synonym claims = "string \<rightharpoonup> json"

text \<open>
  \<open>jwt_Sign\<close> is \<open>SignedString\<close> of an HS256 token. \<open>jwt_Parse\<close> takes the time in nanoseconds, a key function, which
  sees whether the token's method is an HMAC and the name of that method, and the token; it gives
  the \<open>Valid\<close> flag and the claims. \<open>jwt_signed key tok cl\<close> says that the token carries these
  claims with a correct HMAC under the key.
\<close>

record jwt_lib =
  jwt_Sign :: "string \<Rightarrow> claims \<Rightarrow> go_error + string"
  jwt_Parse :: "int \<Rightarrow> (bool \<times> string \<Rightarrow> go_error + string) \<Rightarrow> string \<Rightarrow> go_error + bool \<times> claims"
  jwt_signed :: "string \<Rightarrow> string \<Rightarrow> claims \<Rightarrow> bool"

definition not_expired :: "int \<Rightarrow> claims \<Rightarrow> bool" where
  "not_expired time cl \<longleftrightarrow> (case cl ''exp'' of Some (JNum e) \<Rightarrow> time < e * 1000000000 | _ \<Rightarrow> True)"

text \<open>
  What the library documents: a valid token is signed, with a method that the key function
  accepts, under the key that it returns, and has not expired; a token that was signed here is
  accepted until it expires, with the claim \<open>sub\<close> it was given; and tokens are ASCII.
\<close>

definition jwt_ok :: "jwt_lib \<Rightarrow> bool" where
  "jwt_ok lib \<longleftrightarrow>
     (\<forall>time kf tok cl. jwt_Parse lib time kf tok = Inr (True, cl) \<longrightarrow>
        (\<exists>hmac alg key. kf (hmac, alg) = Inr key \<and> (hmac \<longrightarrow> jwt_signed lib key tok cl)) \<and> not_expired time cl) \<and>
     (\<forall>time kf tok cl key s. jwt_Sign lib key cl = Inr tok \<longrightarrow> kf (True, ''HS256'') = Inr key \<longrightarrow>
        cl ''sub'' = Some (JStr s) \<longrightarrow> to_valid_utf8 s = s \<longrightarrow> not_expired time cl \<longrightarrow>
        (\<exists>cl'. jwt_Parse lib time kf tok = Inr (True, cl') \<and> cl' ''sub'' = Some (JStr s))) \<and>
     (\<forall>key cl tok. jwt_Sign lib key cl = Inr tok \<longrightarrow> to_valid_utf8 tok = tok)"

record bcrypt_lib =
  bcrypt_Generate :: "nat \<Rightarrow> string \<Rightarrow> go_error + string"
  bcrypt_Compare :: "string \<Rightarrow> string \<Rightarrow> go_error option"

definition bcrypt_ok :: "bcrypt_lib \<Rightarrow> bool" where
  "bcrypt_ok bc \<longleftrightarrow> (\<forall>salt p hash. bcrypt_Generate bc salt p = Inr hash \<longrightarrow> bcrypt_Compare bc hash p = None)"

section \<open>\<open>handler.go\<close>\<close>

record auth_Handler =
  JWTSecret :: string
  JWTExpiry :: int

text \<open>What a request sees: the libraries, the salt, the database and the readings of the clock.\<close>

record auth_env =
  jwt_of :: jwt_lib
  bcrypt_of :: bcrypt_lib
  auth_salt :: nat
  auth_db :: db_env
  exp_clock :: int
  iat_clock :: int

text \<open>Times are in nanoseconds, durations are 64-bit integers, \<open>Unix()\<close> gives seconds.\<close>

definition expiry :: "auth_Handler \<Rightarrow> int \<Rightarrow> int" where
  "expiry h time = (time + wrap64 (JWTExpiry h * 3600000000000)) div 1000000000"

definition token_claims :: "auth_env \<Rightarrow> auth_Handler \<Rightarrow> string \<Rightarrow> claims" where
  "token_claims env h uid =
     [''sub'' \<mapsto> JStr uid, ''exp'' \<mapsto> JNum (expiry h (exp_clock env)), ''iat'' \<mapsto> JNum (iat_clock env div 1000000000)]"

definition generateToken :: "auth_env \<Rightarrow> auth_Handler \<Rightarrow> string \<Rightarrow> go_error + string" where
  "generateToken env h uid = jwt_Sign (jwt_of env) (JWTSecret h) (token_claims env h uid)"

definition authResp :: "string \<Rightarrow> json" where
  "authResp token = JObj [(''token'', json_string token)]"

text \<open>
  \<open>between\<close> is what other requests do to the database between the test for the e-mail address
  and the insertion.
\<close>

definition Register ::
  "auth_env \<Rightarrow> auth_Handler \<Rightarrow> (database \<Rightarrow> database) \<Rightarrow> request \<Rightarrow> database \<Rightarrow> http_response \<times> database" where
  "Register env h between r db =
     (let w = new_response (clientGone r)
      in case decode_struct [''email'', ''password''] (reqJson r) of
           None \<Rightarrow> (http_Error ''invalid request body'' 400 w, db)
         | Some req \<Rightarrow>
             (let Email = map_get '''' req ''email''; Password = map_get '''' req ''password''
              in if Email = '''' \<or> Password = '''' then (http_Error ''email and password required'' 400 w, db)
                 else let (existing, db) = GetUserByEmail (auth_db env) Email db; db = between db
                      in case existing of
                           Inl err \<Rightarrow> (http_Error ''internal server error'' 500 w, db)
                         | Inr (Some u) \<Rightarrow> (http_Error ''email already in use'' 409 w, db)
                         | Inr None \<Rightarrow>
                             (case bcrypt_Generate (bcrypt_of env) (auth_salt env) Password of
                                Inl err \<Rightarrow> (http_Error ''internal server error'' 500 w, db)
                              | Inr hash \<Rightarrow>
                                  (case CreateUser (auth_db env) Email hash db of
                                     (Inl err, db) \<Rightarrow> (http_Error ''internal server error'' 500 w, db)
                                   | (Inr uid, db) \<Rightarrow>
                                       (case generateToken env h uid of
                                          Inl err \<Rightarrow> (http_Error ''internal server error'' 500 w, db)
                                        | Inr token \<Rightarrow>
                                            (write_json (authResp token)
                                               (WriteHeader 201 (set_header ''Content-Type'' ''application/json'' w)), db))))))"

definition Login :: "auth_env \<Rightarrow> auth_Handler \<Rightarrow> request \<Rightarrow> database \<Rightarrow> http_response \<times> database" where
  "Login env h r db =
     (let w = new_response (clientGone r)
      in case decode_struct [''email'', ''password''] (reqJson r) of
           None \<Rightarrow> (http_Error ''invalid request body'' 400 w, db)
         | Some req \<Rightarrow>
             (let (user, db) = GetUserByEmail (auth_db env) (map_get '''' req ''email'') db
              in case user of
                   Inl err \<Rightarrow> (http_Error ''internal server error'' 500 w, db)
                 | Inr None \<Rightarrow> (http_Error ''invalid credentials'' 401 w, db)
                 | Inr (Some u) \<Rightarrow>
                     (case bcrypt_Compare (bcrypt_of env) (usr_Password u) (map_get '''' req ''password'') of
                        Some err \<Rightarrow> (http_Error ''invalid credentials'' 401 w, db)
                      | None \<Rightarrow>
                          (case generateToken env h (usr_ID u) of
                             Inl err \<Rightarrow> (http_Error ''internal server error'' 500 w, db)
                           | Inr token \<Rightarrow>
                               (write_json (authResp token) (set_header ''Content-Type'' ''application/json'' w), db)))))"

section \<open>\<open>middleware.go\<close>\<close>

text \<open>\<open>strings.SplitN(s, sep, 2)\<close> for a separator of one character.\<close>

definition SplitN_2 :: "char \<Rightarrow> string \<Rightarrow> string list" where
  "SplitN_2 sep s =
     (if sep \<in> set s then [takeWhile (\<lambda>c. c \<noteq> sep) s, tl (dropWhile (\<lambda>c. c \<noteq> sep) s)] else [s])"

definition key_func :: "string \<Rightarrow> bool \<times> string \<Rightarrow> go_error + string" where
  "key_func jwtSecret m =
     (let (hmac, alg) = m
      in if \<not> hmac then Inl (Errorf (''unexpected signing method: '' @ alg)) else Inr jwtSecret)"

text \<open>A type assertion to string that is allowed to fail gives the empty string.\<close>

fun claim_string :: "json option \<Rightarrow> string" where
  "claim_string (Some (JStr s)) = s"
| "claim_string _ = ''''"

text \<open>
  A middleware answers the request or passes it on: \<open>RequireAuth\<close> with the user of the token in
  its context.
\<close>

definition RequireAuth :: "jwt_lib \<Rightarrow> string \<Rightarrow> int \<Rightarrow> request \<Rightarrow> http_response + request" where
  "RequireAuth lib jwtSecret time r =
     (let w = new_response (clientGone r);
          header = reqHeader r ''Authorization''
      in if header = '''' then Inl (http_Error ''authorization header required'' 401 w)
         else let parts = SplitN_2 (CHR '' '') header
              in if length parts \<noteq> 2 \<or> parts ! 0 \<noteq> ''Bearer''
                 then Inl (http_Error ''use format: Bearer <token>'' 401 w)
                 else case jwt_Parse lib time (key_func jwtSecret) (parts ! 1) of
                        Inl err \<Rightarrow> Inl (http_Error ''invalid or expired token'' 401 w)
                      | Inr (Valid, cl) \<Rightarrow>
                          if \<not> Valid then Inl (http_Error ''invalid or expired token'' 401 w)
                          else Inr (r\<lparr>userID := claim_string (cl ''sub'')\<rparr>))"

definition RequireClusterSecret :: "string \<Rightarrow> request \<Rightarrow> http_response + request" where
  "RequireClusterSecret clusterSecret r =
     (let w = new_response (clientGone r);
          token = reqHeader r ''X-Cluster-Token''
      in if token = '''' \<or> token \<noteq> clusterSecret then Inl (http_Error ''forbidden: invalid cluster token'' 403 w)
         else Inr r)"

section \<open>Lemmas\<close>

subsection \<open>The tokens\<close>

lemma SplitN_2_Bearer:
  "length (SplitN_2 (CHR '' '') s) = 2 \<and> SplitN_2 (CHR '' '') s ! 0 = ''Bearer'' \<and> SplitN_2 (CHR '' '') s ! 1 = tok \<longleftrightarrow>
     s = ''Bearer '' @ tok"
proof (cases "CHR '' '' \<in> set s")
  case True
  let ?d = "dropWhile (\<lambda>c. c \<noteq> CHR '' '') s"
  have "?d \<noteq> []" "hd ?d = CHR '' ''" using True hd_dropWhile [of "\<lambda>c. c \<noteq> CHR '' ''" s] by auto
  then have s: "s = takeWhile (\<lambda>c. c \<noteq> CHR '' '') s @ CHR '' '' # tl ?d"
    by (metis list.collapse takeWhile_dropWhile_id)
  show ?thesis
  proof
    assume "length (SplitN_2 (CHR '' '') s) = 2 \<and> SplitN_2 (CHR '' '') s ! 0 = ''Bearer'' \<and> SplitN_2 (CHR '' '') s ! 1 = tok"
    with True have "takeWhile (\<lambda>c. c \<noteq> CHR '' '') s = ''Bearer''" "tl ?d = tok" by (simp_all add: SplitN_2_def)
    then show "s = ''Bearer '' @ tok" using s by simp
  qed (simp add: SplitN_2_def)
next
  case False
  then show ?thesis by (auto simp: SplitN_2_def)
qed

lemma not_expired_claims: "not_expired time (token_claims env h uid) \<longleftrightarrow> time < expiry h (exp_clock env) * 1000000000"
  by (simp add: not_expired_def token_claims_def)

lemma RequireAuth_Inr:
  "RequireAuth lib secret time r = Inr r' \<longleftrightarrow>
     (\<exists>tok cl. reqHeader r ''Authorization'' = ''Bearer '' @ tok \<and>
        jwt_Parse lib time (key_func secret) tok = Inr (True, cl) \<and> r' = r\<lparr>userID := claim_string (cl ''sub'')\<rparr>)"
proof -
  let ?h = "reqHeader r ''Authorization''" and ?p = "SplitN_2 (CHR '' '') (reqHeader r ''Authorization'')"
  have "RequireAuth lib secret time r = Inr r' \<longleftrightarrow> ?h \<noteq> '''' \<and> length ?p = 2 \<and> ?p ! 0 = ''Bearer'' \<and>
      (\<exists>cl. jwt_Parse lib time (key_func secret) (?p ! 1) = Inr (True, cl) \<and> r' = r\<lparr>userID := claim_string (cl ''sub'')\<rparr>)"
    by (auto simp: RequireAuth_def Let_def split: sum.splits if_splits)
  also have "\<dots> \<longleftrightarrow> (\<exists>tok. ?h \<noteq> '''' \<and> (length ?p = 2 \<and> ?p ! 0 = ''Bearer'' \<and> ?p ! 1 = tok) \<and>
      (\<exists>cl. jwt_Parse lib time (key_func secret) tok = Inr (True, cl) \<and> r' = r\<lparr>userID := claim_string (cl ''sub'')\<rparr>))"
    by blast
  also have "\<dots> \<longleftrightarrow> (\<exists>tok cl. ?h = ''Bearer '' @ tok \<and> jwt_Parse lib time (key_func secret) tok = Inr (True, cl) \<and>
      r' = r\<lparr>userID := claim_string (cl ''sub'')\<rparr>)"
    unfolding SplitN_2_Bearer by auto
  finally show ?thesis .
qed

lemma RequireAuth_Inl: "RequireAuth lib secret time r = Inl w \<Longrightarrow> status_code w = 401"
  by (auto simp: RequireAuth_def Let_def split: sum.splits if_splits)

lemma jwt_Parse_law:
  assumes "jwt_ok lib" "jwt_Parse lib time kf tok = Inr (True, cl)"
  shows "(\<exists>hmac alg key. kf (hmac, alg) = Inr key \<and> (hmac \<longrightarrow> jwt_signed lib key tok cl)) \<and> not_expired time cl"
  using assms(1) [unfolded jwt_ok_def, THEN conjunct1, rule_format, OF assms(2)] .

lemma jwt_Sign_law:
  assumes "jwt_ok lib" "jwt_Sign lib key cl = Inr tok" "kf (True, ''HS256'') = Inr key"
    "cl ''sub'' = Some (JStr s)" "to_valid_utf8 s = s" "not_expired time cl"
  shows "\<exists>cl'. jwt_Parse lib time kf tok = Inr (True, cl') \<and> cl' ''sub'' = Some (JStr s)"
  using assms(1) [unfolded jwt_ok_def, THEN conjunct2, THEN conjunct1, rule_format, of key cl tok kf s time] assms(2-6)
  by blast

lemma jwt_text_law: "jwt_ok lib \<Longrightarrow> jwt_Sign lib key cl = Inr tok \<Longrightarrow> to_valid_utf8 tok = tok"
  unfolding jwt_ok_def by blast

lemma RequireAuth_signed:
  assumes "jwt_ok lib" "jwt_Parse lib time (key_func secret) tok = Inr (True, cl)"
  shows "jwt_signed lib secret tok cl" "not_expired time cl"
proof -
  from jwt_Parse_law [OF assms] obtain hmac alg key where
    "key_func secret (hmac, alg) = Inr key" "hmac \<longrightarrow> jwt_signed lib key tok cl" by blast
  then show "jwt_signed lib secret tok cl" by (auto simp: key_func_def split: if_splits)
  from jwt_Parse_law [OF assms] show "not_expired time cl" by blast
qed

lemma token_accepted:
  assumes "jwt_ok (jwt_of env)" "generateToken env h uid = Inr tok" "to_valid_utf8 uid = uid"
    and "time < expiry h (exp_clock env) * 1000000000"
    and "reqHeader r ''Authorization'' = ''Bearer '' @ tok"
  shows "RequireAuth (jwt_of env) (JWTSecret h) time r = Inr (r\<lparr>userID := uid\<rparr>)"
proof -
  have "key_func (JWTSecret h) (True, ''HS256'') = Inr (JWTSecret h)" by (simp add: key_func_def)
  moreover have "token_claims env h uid ''sub'' = Some (JStr uid)" by (simp add: token_claims_def)
  ultimately obtain cl where "jwt_Parse (jwt_of env) time (key_func (JWTSecret h)) tok = Inr (True, cl)"
    "cl ''sub'' = Some (JStr uid)"
    using jwt_Sign_law [OF assms(1) assms(2) [unfolded generateToken_def]] assms(3,4) not_expired_claims by blast
  with assms(5) show ?thesis unfolding RequireAuth_Inr by (intro exI [of _ tok] exI [of _ cl]) simp
qed

subsection \<open>The accounts\<close>

lemma status_code_new [simp]: "status_code (new_response l) = 200"
  by (simp add: status_code_def)

lemma body_write_json: "writes_left w = None \<Longrightarrow> body (write_json j w) = body w @ [Json j]"
  by (simp add: write_json_def response_Write_def WriteHeader_def Let_def)

lemma writes_left_simps [simp]:
  "writes_left (set_header k v w) = writes_left w" "writes_left (WriteHeader st w) = writes_left w"
  "writes_left (new_response l) = l"
  by (simp_all add: set_header_def WriteHeader_def new_response_def)

lemma body_WriteHeader [simp]: "body (WriteHeader st w) = body w" "body (set_header k v w) = body w"
  by (simp_all add: WriteHeader_def set_header_def)

lemma filter_head:
  assumes "filter P xs = y # ys"
  shows "y \<in> set xs \<and> P y"
proof -
  have "y \<in> set (filter P xs)" unfolding assms by simp
  then show ?thesis by simp
qed

lemma GetUserByEmail_cases:
  assumes "GetUserByEmail env email db = (res, db')"
  shows "same_tables db db' \<and>
    (\<forall>u. res = Inr (Some u) \<longrightarrow> u \<in> set (users db) \<and> usr_Email u = email) \<and>
    (res = Inr None \<longrightarrow> email \<notin> usr_Email ` set (users db))"
proof -
  have f: "u \<in> set (users db) \<and> usr_Email u = email" if "filter (\<lambda>u. usr_Email u = email) (users db) = u # us" for u us
    using filter_head [OF that] by simp
  have e: "violation s \<noteq> ErrNoRows" "conn_err \<noteq> ErrNoRows" for s by (simp_all add: violation_def conn_err_def)
  from assms e show ?thesis
    by (auto simp: GetUserByEmail_def exec_stmt_def Let_def filter_empty_conv
        split: fault.splits if_splits list.splits sum.splits dest: f)
qed

lemma GetUserByEmail_found:
  assumes "db_inv db" "db_fault env (stmt_no db) = Deliver" "text_ok env (usr_Email u)" "u \<in> set (users db)"
  shows "GetUserByEmail env (usr_Email u) db = (Inr (Some u), db\<lparr>stmt_no := Suc (stmt_no db)\<rparr>)"
proof -
  have d: "distinct (map usr_Email (users db))" using assms(1) by (simp add: db_inv_def users_inv_def)
  obtain v vs where f: "filter (\<lambda>v. usr_Email v = usr_Email u) (users db) = v # vs"
    using assms(4) by (cases "filter (\<lambda>v. usr_Email v = usr_Email u) (users db)") (auto simp: filter_empty_conv)
  then have "v \<in> set (users db) \<and> usr_Email v = usr_Email u" by (rule filter_head)
  then have "v = u" using d assms(4) by (meson distinct_map inj_onD)
  with f assms(2,3) show ?thesis by (simp add: GetUserByEmail_def exec_stmt_def Let_def)
qed

lemma CreateUser_ok:
  assumes "CreateUser env email hash db = (Inr uid, db')"
  shows "email \<notin> usr_Email ` set (users db) \<and>
    (\<exists>t. users db' = users db @ [\<lparr>usr_ID = uid, usr_Email = email, usr_Password = hash, usr_CreatedAt = t\<rparr>])"
  using assms
  by (auto simp: CreateUser_def exec_stmt_def Let_def split: fault.splits if_splits sum.splits)

lemma Register_201:
  assumes "Register env h between r db = (w, db')" "status_code w = 201"
  obtains req hash uid tok t where
    "decode_struct [''email'', ''password''] (reqJson r) = Some req"
    "map_get '''' req ''email'' \<notin> usr_Email ` set (users db)"
    "bcrypt_Generate (bcrypt_of env) (auth_salt env) (map_get '''' req ''password'') = Inr hash"
    "map_get '''' req ''email'' \<notin> usr_Email ` set (users (between (db\<lparr>stmt_no := Suc (stmt_no db)\<rparr>)))"
    "users db' = users (between (db\<lparr>stmt_no := Suc (stmt_no db)\<rparr>)) @
       [\<lparr>usr_ID = uid, usr_Email = map_get '''' req ''email'', usr_Password = hash, usr_CreatedAt = t\<rparr>]"
    "generateToken env h uid = Inr tok"
    "clientGone r = None \<Longrightarrow> body w = [Json (authResp tok)]"
    "db_inv (between (db\<lparr>stmt_no := Suc (stmt_no db)\<rparr>)) \<Longrightarrow> db_inv db'"
proof -
  obtain req where req: "decode_struct [''email'', ''password''] (reqJson r) = Some req"
    using assms by (auto simp: Register_def Let_def split: option.splits)
  let ?e = "map_get '''' req ''email''" and ?p = "map_get '''' req ''password''"
  let ?db = "db\<lparr>stmt_no := Suc (stmt_no db)\<rparr>"
  obtain ex db1 where get: "GetUserByEmail (auth_db env) ?e db = (ex, db1)" by fastforce
  have db1: "db1 = ?db" using get
    by (auto simp: GetUserByEmail_def exec_stmt_def Let_def split: fault.splits if_splits list.splits sum.splits)
  have ex: "ex = Inr None" and ne: "?e \<noteq> ''''" "?p \<noteq> ''''"
    using assms get req by (auto simp: Register_def Let_def split: if_splits sum.splits option.splits)
  obtain hash where hash: "bcrypt_Generate (bcrypt_of env) (auth_salt env) ?p = Inr hash"
    using assms get req ne by (auto simp: Register_def Let_def ex split: sum.splits)
  obtain res db2 where c: "CreateUser (auth_db env) ?e hash (between ?db) = (res, db2)" by fastforce
  obtain uid where uid: "res = Inr uid"
    using assms get req ne hash c by (auto simp: Register_def Let_def ex db1 split: sum.splits)
  obtain tok where tok: "generateToken env h uid = Inr tok"
    using assms get req ne hash c uid by (auto simp: Register_def Let_def ex db1 split: sum.splits)
  have w: "w = write_json (authResp tok) (WriteHeader 201 (set_header ''Content-Type'' ''application/json'' (new_response (clientGone r))))"
    "db' = db2"
    using assms(1) get req ne hash c uid tok by (simp_all add: Register_def Let_def ex db1)
  note u = CreateUser_ok [OF c [unfolded uid]]
  obtain t where t: "users (db2) = users (between ?db) @
      [\<lparr>usr_ID = uid, usr_Email = ?e, usr_Password = hash, usr_CreatedAt = t\<rparr>]" using u by blast
  have inv: "db_inv (between ?db) \<Longrightarrow> db_inv (db2)"
    using inv_CreateUser [of "between ?db" "auth_db env" ?e hash] c by simp
  show thesis
    by (rule that [OF req _ hash _ _ tok, where t = t])
      (use GetUserByEmail_cases [OF get] ex u t inv in \<open>simp_all add: w body_write_json\<close>)
qed

lemma Login_ok:
  assumes "decode_struct [''email'', ''password''] (reqJson r) = Some req"
    and "db_inv db" "db_fault (auth_db env) (stmt_no db) = Deliver" "text_ok (auth_db env) (usr_Email u)"
    and "u \<in> set (users db)" "usr_Email u = map_get '''' req ''email''"
    and "bcrypt_Compare (bcrypt_of env) (usr_Password u) (map_get '''' req ''password'') = None"
    and "generateToken env h (usr_ID u) = Inr tok"
  shows "Login env h r db = (write_json (authResp tok) (set_header ''Content-Type'' ''application/json''
      (new_response (clientGone r))), db\<lparr>stmt_no := Suc (stmt_no db)\<rparr>)"
  using assms(1,7,8) GetUserByEmail_found [OF assms(2-5)] assms(6) by (simp add: Login_def Let_def)

section \<open>Properties\<close>

text \<open>
  C36: what passes \<open>RequireAuth\<close>. A request reaches a protected handler only with a bearer token
  that carries its claims signed under the server's secret and that has not expired, and the handler
  sees the user the token names; every other request is answered with 401. (A token signed with
  another algorithm, or with none, is refused by the key function.)
\<close>

theorem RequireAuth_safe:
  assumes "jwt_ok lib"
  shows "case RequireAuth lib jwtSecret time r of
      Inl w \<Rightarrow> status_code w = 401
    | Inr r' \<Rightarrow> \<exists>tok cl. reqHeader r ''Authorization'' = ''Bearer '' @ tok \<and> jwt_signed lib jwtSecret tok cl \<and>
        not_expired time cl \<and> r' = r\<lparr>userID := claim_string (cl ''sub'')\<rparr>"
proof (cases "RequireAuth lib jwtSecret time r")
  case (Inl w)
  then show ?thesis using RequireAuth_Inl by simp
next
  case (Inr r')
  then obtain tok cl where tok: "reqHeader r ''Authorization'' = ''Bearer '' @ tok"
    "jwt_Parse lib time (key_func jwtSecret) tok = Inr (True, cl)" "r' = r\<lparr>userID := claim_string (cl ''sub'')\<rparr>"
    unfolding RequireAuth_Inr by blast
  with RequireAuth_signed [OF assms tok(2)] show ?thesis unfolding Inr sum.case by blast
qed


text \<open>
  A failed login does not tell an account from none. For an address that no user has and for one
  whose password is wrong the whole response is the same, and in every case \<open>Login\<close> leaves the tables
  as they are. (The time it takes differs: bcrypt runs in one of the cases.)
\<close>

theorem Login_uniform:
  assumes "Login env h r db = (w, db1)" "Login env h r db' = (w', db1')"
    and "decode_struct [''email'', ''password''] (reqJson r) = Some req"
    and "map_get '''' req ''email'' \<notin> usr_Email ` set (users db)" "\<forall>k. db_fault (auth_db env) k = Deliver"
    and "text_ok (auth_db env) (map_get '''' req ''email'')"
    and "\<forall>u \<in> set (users db'). usr_Email u = map_get '''' req ''email'' \<longrightarrow>
      bcrypt_Compare (bcrypt_of env) (usr_Password u) (map_get '''' req ''password'') \<noteq> None"
  shows "w = w' \<and> status_code w = 401 \<and> same_tables db db1 \<and> same_tables db' db1'"
proof -
  let ?e = "map_get '''' req ''email''"
  have L: "fst (Login env h r d) = http_Error ''invalid credentials'' 401 (new_response (clientGone r)) \<and>
      same_tables d (snd (Login env h r d))"
    if none: "\<forall>u \<in> set (users d). usr_Email u = ?e \<longrightarrow>
      bcrypt_Compare (bcrypt_of env) (usr_Password u) (map_get '''' req ''password'') \<noteq> None" for d
  proof -
    obtain res d1 where get: "GetUserByEmail (auth_db env) ?e d = (res, d1)" by fastforce
    note G = GetUserByEmail_cases [OF get]
    have "\<not> is_err res"
      using get assms(5,6) by (auto simp: GetUserByEmail_def exec_stmt_def Let_def split: list.splits sum.splits if_splits)
    then obtain ou where ou: "res = Inr ou" by (cases res) auto
    show ?thesis
    proof (cases ou)
      case None
      then show ?thesis using get ou G assms(3) by (simp add: Login_def)
    next
      case (Some u)
      with G ou none obtain e where "bcrypt_Compare (bcrypt_of env) (usr_Password u) (map_get '''' req ''password'') = Some e"
        by auto
      then show ?thesis using get ou G Some assms(3) by (simp add: Login_def)
    qed
  qed
  have "\<forall>u \<in> set (users db). usr_Email u = ?e \<longrightarrow>
      bcrypt_Compare (bcrypt_of env) (usr_Password u) (map_get '''' req ''password'') \<noteq> None"
    using assms(4) by (metis imageI)
  from L [OF this] L [OF assms(7)] assms(1,2) show ?thesis by simp
qed

text \<open>
  C38: how long a token lives. It expires the configured number of hours after it was made, as long
  as that many hours fit into a 64-bit number of nanoseconds; one hour more, and the duration
  wraps around to the past, so that every token is born expired.
\<close>

theorem expiry_bounds:
  "(0 \<le> JWTExpiry h \<and> JWTExpiry h \<le> 2562047 \<longrightarrow> expiry h time = time div 1000000000 + 3600 * JWTExpiry h) \<and>
   (JWTExpiry h = 2562048 \<longrightarrow> expiry h time < time div 1000000000)"
proof (intro conjI impI)
  assume h: "0 \<le> JWTExpiry h \<and> JWTExpiry h \<le> 2562047"
  then have "wrap64 (JWTExpiry h * 3600000000000) = JWTExpiry h * 3600000000000" by (intro wrap64_id) simp_all
  moreover have "time + JWTExpiry h * 3600000000000 = time + 1000000000 * (3600 * JWTExpiry h)" by simp
  ultimately show "expiry h time = time div 1000000000 + 3600 * JWTExpiry h"
    unfolding expiry_def by (metis add.commute div_mult_self2 zero_neq_numeral)
next
  assume "JWTExpiry h = 2562048"
  then have "expiry h time = (time + wrap64 9223372800000000000) div 1000000000" by (simp add: expiry_def)
  also have "\<dots> \<le> (time - 1000000000) div 1000000000"
    by (intro zdiv_mono1) (simp_all add: wrap64_def)
  finally show "expiry h time < time div 1000000000" by simp
qed

section \<open>Concrete instances\<close>

text \<open>A signature is the key in front of the user, and a hash is the password.\<close>

definition jwt_plain :: jwt_lib where
  "jwt_plain =
     \<lparr>jwt_Sign = (\<lambda>key cl. let s = claim_string (cl ''sub'')
        in if to_valid_utf8 (key @ s) = key @ s then Inr (key @ s) else Inl (Errorf ''encoding'')),
      jwt_Parse = (\<lambda>time kf tok. case kf (True, ''HS256'') of
          Inl err \<Rightarrow> Inl err
        | Inr key \<Rightarrow> if take (length key) tok = key then Inr (True, [''sub'' \<mapsto> JStr (drop (length key) tok)])
                    else Inl (Errorf ''signature is invalid'')),
      jwt_signed = (\<lambda>key tok cl. tok = key @ claim_string (cl ''sub''))\<rparr>"

definition bcrypt_plain :: bcrypt_lib where
  "bcrypt_plain =
     \<lparr>bcrypt_Generate = (\<lambda>salt p. Inr p),
      bcrypt_Compare = (\<lambda>hash p. if p = hash then None else Some (Errorf ''mismatch''))\<rparr>"

lemma plain_ok: "jwt_ok jwt_plain" "bcrypt_ok bcrypt_plain"
proof -
  show "bcrypt_ok bcrypt_plain" by (simp add: bcrypt_ok_def bcrypt_plain_def)
  have "\<exists>hmac alg key. kf (hmac, alg) = Inr key \<and> (hmac \<longrightarrow> jwt_signed jwt_plain key tok cl)"
    "not_expired time cl" if p: "jwt_Parse jwt_plain time kf tok = Inr (True, cl)" for time kf tok cl
  proof -
    obtain key where key: "kf (True, ''HS256'') = Inr key"
      using p by (auto simp: jwt_plain_def split: sum.splits)
    moreover from this p have "take (length key) tok = key" by (simp add: jwt_plain_def split: if_splits)
    moreover from this key p have "cl = [''sub'' \<mapsto> JStr (drop (length key) tok)]" by (simp add: jwt_plain_def)
    ultimately have k: "kf (True, ''HS256'') = Inr key" "take (length key) tok = key"
      "cl = [''sub'' \<mapsto> JStr (drop (length key) tok)]" by blast+
    then have "jwt_signed jwt_plain key tok cl" by (simp add: jwt_plain_def) (metis append_take_drop_id)
    with k(1) show "\<exists>hmac alg key. kf (hmac, alg) = Inr key \<and> (hmac \<longrightarrow> jwt_signed jwt_plain key tok cl)" by blast
    show "not_expired time cl" using k(3) by (simp add: not_expired_def)
  qed
  moreover have "\<exists>cl'. jwt_Parse jwt_plain time kf tok = Inr (True, cl') \<and> cl' ''sub'' = Some (JStr s)"
    if "jwt_Sign jwt_plain key cl = Inr tok" "kf (True, ''HS256'') = Inr key" "cl ''sub'' = Some (JStr s)"
    for time kf key cl tok s
    using that by (auto simp: jwt_plain_def Let_def split: if_splits)
  moreover have "to_valid_utf8 tok = tok" if "jwt_Sign jwt_plain key cl = Inr tok" for key cl tok
    using that by (auto simp: jwt_plain_def Let_def split: if_splits)
  ultimately show "jwt_ok jwt_plain" unfolding jwt_ok_def by simp
qed

definition auth_plain :: auth_env where
  "auth_plain = \<lparr>jwt_of = jwt_plain, bcrypt_of = bcrypt_plain, auth_salt = 0,
     auth_db = db_ok\<lparr>gen_uuid := \<lambda>k j. ''u''\<rparr>, exp_clock = 0, iat_clock = 0\<rparr>"

definition auth_plain_handler :: auth_Handler where
  "auth_plain_handler = \<lparr>JWTSecret = ''k'', JWTExpiry = 1\<rparr>"

definition auth_request :: "string \<Rightarrow> request" where
  "auth_request p = \<lparr>userID = '''', pathValue = (\<lambda>x. ''''), reqHeader = (\<lambda>x. ''Bearer ku''), reqBody = [], reqEnd = EndEOF,
     reqJson = Some (JObj [(''email'', JStr ''e''), (''password'', JStr p)]), clientGone = None\<rparr>"

lemma auth_decode:
  "decode_struct [''email'', ''password''] (reqJson (auth_request p)) = Some [''email'' \<mapsto> ''e'', ''password'' \<mapsto> p]"
proof -
  have "fold_name ''email'' = ''email''" "fold_name ''password'' = ''password''"
    by (simp_all add: fold_name.simps lower_def code_def)
  then show ?thesis by (simp add: decode_struct_def auth_request_def)
qed

lemma utf8_ku: "to_valid_utf8 ''ku'' = ''ku''" "to_valid_utf8 ''u'' = ''u''"
  by (simp_all add: to_valid_utf8_ascii ascii_def code_def)

lemma RequireAuth_safe_witness:
  "\<exists>tok cl. jwt_signed jwt_plain ''k'' tok cl \<and>
     RequireAuth jwt_plain ''k'' 0 (auth_request ''p'') = Inr ((auth_request ''p'')\<lparr>userID := claim_string (cl ''sub'')\<rparr>)"
proof -
  have "RequireAuth jwt_plain ''k'' 0 (auth_request ''p'') = Inr ((auth_request ''p'')\<lparr>userID := ''u''\<rparr>)"
    by (simp add: RequireAuth_def auth_request_def SplitN_2_def jwt_plain_def key_func_def)
  with RequireAuth_safe [OF plain_ok(1), where jwtSecret = "''k''" and time = 0 and r = "auth_request ''p''"] show ?thesis by auto
qed

lemma plain_account:
  "Register auth_plain auth_plain_handler id (auth_request ''p'') empty_db =
     (write_json (authResp ''ku'') (WriteHeader 201 (set_header ''Content-Type'' ''application/json'' (new_response None))),
      empty_db\<lparr>users := [\<lparr>usr_ID = ''u'', usr_Email = ''e'', usr_Password = ''p'', usr_CreatedAt = 1\<rparr>], stmt_no := 2\<rparr>)"
proof -
  let ?db = "empty_db\<lparr>stmt_no := Suc 0\<rparr>"
  have "GetUserByEmail (auth_db auth_plain) ''e'' empty_db = (Inr None, ?db)"
    by (simp add: GetUserByEmail_def auth_plain_def db_eval empty_db_def)
  moreover have "CreateUser (auth_db auth_plain) ''e'' ''p'' ?db = (Inr ''u'',
      empty_db\<lparr>users := [\<lparr>usr_ID = ''u'', usr_Email = ''e'', usr_Password = ''p'', usr_CreatedAt = 1\<rparr>], stmt_no := 2\<rparr>)"
    by (simp add: CreateUser_def auth_plain_def db_eval empty_db_def)
  moreover have "generateToken auth_plain auth_plain_handler ''u'' = Inr ''ku''"
    by (simp add: generateToken_def token_claims_def auth_plain_def auth_plain_handler_def jwt_plain_def utf8_ku)
  moreover have "bcrypt_Generate (bcrypt_of auth_plain) (auth_salt auth_plain) ''p'' = Inr ''p''" "clientGone (auth_request ''p'') = None"
    by (simp_all add: auth_plain_def bcrypt_plain_def auth_request_def)
  ultimately show ?thesis by (simp add: Register_def auth_decode Let_def)
qed

lemma plain_account_ok:
  defines "db \<equiv> empty_db\<lparr>users := [\<lparr>usr_ID = ''u'', usr_Email = ''e'', usr_Password = ''p'', usr_CreatedAt = 1\<rparr>], stmt_no := 2\<rparr>"
  shows "db_inv db" "db_fault (auth_db auth_plain) k = Deliver" "text_ok (auth_db auth_plain) s"
    "\<forall>u \<in> set (users db). to_valid_utf8 (usr_ID u) = usr_ID u \<and> (\<exists>tok. generateToken auth_plain auth_plain_handler (usr_ID u) = Inr tok)"
    "jwt_of auth_plain = jwt_plain" "bcrypt_of auth_plain = bcrypt_plain"
    "expiry auth_plain_handler (exp_clock auth_plain) = 3600" "clientGone (auth_request p) = None"
    "JWTSecret auth_plain_handler = ''k''" "db_inv (empty_db\<lparr>stmt_no := k\<rparr>)"
proof -
  show "db_inv db" using inv_empty_db
    by (simp add: db_def db_inv_def users_inv_def objects_inv_def uploads_inv_def empty_db_def)
qed (simp_all add: db_def auth_plain_def auth_plain_handler_def auth_request_def db_ok_def generateToken_def token_claims_def
    jwt_plain_def utf8_ku expiry_def wrap64_def inv_empty_db)


lemma Login_uniform_witness:
  "fst (Login auth_plain auth_plain_handler (auth_request ''q'') empty_db) =
   fst (Login auth_plain auth_plain_handler (auth_request ''q'') (empty_db\<lparr>users :=
     [\<lparr>usr_ID = ''u'', usr_Email = ''e'', usr_Password = ''p'', usr_CreatedAt = 1\<rparr>], stmt_no := 2\<rparr>))"
  using Login_uniform [OF surjective_pairing surjective_pairing auth_decode, of "''q''" empty_db auth_plain
      "empty_db\<lparr>users := [\<lparr>usr_ID = ''u'', usr_Email = ''e'', usr_Password = ''p'', usr_CreatedAt = 1\<rparr>], stmt_no := 2\<rparr>"
      auth_plain_handler] plain_account_ok
  by (simp add: empty_db_def bcrypt_plain_def)

lemma expiry_bounds_witness: "expiry auth_plain_handler 0 = 3600"
  using expiry_bounds [of auth_plain_handler 0] by (simp add: auth_plain_handler_def)

end
