(* ===== verification/Config.thy ===== *)
theory Config imports GoLib GoJson begin

text \<open>
  The configuration that both programs start with (\<open>internal/config/config.go\<close>): the variables of
  the environment, their defaults, and what is rejected. \<open>godotenv\<close> only adds variables to the
  environment, which is an argument here. The file shows what an accepted configuration
  guarantees, what it does not, and that a written configuration is read back.
\<close>

section \<open>Parsing\<close>

text \<open>\<open>encoding/hex\<close> accepts digits of both cases and an even number of them.\<close>

definition from_hex :: "char \<Rightarrow> nat option" where
  "from_hex c =
     (if 48 \<le> code c \<and> code c \<le> 57 then Some (code c - 48)
      else if 97 \<le> code c \<and> code c \<le> 102 then Some (code c - 87)
      else if 65 \<le> code c \<and> code c \<le> 70 then Some (code c - 55)
      else None)"

fun hex_DecodeString :: "string \<Rightarrow> bytes option" where
  "hex_DecodeString [] = Some []"
| "hex_DecodeString [c] = None"
| "hex_DecodeString (c # d # s) =
     (case (from_hex c, from_hex d, hex_DecodeString s) of
        (Some a, Some b, Some bs) \<Rightarrow> Some (of_nat (16 * a + b) # bs)
      | _ \<Rightarrow> None)"

definition decimal_digit :: "char \<Rightarrow> bool" where
  "decimal_digit c \<longleftrightarrow> 48 \<le> code c \<and> code c \<le> 57"

definition decimal_value :: "string \<Rightarrow> int" where
  "decimal_value ds = foldl (\<lambda>n d. 10 * n + int (code d - 48)) 0 ds"

text \<open>\<open>strconv.Atoi\<close>: an optional sign, decimal digits, and a value that fits into 64 bits.\<close>

definition strconv_Atoi :: "string \<Rightarrow> go_error + int" where
  "strconv_Atoi s =
     (let signed = (s \<noteq> [] \<and> (hd s = CHR ''-'' \<or> hd s = CHR ''+''));
          ds = (if signed then tl s else s);
          n = (if s \<noteq> [] \<and> hd s = CHR ''-'' then - decimal_value ds else decimal_value ds)
      in if ds = [] \<or> \<not> list_all decimal_digit ds then Inl (Errorf ''strconv.Atoi: invalid syntax'')
         else if - (2 ^ 63) \<le> n \<and> n < 2 ^ 63 then Inr n
         else Inl (Errorf ''strconv.Atoi: value out of range''))"

section \<open>\<open>Load\<close>\<close>

record Config =
  cfg_GatewayPort :: string
  cfg_StorageNodePort :: string
  cfg_DBHost :: string
  cfg_DBPort :: string
  cfg_DBUser :: string
  cfg_DBPassword :: string
  cfg_DBName :: string
  cfg_DBDSN :: string
  cfg_JWTSecret :: string
  cfg_JWTExpiryHours :: int
  cfg_ChunkSizeMB :: int
  cfg_ReplicationFactor :: int
  cfg_QuorumSize :: int
  cfg_EncryptionKey :: bytes
  cfg_ClusterSecret :: string

definition getEnv :: "(string \<rightharpoonup> string) \<Rightarrow> string \<Rightarrow> string \<Rightarrow> string" where
  "getEnv env k fallback = (case env k of Some val \<Rightarrow> val | None \<Rightarrow> fallback)"

text \<open>\<open>log.Fatalf\<close> ends the process.\<close>

datatype load_result = Fatal string | LoadErr go_error | Loaded Config

definition default_key :: string where
  "default_key = ''0123456789abcdef0123456789abcdef0123456789abcdef0123456789abcdef''"

definition Load :: "(string \<rightharpoonup> string) \<Rightarrow> load_result" where
  "Load env =
     (case hex_DecodeString (getEnv env ''ENCRYPTION_KEY'' default_key) of
        None \<Rightarrow> Fatal ''Invalid ENCRYPTION_KEY''
      | Some enckey \<Rightarrow>
          if length enckey \<noteq> 32 then Fatal ''Invalid ENCRYPTION_KEY''
          else let cfg = \<lparr>cfg_GatewayPort = getEnv env ''GATEWAY_PORT'' ''8080'',
                          cfg_StorageNodePort = getEnv env ''STORAGE_NODE_PORT'' ''9000'',
                          cfg_DBHost = getEnv env ''DB_HOST'' ''localhost'',
                          cfg_DBPort = getEnv env ''DB_PORT'' ''5433'',
                          cfg_DBUser = getEnv env ''DB_USER'' ''atlasstore'',
                          cfg_DBPassword = getEnv env ''DB_PASSWORD'' '''',
                          cfg_DBName = getEnv env ''DB_NAME'' ''atlasstore'',
                          cfg_DBDSN = '''',
                          cfg_JWTSecret = getEnv env ''JWT_SECRET'' '''',
                          cfg_JWTExpiryHours = 0, cfg_ChunkSizeMB = 0, cfg_ReplicationFactor = 0, cfg_QuorumSize = 0,
                          cfg_EncryptionKey = enckey,
                          cfg_ClusterSecret = getEnv env ''CLUSTER_SECRET'' ''atlas_cluster_token_123''\<rparr>
               in if cfg_JWTSecret cfg = '''' then LoadErr (Errorf ''JWT_SECRET must be set in environment'')
                  else if cfg_DBPassword cfg = '''' then LoadErr (Errorf ''DB_PASSWORD must be set in environment'')
                  else case strconv_Atoi (getEnv env ''JWT_EXPIRY'' ''72'') of
                         Inl err \<Rightarrow> LoadErr (Wrapf ''invalid JWT_EXPIRY_HOURS'' err)
                       | Inr expiryHours \<Rightarrow>
                           (case strconv_Atoi (getEnv env ''CHUNK_SIZE_MB'' ''5'') of
                              Inl err \<Rightarrow> LoadErr (Wrapf ''invalid CHUNK_SIZE_MB'' err)
                            | Inr chunkSizeMB \<Rightarrow>
                                (case strconv_Atoi (getEnv env ''REPLICATION_FACTOR'' ''3'') of
                                   Inl err \<Rightarrow> LoadErr (Wrapf ''invalid REPLICATION_FACTOR'' err)
                                 | Inr replicationFactor \<Rightarrow>
                                     Loaded (cfg\<lparr>cfg_JWTExpiryHours := expiryHours, cfg_ChunkSizeMB := chunkSizeMB,
                                       cfg_ReplicationFactor := replicationFactor,
                                       cfg_QuorumSize := go_div replicationFactor 2 + 1,
                                       cfg_DBDSN := ''host='' @ cfg_DBHost cfg @ '' port='' @ cfg_DBPort cfg @
                                         '' user='' @ cfg_DBUser cfg @ '' password='' @ cfg_DBPassword cfg @
                                         '' dbname='' @ cfg_DBName cfg @ '' sslmode=disable''\<rparr>))))"

section \<open>Lemmas\<close>

lemma code_digit: "d < 10 \<Longrightarrow> code (dec_digit d) = 48 + d"
proof -
  assume "d < 10"
  then have "d \<in> set [0, 1, 2, 3, 4, 5, 6, 7, 8, 9]" using set_10 by blast
  then show ?thesis by (auto simp: code_def dec_digit_def)
qed

lemma from_hex_digit: "d < 16 \<Longrightarrow> from_hex (hex_digit d) = Some d"
proof -
  assume "d < 16"
  then have "d = 0 \<or> d = 1 \<or> d = 2 \<or> d = 3 \<or> d = 4 \<or> d = 5 \<or> d = 6 \<or> d = 7 \<or> d = 8 \<or> d = 9 \<or>
      d = 10 \<or> d = 11 \<or> d = 12 \<or> d = 13 \<or> d = 14 \<or> d = 15" by presburger
  then show ?thesis by (auto simp: from_hex_def hex_digit_def code_def)
qed

lemma hex_roundtrip: "hex_DecodeString (hex_EncodeToString bs) = Some bs"
proof (induction bs)
  case (Cons b bs)
  have "unat b < 256" using unsigned_less [where 'a = nat, of b] by simp
  then have "unat b div 16 < 16" "unat b mod 16 < 16" by simp_all
  moreover have "hex_EncodeToString (b # bs) =
      hex_digit (unat b div 16) # hex_digit (unat b mod 16) # hex_EncodeToString bs"
    by (simp add: hex_EncodeToString_def)
  ultimately show ?case by (simp add: from_hex_digit Cons.IH)
qed (simp add: hex_EncodeToString_def)

lemma length_hex_DecodeString: "hex_DecodeString s = Some bs \<Longrightarrow> length s = 2 * length bs"
  by (induction s arbitrary: bs rule: hex_DecodeString.induct) (auto split: option.splits)

lemma decimal_dec: "decimal_value (dec n) = int n" "list_all decimal_digit (dec n)"
proof (induction n rule: dec.induct)
  case (1 n)
  {
    case 1
    show ?case
    proof (cases "n < 10")
      case True
      then show ?thesis by (simp add: dec_small decimal_value_def code_digit)
    next
      case False
      have "10 * int (n div 10) + int (n mod 10) = int n" by presburger
      with False "1.IH"(1) show ?thesis by (simp add: dec_large decimal_value_def code_digit)
    qed
  next
    case 2
    show ?case
    proof (cases "n < 10")
      case True
      then show ?thesis by (simp add: dec_small decimal_digit_def code_digit)
    next
      case False
      with "1.IH"(2) show ?thesis by (simp add: dec_large decimal_digit_def code_digit)
    qed
  }
qed

lemma Atoi_dec: "n < 2 ^ 63 \<Longrightarrow> strconv_Atoi (dec n) = Inr (int n)"
proof -
  assume n: "n < 2 ^ 63"
  have "decimal_digit (hd (dec n))" using decimal_dec(2) [of n] dec_not_Nil [of n] by (cases "dec n") simp_all
  then have "hd (dec n) \<noteq> CHR ''-''" "hd (dec n) \<noteq> CHR ''+''" by (auto simp: decimal_digit_def code_def)
  moreover have "int n < 2 ^ 63" using n by (metis of_nat_less_iff of_nat_numeral of_nat_power)
  ultimately show ?thesis by (simp add: strconv_Atoi_def decimal_dec)
qed

lemma Atoi_range: "strconv_Atoi s = Inr n \<Longrightarrow> - (2 ^ 63) \<le> n \<and> n < 2 ^ 63"
  unfolding strconv_Atoi_def Let_def by (simp only: split: if_splits) auto

lemma Load_Loaded:
  assumes "Load env = Loaded cfg"
  obtains "length (cfg_EncryptionKey cfg) = 32" "cfg_JWTSecret cfg \<noteq> ''''" "cfg_DBPassword cfg \<noteq> ''''"
    "strconv_Atoi (getEnv env ''JWT_EXPIRY'' ''72'') = Inr (cfg_JWTExpiryHours cfg)"
    "strconv_Atoi (getEnv env ''CHUNK_SIZE_MB'' ''5'') = Inr (cfg_ChunkSizeMB cfg)"
    "strconv_Atoi (getEnv env ''REPLICATION_FACTOR'' ''3'') = Inr (cfg_ReplicationFactor cfg)"
    "cfg_QuorumSize cfg = go_div (cfg_ReplicationFactor cfg) 2 + 1"
  using assms unfolding Load_def Let_def
  by (auto split: option.splits if_splits sum.splits)

section \<open>Properties\<close>

text \<open>
  What an accepted configuration guarantees. The key has 32 bytes, the secrets that are needed
  are there, the numbers are 64-bit integers, and the quorum is a majority of the replication
  factor, so that two quorums meet; the process ends at once exactly if the key is not
  64 hexadecimal digits.
\<close>

theorem Load_spec:
  "(\<forall>cfg. Load env = Loaded cfg \<longrightarrow> length (cfg_EncryptionKey cfg) = 32 \<and> cfg_JWTSecret cfg \<noteq> '''' \<and>
      cfg_DBPassword cfg \<noteq> '''' \<and> {cfg_JWTExpiryHours cfg, cfg_ChunkSizeMB cfg, cfg_ReplicationFactor cfg} \<subseteq> {- (2 ^ 63)..<2 ^ 63} \<and>
      (0 \<le> cfg_ReplicationFactor cfg \<longrightarrow>
         cfg_ReplicationFactor cfg < 2 * cfg_QuorumSize cfg \<and> cfg_QuorumSize cfg \<le> cfg_ReplicationFactor cfg + 1)) \<and>
   ((\<exists>m. Load env = Fatal m) \<longleftrightarrow>
      hex_DecodeString (getEnv env ''ENCRYPTION_KEY'' default_key) = None \<or>
      length (getEnv env ''ENCRYPTION_KEY'' default_key) \<noteq> 64)"
proof (intro conjI allI impI)
  fix cfg
  assume "Load env = Loaded cfg"
  then show "length (cfg_EncryptionKey cfg) = 32" "cfg_JWTSecret cfg \<noteq> ''''" "cfg_DBPassword cfg \<noteq> ''''"
    "{cfg_JWTExpiryHours cfg, cfg_ChunkSizeMB cfg, cfg_ReplicationFactor cfg} \<subseteq> {- (2 ^ 63)..<2 ^ 63}"
    using Atoi_range by (auto elim!: Load_Loaded)
  have quo: "cfg_QuorumSize cfg = go_div (cfg_ReplicationFactor cfg) 2 + 1"
    using \<open>Load env = Loaded cfg\<close> by (rule Load_Loaded)
  assume "0 \<le> cfg_ReplicationFactor cfg"
  then have q: "cfg_QuorumSize cfg = cfg_ReplicationFactor cfg div 2 + 1" using quo by (simp add: go_div_nonneg)
  then show "cfg_ReplicationFactor cfg < 2 * cfg_QuorumSize cfg" by presburger
  show "cfg_QuorumSize cfg \<le> cfg_ReplicationFactor cfg + 1" using q \<open>0 \<le> cfg_ReplicationFactor cfg\<close> by presburger
next
  show "(\<exists>m. Load env = Fatal m) \<longleftrightarrow> hex_DecodeString (getEnv env ''ENCRYPTION_KEY'' default_key) = None \<or>
      length (getEnv env ''ENCRYPTION_KEY'' default_key) \<noteq> 64"
    using length_hex_DecodeString [of "getEnv env ''ENCRYPTION_KEY'' default_key"]
    by (auto simp: Load_def Let_def split: option.split if_split sum.split)
qed

text \<open>
  A configuration that is written into the environment is read back: every key of 32 bytes
  written in hexadecimal, and every number below \<open>2^63\<close> written in decimal, is what \<open>Load\<close> returns
  (and so is a chunk size of 0).
\<close>

theorem Load_roundtrip:
  assumes "length k = 32" "jwt \<noteq> ''''" "pw \<noteq> ''''" "h < 2 ^ 63" "c < 2 ^ 63" "f < 2 ^ 63"
    and "env ''ENCRYPTION_KEY'' = Some (hex_EncodeToString k)" "env ''JWT_SECRET'' = Some jwt" "env ''DB_PASSWORD'' = Some pw"
      "env ''JWT_EXPIRY'' = Some (dec h)" "env ''CHUNK_SIZE_MB'' = Some (dec c)" "env ''REPLICATION_FACTOR'' = Some (dec f)"
  shows "\<exists>cfg. Load env = Loaded cfg \<and> cfg_EncryptionKey cfg = k \<and> cfg_JWTSecret cfg = jwt \<and> cfg_DBPassword cfg = pw \<and>
    cfg_JWTExpiryHours cfg = int h \<and> cfg_ChunkSizeMB cfg = int c \<and> cfg_ReplicationFactor cfg = int f"
  using assms by (simp add: Load_def getEnv_def hex_roundtrip Atoi_dec Let_def)

section \<open>Concrete instances\<close>

definition env_full :: "string \<rightharpoonup> string" where
  "env_full = [''ENCRYPTION_KEY'' \<mapsto> hex_EncodeToString (replicate 32 9), ''JWT_SECRET'' \<mapsto> ''j'', ''DB_PASSWORD'' \<mapsto> ''p'',
     ''JWT_EXPIRY'' \<mapsto> dec 72, ''CHUNK_SIZE_MB'' \<mapsto> dec 0, ''REPLICATION_FACTOR'' \<mapsto> dec 3]"

definition env_readme :: "string \<rightharpoonup> string" where
  "env_readme = [''ENCRYPTION_KEY'' \<mapsto> ''0123456789abcdef0123456789abcdef'']"

text \<open>The key that the README gives has 32 digits, and ends the process.\<close>

lemma Load_spec_witness: "\<exists>m. Load env_readme = Fatal m"
proof -
  have "length (getEnv env_readme ''ENCRYPTION_KEY'' default_key) \<noteq> 64" by (simp add: getEnv_def env_readme_def)
  with Load_spec [of env_readme] show ?thesis by blast
qed

lemma Load_roundtrip_witness: "\<exists>cfg. Load env_full = Loaded cfg \<and> cfg_ChunkSizeMB cfg = 0"
proof -
  have "env_full ''ENCRYPTION_KEY'' = Some (hex_EncodeToString (replicate 32 9))" "env_full ''JWT_SECRET'' = Some ''j''"
    "env_full ''DB_PASSWORD'' = Some ''p''" "env_full ''JWT_EXPIRY'' = Some (dec 72)" "env_full ''CHUNK_SIZE_MB'' = Some (dec 0)"
    "env_full ''REPLICATION_FACTOR'' = Some (dec 3)"
    by (simp_all add: env_full_def)
  from Load_roundtrip [OF _ _ _ _ _ _ this] show ?thesis by force
qed

end
