(* ===== verification/NodeAdmin.thy ===== *)
theory NodeAdmin imports ObjectStore Auth RingManager begin

text \<open>
  The list of storage nodes in the database: how a node gets into it (\<open>registerWithGateway\<close> of
  \<open>cmd/storagenode/main.go\<close>, the cluster secret, \<open>internal/api/node_handler.go\<close>) and how the health
  checker keeps its \<open>is_active\<close> column (\<open>internal/api/health_checker.go\<close>). The file shows that a successful
  registration makes the node active, and that after a round of the health checker the
  ring manager's fallback ring consists of the nodes that are alive.
\<close>

section \<open>Registration\<close>

definition node_Register :: "db_env \<Rightarrow> request \<Rightarrow> database \<Rightarrow> http_response \<times> database" where
  "node_Register env r db =
     (let w = new_response (clientGone r)
      in case decode_struct [''address''] (reqJson r) of
           None \<Rightarrow> (http_Error ''invalid request'' 400 w, db)
         | Some req \<Rightarrow>
             (let Address = map_get '''' req ''address''
              in if Address = '''' then (http_Error ''address is required'' 400 w, db)
                 else case RegisterNode env Address db of
                        (Some err, db) \<Rightarrow> (http_Error ''failed to register node'' 500 w, db)
                      | (None, db) \<Rightarrow> (WriteHeader 200 w, db)))"

text \<open>The route \<open>POST /nodes/register\<close>, behind the cluster secret.\<close>

definition nodes_register :: "db_env \<Rightarrow> string \<Rightarrow> request \<Rightarrow> database \<Rightarrow> http_response \<times> database" where
  "nodes_register env clusterSecret r db =
     (case RequireClusterSecret clusterSecret r of
        Inl w \<Rightarrow> (w, db)
      | Inr r \<Rightarrow> node_Register env r db)"

text \<open>
  The storage node's side: the request it makes, given to a function that answers it, and whether
  it reports success.
\<close>

record http_request =
  hq_url :: string
  hq_header :: "string \<Rightarrow> string"
  hq_json :: json_text

definition register_request :: "string \<Rightarrow> string \<Rightarrow> string \<Rightarrow> http_request" where
  "register_request gatewayURL nodeAddr clusterSecret =
     (let reqBody = Some (JObj [(''address'', json_string nodeAddr)])
      in \<lparr>hq_url = gatewayURL @ ''/nodes/register'',
          hq_header = (\<lambda>_. '''')(''Content-Type'' := ''application/json'', ''X-Cluster-Token'' := clusterSecret),
          hq_json = reqBody\<rparr>)"

definition registerWithGateway :: "(http_request \<Rightarrow> http_reply) \<Rightarrow> string \<Rightarrow> string \<Rightarrow> string \<Rightarrow> bool" where
  "registerWithGateway client_Do gatewayURL nodeAddr clusterSecret =
     (case client_Do (register_request gatewayURL nodeAddr clusterSecret) of
        HttpErr err \<Rightarrow> False
      | HttpReply st b \<Rightarrow> st = 200)"

text \<open>The gateway's view of such a request.\<close>

definition request_of :: "http_request \<Rightarrow> request" where
  "request_of q = \<lparr>userID = '''', pathValue = (\<lambda>_. ''''), reqHeader = hq_header q, reqBody = [], reqEnd = EndEOF,
     reqJson = hq_json q, clientGone = None\<rparr>"

section \<open>The health checker\<close>

text \<open>
  One round: a goroutine per node calls it and writes the result. The calls interleave under
  the schedule, and the updates come in any order.
\<close>

definition health_calls :: "Node list \<Rightarrow> call list" where
  "health_calls ns = map (\<lambda>n. (nd_Address n, ReqHealth)) ns"

definition health_update :: "db_env \<Rightarrow> Node list \<Rightarrow> phase list \<Rightarrow> nat \<Rightarrow> database \<Rightarrow> database" where
  "health_update env ns ps i db =
     (let isAlive = (\<not> is_err (result (ps ! i)))
      in snd (UpdateNodeStatus env (nd_Address (ns ! i)) isAlive db))"

definition health_round ::
  "net_env \<Rightarrow> db_env \<Rightarrow> (nat \<times> nat) list \<Rightarrow> nat list \<Rightarrow> gateway \<Rightarrow> gateway" where
  "health_round net env sched order gw =
     (let (ns, db) = GetAllNodes env (database_of_gw gw)
      in case ns of
           Inl err \<Rightarrow> gw\<lparr>database_of_gw := db\<rparr>
         | Inr ns \<Rightarrow>
             (let (ps, fin, c) = fan_out net (health_calls ns) sched (cluster_of_gw gw)
              in \<lparr>cluster_of_gw = c,
                  database_of_gw = fold (health_update env ns ps) (shuffle order [0..<length ns]) db\<rparr>))"

section \<open>Lemmas\<close>

lemma RegisterNode_active:
  assumes "RegisterNode env a db = (None, db')"
  shows "\<exists>n \<in> set (Database.nodes db'). nd_Address n = a \<and> nd_IsActive n"
  using assms
  by (auto simp: RegisterNode_def exec_stmt_def Let_def split: fault.splits if_splits sum.splits)
    (rule bexI [OF _ UnI1 [OF imageI]], auto)

lemma node_Register_200:
  assumes "node_Register env r db = (w, db')" "status_code w = 200"
  obtains req where "decode_struct [''address''] (reqJson r) = Some req"
    "RegisterNode env (map_get '''' req ''address'') db = (None, db')"
  using assms
  by (auto simp: node_Register_def Let_def split: option.splits if_splits prod.splits)

lemma decode_address:
  "decode_struct [''address''] (Some (JObj [(''address'', json_string a)])) = Some [''address'' \<mapsto> to_valid_utf8 a]"
proof -
  have "fold_name ''address'' = ''address''" by (simp add: fold_name.simps lower_def code_def)
  then show ?thesis by (simp add: decode_struct_def json_string_def)
qed

text \<open>What the updates of a round do: each row is set by the call to its address.\<close>

lemma UpdateNodeStatus_calm:
  fixes a :: address and b :: bool and db :: database
  assumes "db_calm env" "\<forall>s. text_ok env s"
  defines "ns \<equiv> Database.nodes (snd (UpdateNodeStatus env a b db))"
  shows "map nd_Address ns = map nd_Address (Database.nodes db)" "map nd_ID ns = map nd_ID (Database.nodes db)"
    "j < length (Database.nodes db) \<Longrightarrow> nd_IsActive (ns ! j) =
       (if nd_Address (Database.nodes db ! j) = a then b else nd_IsActive (Database.nodes db ! j))"
  using assms by (auto simp: UpdateNodeStatus_def exec_stmt_def db_calm_def Let_def)

lemma updates_calm:
  assumes "db_calm env" "\<forall>s. text_ok env s"
  shows "let ns = Database.nodes (fold (\<lambda>a db. snd (UpdateNodeStatus env a (alive a) db)) as db)
    in map nd_Address ns = map nd_Address (Database.nodes db) \<and> map nd_ID ns = map nd_ID (Database.nodes db) \<and>
       (\<forall>j < length (Database.nodes db). nd_IsActive (ns ! j) =
          (if nd_Address (Database.nodes db ! j) \<in> set as then alive (nd_Address (Database.nodes db ! j))
           else nd_IsActive (Database.nodes db ! j)))"
proof (induction as arbitrary: db)
  case (Cons a as)
  let ?db = "snd (UpdateNodeStatus env a (alive a) db)"
  note U = UpdateNodeStatus_calm [OF assms, where a = a and b = "alive a" and db = db]
  have len: "length (Database.nodes ?db) = length (Database.nodes db)" by (metis U(1) length_map)
  have adr: "nd_Address (Database.nodes ?db ! j) = nd_Address (Database.nodes db ! j)"
    if "j < length (Database.nodes db)" for j
    using U(1) that len by (metis nth_map)
  show ?case using Cons.IH [of ?db] U len adr by (simp add: Let_def)
qed (simp add: Let_def)

lemma health_round_calm:
  fixes sched :: "(nat \<times> nat) list" and order :: "nat list"
  assumes "db_calm env" "\<forall>s. text_ok env s" "db_inv (database_of_gw gw)"
    and "net_calm net A" "cluster_calm (cluster_of_gw gw) A"
  defines "gw' \<equiv> health_round net env sched order gw"
  shows "map nd_Address (Database.nodes (database_of_gw gw')) = map nd_Address (Database.nodes (database_of_gw gw))"
    "map nd_ID (Database.nodes (database_of_gw gw')) = map nd_ID (Database.nodes (database_of_gw gw))"
    "n \<in> set (Database.nodes (database_of_gw gw')) \<Longrightarrow> nd_Address n \<in> A \<Longrightarrow> nd_IsActive n"
    "n \<in> set (Database.nodes (database_of_gw gw')) \<Longrightarrow> storage_nodes (cluster_of_gw gw) (nd_Address n) = None \<Longrightarrow>
       \<not> nd_IsActive n"
proof -
  let ?db = "database_of_gw gw" and ?k = "stmt_no (database_of_gw gw)"
  let ?ns = "shuffle (row_order env ?k) (Database.nodes ?db)" and ?db1 = "?db\<lparr>stmt_no := Suc ?k\<rparr>"
  obtain ps fin c where f: "fan_out net (health_calls ?ns) sched (cluster_of_gw gw) = (ps, fin, c)" by (metis prod_cases3)
  let ?is = "shuffle order [0..<length ?ns]"
  have get: "GetAllNodes env ?db = (Inr ?ns, ?db1)"
    using assms(1) by (simp add: GetAllNodes_def exec_stmt_def db_calm_def fetch_rows_def Let_def)
  have gw': "database_of_gw gw' = fold (health_update env ?ns ps) ?is ?db1"
    by (simp add: gw'_def health_round_def get f)
  have "distinct (map nd_Address (Database.nodes ?db))" using assms(3) by (simp add: db_inv_def nodes_inv_def)
  then have dist: "distinct (map nd_Address ?ns)" by (metis mset_map mset_shuffle mset_eq_imp_distinct_iff)
  define alive where "alive a \<longleftrightarrow> (\<exists>i < length ?ns. nd_Address (?ns ! i) = a \<and> \<not> is_err (result (ps ! i)))" for a
  have alive: "alive (nd_Address (?ns ! i)) \<longleftrightarrow> \<not> is_err (result (ps ! i))" if "i < length ?ns" for i
  proof -
    have "j = i" if "j < length ?ns" "nd_Address (?ns ! j) = nd_Address (?ns ! i)" for j
      using nth_eq_iff_index_eq [OF dist, of j i] that \<open>i < length ?ns\<close> by simp
    with that show ?thesis unfolding alive_def by blast
  qed
  have "fold (health_update env ?ns ps) is db = fold (\<lambda>a db. snd (UpdateNodeStatus env a (alive a) db)) (map (\<lambda>i. nd_Address (?ns ! i)) is) db"
    if "set is \<subseteq> {0..<length ?ns}" for "is" db
    using that by (induction "is" arbitrary: db) (simp_all add: health_update_def alive)
  then have "database_of_gw gw' = fold (\<lambda>a db. snd (UpdateNodeStatus env a (alive a) db)) (map (\<lambda>i. nd_Address (?ns ! i)) ?is) ?db1"
    by (simp add: gw')
  note U = updates_calm [OF assms(1,2), of alive "map (\<lambda>i. nd_Address (?ns ! i)) ?is" ?db1, folded this, unfolded Let_def]
  from U show adr: "map nd_Address (Database.nodes (database_of_gw gw')) = map nd_Address (Database.nodes ?db)"
    "map nd_ID (Database.nodes (database_of_gw gw')) = map nd_ID (Database.nodes ?db)" by simp_all
  have all: "nd_Address n \<in> set (map (\<lambda>i. nd_Address (?ns ! i)) ?is)" if "n \<in> set (Database.nodes ?db)" for n
  proof -
    have "n \<in> set ?ns" using that by simp
    then obtain i where "i < length ?ns" "?ns ! i = n" by (meson in_set_conv_nth)
    then show ?thesis by force
  qed
  have act: "nd_IsActive n = alive (nd_Address n) \<and> (\<exists>i < length ?ns. nd_Address (?ns ! i) = nd_Address n)"
    if n: "n \<in> set (Database.nodes (database_of_gw gw'))" for n
  proof -
    obtain j where j: "j < length (Database.nodes (database_of_gw gw'))" "n = Database.nodes (database_of_gw gw') ! j"
      using n by (metis in_set_conv_nth)
    have len: "length (Database.nodes (database_of_gw gw')) = length (Database.nodes ?db)" using adr(1) by (metis length_map)
    let ?m = "Database.nodes ?db ! j"
    have m: "?m \<in> set (Database.nodes ?db)" "nd_Address n = nd_Address ?m"
      using j len adr(1) by (simp_all, metis nth_map)
    with U j len all [OF m(1)] have "nd_IsActive n = alive (nd_Address ?m)" by simp
    moreover have "?m \<in> set ?ns" using m(1) by simp
    ultimately show ?thesis using m(2) by (metis in_set_conv_nth)
  qed
  have calls: "length (health_calls ?ns) = length ?ns" "sure_calls (health_calls ?ns)"
    "i < length ?ns \<Longrightarrow> fst (health_calls ?ns ! i) = nd_Address (?ns ! i)" for i
    by (auto simp: health_calls_def sure_calls_def)
  show "n \<in> set (Database.nodes (database_of_gw gw')) \<Longrightarrow> nd_Address n \<in> A \<Longrightarrow> nd_IsActive n"
    using act [of n] alive fan_out_calm(1) [OF assms(4) calls(2) assms(5) f] calls(1,3) by metis
  show "n \<in> set (Database.nodes (database_of_gw gw')) \<Longrightarrow> storage_nodes (cluster_of_gw gw) (nd_Address n) = None \<Longrightarrow>
      \<not> nd_IsActive n"
    using act [of n] alive fan_out_down [OF f] calls(1,3) by metis
qed

section \<open>Properties\<close>

text \<open>
  What a storage node achieves by registering. When \<open>registerWithGateway\<close> reports success
  at a gateway, the two have the same, non-empty cluster secret, and the node is in the gateway's
  list, active. Without the secret nothing in the database changes.
\<close>

theorem register_activates:
  assumes "registerWithGateway (\<lambda>q. reply_of (fst (nodes_register env secret (request_of q) db))) url a secret'"
    and "to_valid_utf8 a = a"
  defines "db' \<equiv> snd (nodes_register env secret (request_of (register_request url a secret')) db)"
  shows "secret' = secret \<and> secret \<noteq> '''' \<and>
    (\<exists>n \<in> set (Database.nodes db'). nd_Address n = a \<and> nd_IsActive n) \<and>
    (\<forall>r. reqHeader r ''X-Cluster-Token'' \<noteq> secret \<longrightarrow> snd (nodes_register env secret r db) = db)"
proof -
  let ?r = "request_of (register_request url a secret')"
  obtain w where w: "nodes_register env secret ?r db = (w, db')" unfolding db'_def by (metis prod.collapse)
  with assms(1) have st: "status_code w = 200" by (simp add: registerWithGateway_def reply_of_def)
  have r: "reqHeader ?r ''X-Cluster-Token'' = secret'" "decode_struct [''address''] (reqJson ?r) = Some [''address'' \<mapsto> a]"
    using decode_address [of a] assms(2) by (simp_all add: request_of_def register_request_def)
  have sec: "secret' = secret" "secret \<noteq> ''''" "node_Register env ?r db = (w, db')"
    using w st r(1) by (auto simp: nodes_register_def RequireClusterSecret_def Let_def split: if_splits)
  from node_Register_200 [OF sec(3) st] r(2) have "RegisterNode env a db = (None, db')" by fastforce
  from RegisterNode_active [OF this] have "\<exists>n \<in> set (Database.nodes db'). nd_Address n = a \<and> nd_IsActive n" .
  moreover have "snd (nodes_register env secret r db) = db" if "reqHeader r ''X-Cluster-Token'' \<noteq> secret" for r
    using that by (simp add: nodes_register_def RequireClusterSecret_def Let_def)
  ultimately show ?thesis using sec(1,2) by blast
qed

text \<open>
  The health checker finds out who is alive, under every schedule of its calls and every order
  of its updates. If the database answers and every registered node either works or is down, then
  after one round \<open>is_active\<close> holds for exactly those that work, the list has the same nodes as before,
  and a round of the ring manager that cannot reach raft builds the ring of exactly those.
\<close>

theorem health_round_fallback:
  fixes sched :: "(nat \<times> nat) list" and order :: "nat list"
  assumes "db_calm env" "\<forall>s. text_ok env s" "db_inv (database_of_gw gw)"
    and "net_calm net A" "cluster_calm (cluster_of_gw gw) A"
    and "\<forall>n \<in> set (Database.nodes (database_of_gw gw)).
      nd_Address n \<in> A \<or> storage_nodes (cluster_of_gw gw) (nd_Address n) = None"
    and "fetchRaftClusterState raftAPI (ClusterSecret rm) = Inl err"
  defines "gw' \<equiv> health_round net env sched order gw"
  shows "map nd_Address (Database.nodes (database_of_gw gw')) = map nd_Address (Database.nodes (database_of_gw gw)) \<and>
    (\<forall>n \<in> set (Database.nodes (database_of_gw gw')). nd_IsActive n \<longleftrightarrow> nd_Address n \<in> A) \<and>
    dom (nodesMap (rm_Ring (fst (sync_step raftAPI env (rm, database_of_gw gw'))))) =
      nd_Address ` set (Database.nodes (database_of_gw gw)) \<inter> A"
proof -
  note H = health_round_calm [OF assms(1-5), where sched = sched and order = order, folded gw'_def]
  have live: "storage_nodes (cluster_of_gw gw) a \<noteq> None" if "a \<in> A" for a
    using assms(5) that by (auto simp: cluster_calm_def node_live_def)
  have addrs: "nd_Address ` set (Database.nodes (database_of_gw gw')) = nd_Address ` set (Database.nodes (database_of_gw gw))"
    using H(1) by (metis list.set_map)
  have act: "nd_IsActive n \<longleftrightarrow> nd_Address n \<in> A" if n: "n \<in> set (Database.nodes (database_of_gw gw'))" for n
  proof -
    have "nd_Address n \<in> nd_Address ` set (Database.nodes (database_of_gw gw))" using addrs n by blast
    then have "nd_Address n \<in> A \<or> storage_nodes (cluster_of_gw gw) (nd_Address n) = None" using assms(6) by auto
    then show ?thesis using H(3) [OF n] H(4) [OF n] live [of "nd_Address n"] by argo
  qed
  let ?db = "database_of_gw gw'"
  have "GetAllNodes env ?db = (Inr (shuffle (row_order env (stmt_no ?db)) (Database.nodes ?db)), ?db\<lparr>stmt_no := Suc (stmt_no ?db)\<rparr>)"
    using assms(1) by (simp add: GetAllNodes_def exec_stmt_def db_calm_def fetch_rows_def Let_def)
  then have "dom (nodesMap (rm_Ring (fst (sync_step raftAPI env (rm, ?db))))) =
      nd_Address ` {n \<in> set (Database.nodes ?db). nd_IsActive n}"
    by (simp add: sync_step_def sync_nodes_def assms(7) rebuild_eq)
  also have "\<dots> = nd_Address ` set (Database.nodes ?db) \<inter> A" using act by auto
  finally show ?thesis using H(1) addrs act by simp
qed

section \<open>Concrete instances\<close>

definition gw_health :: gateway where
  "gw_health = gw3\<lparr>database_of_gw := fold (db_run db_ok) [CallRegisterNode ''n1'', CallRegisterNode ''n3''] empty_db\<rparr>"

lemma register_activates_witness:
  "\<exists>n \<in> set (Database.nodes (snd (nodes_register db_ok ''s'' (request_of (register_request ''http://g'' ''n1'' ''s'')) empty_db))).
     nd_Address n = ''n1'' \<and> nd_IsActive n"
proof -
  let ?r = "request_of (register_request ''http://g'' ''n1'' ''s'')"
  have "RegisterNode db_ok ''n1'' empty_db = (None, snd (RegisterNode db_ok ''n1'' empty_db))"
    by (simp add: RegisterNode_def db_eval empty_db_def)
  then have "node_Register db_ok ?r empty_db = (WriteHeader 200 (new_response None), snd (RegisterNode db_ok ''n1'' empty_db))"
    by (cases "RegisterNode db_ok ''n1'' empty_db")
      (simp add: node_Register_def request_of_def register_request_def decode_address utf8_n1)
  moreover have "RequireClusterSecret ''s'' ?r = Inr ?r"
    by (simp add: RequireClusterSecret_def request_of_def register_request_def Let_def)
  ultimately have "registerWithGateway (\<lambda>q. reply_of (fst (nodes_register db_ok ''s'' (request_of q) empty_db))) ''http://g'' ''n1'' ''s''"
    by (simp add: registerWithGateway_def nodes_register_def reply_of_def)
  from register_activates [OF this utf8_n1] show ?thesis by blast
qed

lemma health_round_fallback_witness:
  "dom (nodesMap (rm_Ring (fst (sync_step (\<lambda>r. HttpErr conn_err) db_ok
      (NewRingManager 50 ''s'' 1, database_of_gw (health_round net_ok db_ok [(1, 3)] [1, 0] gw_health)))))) = {''n1''}"
proof -
  have inv: "db_inv (database_of_gw gw_health)"
    using inv_db_runs [of db_ok "[CallRegisterNode ''n1'', CallRegisterNode ''n3'']"] by (simp add: gw_health_def)
  have ns: "nd_Address ` set (Database.nodes (database_of_gw gw_health)) = {''n1'', ''n3''}"
    by (simp add: gw_health_def RegisterNode_def db_eval empty_db_def)
  have c: "cluster_calm (cluster_of_gw gw_health) {''n1'', ''n2''}" "storage_nodes (cluster_of_gw gw_health) ''n3'' = None"
    using net_live_three(2) domIff [of "''n3''" "storage_nodes (cluster_of_gw gw3)"] net_live_three(3)
    by (simp_all add: gw_health_def)
  have "\<forall>n \<in> set (Database.nodes (database_of_gw gw_health)).
      nd_Address n \<in> {''n1'', ''n2''} \<or> storage_nodes (cluster_of_gw gw_health) (nd_Address n) = None"
  proof
    fix n
    assume "n \<in> set (Database.nodes (database_of_gw gw_health))"
    then have "nd_Address n \<in> {''n1'', ''n3''}" using ns by blast
    then show "nd_Address n \<in> {''n1'', ''n2''} \<or> storage_nodes (cluster_of_gw gw_health) (nd_Address n) = None"
      using c(2) by auto
  qed
  with health_round_fallback [of db_ok gw_health net_ok "{''n1'', ''n2''}" "\<lambda>r. HttpErr conn_err" "NewRingManager 50 ''s'' 1"
      conn_err "[(1, 3)]" "[1, 0]"] inv c(1) net_live_three(1) ns
  show ?thesis by (auto simp: env3_simps fetchRaftClusterState_def)
qed

end
