(* ===== verification/Tenants.thy ===== *)
theory Tenants imports ObjectHandler begin

text \<open>
  Separation of the objects: what the metadata of the objects of one kind are, such as those of one user, and that
  requests that have nothing to do with them leave them as they are, statement by statement,
  whatever the faults of the database.
\<close>

section \<open>The objects of one kind\<close>

type_synonym rows = "(Object \<times> (chunk_row \<times> address list) list) list"

definition view :: "(Object \<Rightarrow> bool) \<Rightarrow> database \<Rightarrow> rows" where
  "view Q db =
     map (\<lambda>x. (x, map (\<lambda>c. (c, locations_of db (ch_ID c))) (filter (\<lambda>c. ch_ObjectID c = obj_ID x) (chunks db))))
       (filter Q (objects db))"

lemma view_frame [simp]:
  "view Q (db\<lparr>users := us\<rparr>) = view Q db"
  "view Q (db\<lparr>multipart_uploads := mus\<rparr>) = view Q db"
  "view Q (db\<lparr>multipart_chunks := mcs\<rparr>) = view Q db"
  "view Q (db\<lparr>multipart_chunk_locations := mls\<rparr>) = view Q db"
  "view Q (db\<lparr>nodes := ns\<rparr>) = view Q db"
  "view Q (db\<lparr>stmt_no := k\<rparr>) = view Q db"
  by (simp_all add: view_def locations_of_def)

lemma view_objects: "fst ` set (view Q db) = {x \<in> set (objects db). Q x}"
  by (force simp: view_def)

lemma view_tables: "same_tables db db' \<Longrightarrow> view Q db' = view Q db"
  by (simp add: view_def locations_of_def tables_eq)

lemma view_eq:
  assumes "filter Q (objects db') = filter Q (objects db)"
    and "\<And>x. x \<in> set (objects db) \<Longrightarrow> Q x \<Longrightarrow>
      filter (\<lambda>c. ch_ObjectID c = obj_ID x) (chunks db') = filter (\<lambda>c. ch_ObjectID c = obj_ID x) (chunks db)"
    and "\<And>x c. x \<in> set (objects db) \<Longrightarrow> Q x \<Longrightarrow> c \<in> set (chunks db) \<Longrightarrow> ch_ObjectID c = obj_ID x \<Longrightarrow>
      locations_of db' (ch_ID c) = locations_of db (ch_ID c)"
  shows "view Q db' = view Q db"
  unfolding view_def assms(1) by (rule map_cong [OF refl]) (auto simp: assms(2,3))

text \<open>What a statement must keep, and that reads do.\<close>

definition sees :: "(Object \<Rightarrow> bool) \<Rightarrow> rows \<Rightarrow> database \<Rightarrow> bool" where
  "sees Q V db \<longleftrightarrow> view Q db = V"

lemma on_tables_sees: "on_tables (sees Q V)"
  by (simp add: on_tables_def sees_def)

text \<open>An object that is not of the kind.\<close>

definition strange :: "(Object \<Rightarrow> bool) \<Rightarrow> uuid \<Rightarrow> database \<Rightarrow> bool" where
  "strange Q i db \<longleftrightarrow> (\<forall>x \<in> set (objects db). obj_ID x = i \<longrightarrow> \<not> Q x)"

lemma strange_frame [simp]: "strange Q i (db\<lparr>stmt_no := k\<rparr>) = strange Q i db"
  by (simp add: strange_def)

text \<open>
  A user whose new objects are not of the kind, as long as the kind has the rows \<open>V\<close>: another user, for the
  objects of one; and every user, for an object that exists.
\<close>

definition foreign :: "(Object \<Rightarrow> bool) \<Rightarrow> rows \<Rightarrow> db_env \<Rightarrow> string \<Rightarrow> bool" where
  "foreign Q V env u \<longleftrightarrow> (\<forall>n c s k db newID db'. view Q db = V \<longrightarrow>
     insert_object env u n c s k db = Inr (newID, db') \<longrightarrow> strange Q newID db')"

abbreviation tenant_view :: "uuid \<Rightarrow> database \<Rightarrow> rows" where
  "tenant_view v \<equiv> view (\<lambda>x. obj_UserID x = v)"

abbreviation object_view :: "uuid \<Rightarrow> database \<Rightarrow> rows" where
  "object_view i \<equiv> view (\<lambda>x. obj_ID x = i)"

lemma insert_object_ok:
  assumes "insert_object env u n c s k db = Inr (newID, db')"
  shows "newID \<notin> obj_ID ` set (objects db) \<and> newID = gen_uuid env k 0 \<and> (\<exists>x. obj_ID x = newID \<and>
    uuid_in env u = Some (obj_UserID x) \<and> db' = db\<lparr>objects := objects db @ [x]\<rparr>)"
proof -
  have "newID \<notin> obj_ID ` set (objects db)" "newID = gen_uuid env k 0"
    and "\<exists>w. uuid_in env u = Some w \<and> db' = db\<lparr>objects := objects db @ [\<lparr>obj_ID = newID, obj_UserID = w, obj_Name = n,
      obj_SizeBytes = s, obj_ContentType = c, obj_CreatedAt = db_now env k\<rparr>]\<rparr>"
    using assms by (auto simp: insert_object_def Let_def split: option.splits if_splits)
  moreover from this(3) obtain w where "uuid_in env u = Some w" "db' = db\<lparr>objects := objects db @ [\<lparr>obj_ID = newID,
      obj_UserID = w, obj_Name = n, obj_SizeBytes = s, obj_ContentType = c, obj_CreatedAt = db_now env k\<rparr>]\<rparr>" by blast
  ultimately show ?thesis
    by (intro conjI exI [of _ "\<lparr>obj_ID = newID, obj_UserID = w, obj_Name = n, obj_SizeBytes = s, obj_ContentType = c,
      obj_CreatedAt = db_now env k\<rparr>"]) simp_all
qed

lemma foreign_user: "uuid_in env u \<noteq> Some v \<Longrightarrow> foreign (\<lambda>x. obj_UserID x = v) V env u"
  by (auto simp: foreign_def strange_def dest!: insert_object_ok) (metis imageI)

lemma foreign_object:
  assumes "V \<noteq> []"
  shows "foreign (\<lambda>x. obj_ID x = i) V env u"
  unfolding foreign_def strange_def
proof (intro allI impI ballI)
  fix n c s k db newID db' x
  assume "object_view i db = V" and ins: "insert_object env u n c s k db = Inr (newID, db')" and x: "obj_ID x = newID"
  with assms have "i \<in> obj_ID ` set (objects db)" by (auto simp: view_def filter_empty_conv)
  with insert_object_ok [OF ins] x show "obj_ID x \<noteq> i" by auto
qed

section \<open>The statements\<close>

lemma insert_object_sees:
  assumes "insert_object env u n c s k db = Inr (newID, db')" "foreign Q V env u" "view Q db = V"
  shows "view Q db' = V" "strange Q newID db'"
proof -
  obtain x where x: "obj_ID x = newID" "db' = db\<lparr>objects := objects db @ [x]\<rparr>"
    using insert_object_ok [OF assms(1)] by blast
  show str: "strange Q newID db'" using assms by (auto simp: foreign_def)
  then have "\<not> Q x" using x by (simp add: strange_def)
  then have "view Q db' = view Q db" by (intro view_eq) (simp_all add: x(2) locations_of_def)
  with assms(3) show "view Q db' = V" by simp
qed

lemma insert_chunk_sees:
  assumes "insert_chunk env r x h s k db = Inr (newID, db')" "uuid_in env r = Some i" "strange Q i db"
  shows "view Q db' = view Q db" "strange Q i db'"
    "\<forall>c \<in> set (chunks db'). ch_ID c = newID \<longrightarrow> ch_ObjectID c = i"
proof -
  have n: "newID \<notin> ch_ID ` set (chunks db)" "db' = db\<lparr>chunks := chunks db @
       [\<lparr>ch_ID = newID, ch_ObjectID = i, ch_ChunkIndex = x, ch_Hash = h, ch_SizeBytes = s\<rparr>]\<rparr>"
    using assms(1,2) by (auto simp: insert_chunk_def Let_def split: if_splits)
  show "view Q db' = view Q db"
    using assms(3) by (intro view_eq) (auto simp: n(2) locations_of_def strange_def)
  show "strange Q i db'" using assms(3) by (simp add: n(2) strange_def)
  show "\<forall>c \<in> set (chunks db'). ch_ID c = newID \<longrightarrow> ch_ObjectID c = i" using n by auto
qed

definition located_safely :: "db_env \<Rightarrow> (Object \<Rightarrow> bool) \<Rightarrow> uuid \<Rightarrow> string \<Rightarrow> database \<Rightarrow> bool" where
  "located_safely env Q i cid db \<longleftrightarrow> strange Q i db \<and>
     (\<forall>j. uuid_in env cid = Some j \<longrightarrow> (\<forall>c \<in> set (chunks db). ch_ID c = j \<longrightarrow> ch_ObjectID c = i))"

lemma insert_location_sees:
  "keeps (\<lambda>db. sees Q V db \<and> located_safely env Q i cid db) (insert_location env cid n)"
  unfolding keeps_def
proof (intro allI impI)
  fix k db w db'
  assume P: "sees Q V db \<and> located_safely env Q i cid db" and f: "insert_location env cid n k db = Inr (w, db')"
  then obtain j where j: "uuid_in env cid = Some j" "db' = db\<lparr>chunk_locations := chunk_locations db @ [(j, n)]\<rparr>"
    by (auto simp: insert_location_def split: option.splits if_splits)
  have "view Q db' = view Q db"
  proof (rule view_eq)
    fix x c
    assume "x \<in> set (objects db)" "Q x" "c \<in> set (chunks db)" "ch_ObjectID c = obj_ID x"
    then have "ch_ID c \<noteq> j" using P j(1) by (auto simp: located_safely_def strange_def)
    then show "locations_of db' (ch_ID c) = locations_of db (ch_ID c)" by (simp add: locations_of_def j(2))
  qed (simp_all add: j(2))
  with P show "sees Q V db' \<and> located_safely env Q i cid db'"
    by (simp add: sees_def located_safely_def strange_def j(2))
qed

lemma insert_locations_sees:
  "sees Q V db \<and> located_safely env Q i cid db \<Longrightarrow>
   sees Q V (snd (insert_locations env cid ns db)) \<and> located_safely env Q i cid (snd (insert_locations env cid ns db))"
proof (induction ns arbitrary: db)
  case (Cons n ns)
  have "on_tables (\<lambda>db. sees Q V db \<and> located_safely env Q i cid db)"
    by (simp add: on_tables_def sees_def located_safely_def strange_def)
  note step = tx_stmt_keeps [OF insert_location_sees this Cons.prems, of env n]
  obtain res db1 where t: "tx_stmt env (insert_location env cid n) db = (res, db1)" by fastforce
  show ?case
  proof (cases res)
    case (Inl e)
    with step t show ?thesis by simp
  next
    case (Inr u)
    with step t Cons.IH [of db1] show ?thesis by simp
  qed
qed simp

lemma CreateChunk_sees:
  assumes "uuid_in env r = Some i" "uuids_ok env" "sees Q V db \<and> strange Q i db"
  shows "sees Q V (snd (CreateChunk env r x h s ns db)) \<and> strange Q i (snd (CreateChunk env r x h s ns db))"
  unfolding CreateChunk_def
proof (rule transaction_keeps [where P = "\<lambda>db. sees Q V db \<and> strange Q i db", OF _ _ assms(3)])
  show "on_tables (\<lambda>db. sees Q V db \<and> strange Q i db)" by (simp add: on_tables_def sees_def)
  fix db assume P: "sees Q V db \<and> strange Q i db"
  show "sees Q V (snd (case tx_stmt env (insert_chunk env r x h s) db of
         (Inl err, db) \<Rightarrow> (Inl (Wrapf ''create chunk'' err), db)
       | (Inr chunkID, db) \<Rightarrow> insert_locations env chunkID ns db)) \<and>
     strange Q i (snd (case tx_stmt env (insert_chunk env r x h s) db of
         (Inl err, db) \<Rightarrow> (Inl (Wrapf ''create chunk'' err), db)
       | (Inr chunkID, db) \<Rightarrow> insert_locations env chunkID ns db))"
  proof (cases "tx_stmt env (insert_chunk env r x h s) db")
    case (Pair res db1)
    show ?thesis
    proof (cases res)
      case (Inl e)
      with Pair P show ?thesis by (auto simp: tx_stmt_def sees_def Let_def split: if_splits sum.splits)
    next
      case (Inr newID)
      with Pair have ins: "insert_chunk env r x h s (stmt_no db) (db\<lparr>stmt_no := Suc (stmt_no db)\<rparr>) = Inr (newID, db1)"
        by (simp add: tx_stmt_ok)
      from insert_chunk_sees [OF this assms(1), of Q] P have "sees Q V db1" "strange Q i db1"
        "\<forall>c \<in> set (chunks db1). ch_ID c = newID \<longrightarrow> ch_ObjectID c = i" by (simp_all add: sees_def)
      moreover have "newID = gen_uuid env (stmt_no db) 0"
        using ins by (auto simp: insert_chunk_def Let_def split: option.splits if_splits)
      then have "uuid_in env newID = Some newID" using assms(2) by (simp add: uuids_ok_def)
      ultimately have "sees Q V db1 \<and> located_safely env Q i newID db1" by (simp add: located_safely_def)
      from insert_locations_sees [OF this, of ns] Pair Inr show ?thesis by (simp add: located_safely_def)
    qed
  qed
qed

lemma store_chunks_sees:
  assumes "uuid_in env r = Some i" "uuids_ok env"
  shows "sees Q V db \<and> strange Q i db \<Longrightarrow> sees Q V (snd (store_chunks env r ms db))"
proof (induction ms arbitrary: db)
  case (Cons m ms)
  from CreateChunk_sees [OF assms Cons.prems, of "int (cm_index m)" "cm_hash m" "cm_size m" "cm_nodes m"] Cons.IH
  show ?case by (auto split: prod.split sum.split)
qed simp

lemma move_chunks_sees:
  assumes "move_chunks env o' u k db = Inr (w, db')" "uuid_in env o' = Some i" "strange Q i db"
  shows "view Q db' = view Q db"
proof -
  obtain j where m: "distinct (map ch_ID (chunks db @ moved_chunks env k db i j))"
    "db' = db\<lparr>chunks := chunks db @ moved_chunks env k db i j,
       chunk_locations := chunk_locations db @ moved_locations db j (moved_chunks env k db i j)\<rparr>"
    using assms(1,2) unfolding move_chunks_eq by auto
  show ?thesis
  proof (rule view_eq)
    fix x assume "x \<in> set (objects db)" "Q x"
    then have "obj_ID x \<noteq> i" using assms(3) by (auto simp: strange_def)
    then have "filter (\<lambda>c. ch_ObjectID c = obj_ID x) (moved_chunks env k db i j) = []"
      by (auto simp: moved_chunks_def filter_empty_conv)
    then show "filter (\<lambda>c. ch_ObjectID c = obj_ID x) (chunks db') = filter (\<lambda>c. ch_ObjectID c = obj_ID x) (chunks db)"
      by (simp add: m(2))
  next
    fix x c assume "c \<in> set (chunks db)"
    then have "ch_ID c \<notin> ch_ID ` set (moved_chunks env k db i j)" using m(1) by auto
    then have "fst l \<noteq> ch_ID c" if "l \<in> set (moved_locations db j (moved_chunks env k db i j))" for l
      using moved_locations_ids [of db j "moved_chunks env k db i j"] that by (metis imageI subsetD)
    then have "filter (\<lambda>l. fst l = ch_ID c) (moved_locations db j (moved_chunks env k db i j)) = []"
      by (simp add: filter_empty_conv)
    then show "locations_of db' (ch_ID c) = locations_of db (ch_ID c)" by (simp add: locations_of_def m(2))
  qed (simp add: m(2))
qed

lemma delete_upload_sees: "keeps (sees Q V) (delete_upload env u)"
  by (auto simp: keeps_def sees_def delete_upload_def split: option.splits)

lemma CompleteMultipartUpload_sees:
  assumes "foreign Q V env u" "uuids_ok env"
  shows "sees Q V db \<Longrightarrow> sees Q V (snd (CompleteMultipartUpload env i u db))"
  unfolding CompleteMultipartUpload_def
proof (rule transaction_keeps [OF _ on_tables_sees])
  have last: "sees Q V db1 \<Longrightarrow> sees Q V (snd (tx_then env (delete_upload env i) (\<lambda>_ db. (Inr newID, db)) db1))" for db1 newID
    by (rule tx_then_keeps [OF delete_upload_sees on_tables_sees]) simp_all
  have move: "sees Q V (snd (tx_then env (move_chunks env newID i) (\<lambda>_.
        tx_then env (delete_upload env i) (\<lambda>_ db. (Inr newID, db))) db1))"
    if db1: "sees Q V db1" "strange Q newID db1" "uuid_in env newID = Some newID" for db1 newID
  proof (rule tx_then_post [OF _ on_tables_sees db1(1)])
    fix k w db2
    assume "move_chunks env newID i k (db1\<lparr>stmt_no := Suc k\<rparr>) = Inr (w, db2)"
    from move_chunks_sees [OF this db1(3), of Q] db1(1,2) have "sees Q V db2" by (simp add: sees_def)
    then show "sees Q V (snd (tx_then env (delete_upload env i) (\<lambda>_ db. (Inr newID, db)) db2))" by (rule last)
  qed
  have insert: "sees Q V (snd (tx_then env (insert_object env u fn ct total) (\<lambda>newID.
        tx_then env (move_chunks env newID i) (\<lambda>_.
        tx_then env (delete_upload env i) (\<lambda>_ db. (Inr newID, db)))) db1))"
    if db1: "sees Q V db1" for db1 fn ct total
  proof (rule tx_then_post [OF _ on_tables_sees db1])
    fix k newID db2
    assume ins: "insert_object env u fn ct total k (db1\<lparr>stmt_no := Suc k\<rparr>) = Inr (newID, db2)"
    have "newID = gen_uuid env k 0"
      using ins by (auto simp: insert_object_def Let_def split: option.splits if_splits)
    then have "uuid_in env newID = Some newID" using assms(2) by (simp add: uuids_ok_def)
    with insert_object_sees [OF ins assms(1)] db1
    show "sees Q V (snd (tx_then env (move_chunks env newID i) (\<lambda>_.
        tx_then env (delete_upload env i) (\<lambda>_ db. (Inr newID, db))) db2))"
      by (intro move) (simp_all add: sees_def)
  qed
  show "sees Q V (snd (tx_then env (select_upload env i u) (\<lambda>(filename, contentType).
        tx_then env (select_sum env i) (\<lambda>totalSize.
        tx_then env (insert_object env u filename contentType totalSize) (\<lambda>newObjectID.
        tx_then env (move_chunks env newObjectID i) (\<lambda>_.
        tx_then env (delete_upload env i) (\<lambda>_ db. (Inr newObjectID, db)))))) db1))"
    if db1: "sees Q V db1" for db1
  proof (rule tx_then_keeps [OF keeps_reads(1) on_tables_sees _ db1])
    fix w :: "string \<times> string" and db2
    assume db2: "sees Q V db2"
    obtain fn ct where w: "w = (fn, ct)" by fastforce
    show "sees Q V (snd ((case w of (filename, contentType) \<Rightarrow>
        tx_then env (select_sum env i) (\<lambda>totalSize.
        tx_then env (insert_object env u filename contentType totalSize) (\<lambda>newObjectID.
        tx_then env (move_chunks env newObjectID i) (\<lambda>_.
        tx_then env (delete_upload env i) (\<lambda>_ db. (Inr newObjectID, db)))))) db2))"
      unfolding w prod.case
    proof (rule tx_then_keeps [where P = "sees Q V", OF keeps_reads(2) on_tables_sees _ db2])
      fix total and db3
      assume "sees Q V db3"
      then show "sees Q V (snd (tx_then env (insert_object env u fn ct total) (\<lambda>newObjectID.
          tx_then env (move_chunks env newObjectID i) (\<lambda>_.
          tx_then env (delete_upload env i) (\<lambda>_ db. (Inr newObjectID, db)))) db3))"
        by (rule insert)
    qed
  qed
qed

lemma delete_objects_sees:
  assumes "db_inv db" "\<forall>x \<in> set (objects db). Q x \<longrightarrow> \<not> (obj_ID x = i \<and> obj_UserID x = u)"
  shows "view Q (delete_objects (\<lambda>x. obj_ID x = i \<and> obj_UserID x = u) db) = view Q db"
proof -
  let ?P = "\<lambda>x. obj_ID x = i \<and> obj_UserID x = u"
  let ?gone = "obj_ID ` {x \<in> set (objects db). ?P x}"
  have dist: "distinct (map obj_ID (objects db))" "distinct (map ch_ID (chunks db))"
    using assms(1) by (simp_all add: db_inv_def objects_inv_def chunks_inv_def)
  have own: "obj_ID x \<notin> ?gone" if "x \<in> set (objects db)" "Q x" for x
    using dist(1) that assms(2) by (auto simp: distinct_map inj_on_def)
  show ?thesis
  proof (rule view_eq)
    show "filter Q (objects (delete_objects ?P db)) = filter Q (objects db)"
      using assms(2) by (auto simp: delete_objects_def Let_def intro!: filter_cong)
  next
    fix x assume x: "x \<in> set (objects db)" "Q x"
    show "filter (\<lambda>c. ch_ObjectID c = obj_ID x) (chunks (delete_objects ?P db)) = filter (\<lambda>c. ch_ObjectID c = obj_ID x) (chunks db)"
      using own [OF x] by (auto simp: delete_objects_def Let_def intro!: filter_cong)
  next
    fix x c assume x: "x \<in> set (objects db)" "Q x" and c: "c \<in> set (chunks db)" "ch_ObjectID c = obj_ID x"
    have "ch_ID c \<notin> ch_ID ` {c \<in> set (chunks db). ch_ObjectID c \<in> ?gone}"
      using dist(2) c own [OF x] by (auto simp: distinct_map inj_on_def)
    then show "locations_of (delete_objects ?P db) (ch_ID c) = locations_of db (ch_ID c)"
      by (auto simp: delete_objects_def Let_def locations_of_def intro!: arg_cong [where f = "map snd"] filter_cong)
  qed
qed

section \<open>The handlers\<close>

text \<open>Statements that do not touch objects, chunks and their locations.\<close>

definition aside :: "(nat \<Rightarrow> database \<Rightarrow> go_error + 'a \<times> database) \<Rightarrow> bool" where
  "aside f \<longleftrightarrow> (\<forall>k db w db'. f k db = Inr (w, db') \<longrightarrow>
     objects db' = objects db \<and> chunks db' = chunks db \<and> chunk_locations db' = chunk_locations db)"

lemma aside_keeps: "aside f \<Longrightarrow> keeps (sees Q V) f"
proof -
  assume f: "aside f"
  have "view Q db' = view Q db" if "f k db = Inr (w, db')" for k db w db'
    using f that by (simp add: aside_def view_def locations_of_def)
  then show ?thesis by (auto simp: keeps_def sees_def)
qed

lemmas aside_sees = exec_stmt_keeps [OF aside_keeps on_tables_sees]

lemma exec_sees: "aside f \<Longrightarrow> view Q (snd (exec_stmt env f db)) = view Q db"
  using aside_sees [of f Q "view Q db" db env] by (simp add: sees_def)

lemma reads_sees [simp]:
  "view Q (snd (GetObjectByID env i u db)) = view Q db"
  "view Q (snd (GetChunksByObjectID env i db)) = view Q db"
  "view Q (snd (ListObjects env u db)) = view Q db"
  "view Q (snd (GetUserByEmail env e db)) = view Q db"
proof -
  have "aside (\<lambda>k db. case (uuid_in env i, uuid_in env u) of
        (Some i, Some u) \<Rightarrow> (case filter (\<lambda>r. obj_ID r = i \<and> obj_UserID r = u) (objects db) of
           [] \<Rightarrow> Inl ErrNoRows | r # _ \<Rightarrow> Inr (r, db)) | _ \<Rightarrow> Inl bad_uuid)"
    by (auto simp: aside_def split: option.splits list.splits)
  from exec_sees [OF this, of Q env db] show "view Q (snd (GetObjectByID env i u db)) = view Q db"
    by (auto simp: GetObjectByID_def Let_def split_beta split: sum.split)
  have "aside (\<lambda>k db. case uuid_in env i of None \<Rightarrow> Inl bad_uuid | Some u \<Rightarrow>
      Inr (fetch_rows env k (sort_key ch_ChunkIndex (joined_chunks env k db (\<lambda>c. ch_ObjectID c = u))), db))"
    by (auto simp: aside_def split: option.splits)
  from exec_sees [OF this, of Q env db] show "view Q (snd (GetChunksByObjectID env i db)) = view Q db"
    by (auto simp: GetChunksByObjectID_def Let_def split_beta split: sum.split)
  have "aside (\<lambda>k db. case uuid_in env u of None \<Rightarrow> Inl bad_uuid | Some u \<Rightarrow>
      Inr (fetch_rows env k (sort_key (\<lambda>r. - obj_CreatedAt r)
        (shuffle (row_order env k) (filter (\<lambda>r. obj_UserID r = u) (objects db)))), db))"
    by (auto simp: aside_def split: option.splits)
  from exec_sees [OF this, of Q env db] show "view Q (snd (ListObjects env u db)) = view Q db"
    by (auto simp: ListObjects_def Let_def split_beta split: sum.split)
  have "aside (\<lambda>k db. if \<not> text_ok env e then Inl (violation ''invalid byte sequence'')
      else case filter (\<lambda>u. usr_Email u = e) (users db) of [] \<Rightarrow> Inl ErrNoRows | u # _ \<Rightarrow> Inr (u, db))"
    by (auto simp: aside_def split: list.splits)
  from exec_sees [OF this, of Q env db] show "view Q (snd (GetUserByEmail env e db)) = view Q db"
    by (auto simp: GetUserByEmail_def Let_def split_beta split: sum.split)
qed

lemma CreateMultipartUpload_sees [simp]:
  "view Q (snd (CreateMultipartUpload env u f c db)) = view Q db"
  unfolding CreateMultipartUpload_def
  by (rule exec_sees) (auto simp: aside_def Let_def split: option.splits if_splits)

lemma CreateMultipartChunk_sees [simp]:
  "view Q (snd (CreateMultipartChunk env i x h s ns db)) = view Q db"
proof -
  let ?P = "sees Q (view Q db)"
  have "aside (insert_mp_chunk env i x h s)"
    by (auto simp: aside_def insert_mp_chunk_def split: option.splits if_splits)
  note chunk = aside_keeps [OF this]
  have "aside (insert_mp_location env j y n)" for j y n
    by (auto simp: aside_def insert_mp_location_def split: option.splits if_splits)
  note loc = aside_keeps [OF this]
  have "?P (snd (CreateMultipartChunk env i x h s ns db))"
    unfolding CreateMultipartChunk_def
  proof (rule transaction_keeps [OF _ on_tables_sees])
    show "?P db1 \<Longrightarrow> ?P (snd (tx_then env (insert_mp_chunk env i x h s) (\<lambda>_. insert_mp_locations env i x ns) db1))" for db1
      by (rule tx_then_keeps [OF chunk on_tables_sees insert_mp_locations_keeps [OF loc on_tables_sees]])
  qed (simp add: sees_def)
  then show ?thesis by (simp add: sees_def)
qed

lemma CreateObject_sees:
  assumes "CreateObject env u n c s db = (res, db')" "foreign Q (view Q db) env u"
  shows "view Q db' = view Q db" "res = Inr i \<Longrightarrow> uuids_ok env \<Longrightarrow> uuid_in env i = Some i \<and> strange Q i db'"
proof -
  have "keeps (sees Q (view Q db)) (insert_object env u n c s)"
    using insert_object_sees(1) [OF _ assms(2)] by (auto simp: keeps_def sees_def)
  from exec_stmt_keeps [OF this on_tables_sees, of db env] assms(1)
  show "view Q db' = view Q db"
    by (auto simp: CreateObject_def sees_def Let_def split: prod.splits sum.splits)
  assume "res = Inr i" "uuids_ok env"
  with assms(1) have ins: "insert_object env u n c s (stmt_no db) (db\<lparr>stmt_no := Suc (stmt_no db)\<rparr>) = Inr (i, db')"
    by (auto simp: CreateObject_def exec_stmt_ok Let_def split: prod.splits sum.splits)
  then have "i = gen_uuid env (stmt_no db) 0"
    by (auto simp: insert_object_def Let_def split: option.splits if_splits)
  with insert_object_sees(2) [OF ins assms(2)] \<open>uuids_ok env\<close> show "uuid_in env i = Some i \<and> strange Q i db'"
    by (simp add: uuids_ok_def)
qed

lemma upload_metadata_sees:
  assumes "foreign Q (view Q db) (db_of env) (userID r)" "uuids_ok (db_of env)"
  shows "view Q (snd (upload_metadata env r ms w db)) = view Q db"
proof -
  obtain res db1 where c: "CreateObject (db_of env) (userID r) (upload_name r) (upload_type r) (sum_list (map cm_size ms)) db
      = (res, db1)" by fastforce
  note C = CreateObject_sees [OF c assms(1)]
  show ?thesis
  proof (cases res)
    case (Inl e)
    with c C(1) show ?thesis by (simp add: upload_metadata_def Let_def)
  next
    case (Inr i)
    with C assms(2) have "sees Q (view Q db) db1 \<and> strange Q i db1" "uuid_in (db_of env) i = Some i"
      by (auto simp: sees_def)
    from store_chunks_sees [OF this(2) assms(2) this(1), of ms] c Inr show ?thesis
      by (auto simp: upload_metadata_def Let_def sees_def split: prod.splits bool.splits)
  qed
qed

lemma Upload_sees:
  assumes "Upload env up h r gw = Some (out, gw')" "uuids_ok (db_of env)"
    and "foreign Q (view Q (database_of_gw gw)) (db_of env) (userID r)"
  shows "view Q (database_of_gw gw') = view Q (database_of_gw gw)"
proof -
  note meta = upload_metadata_sees [OF assms(3,2)]
  show ?thesis
    using assms(1) by (auto simp: Upload_def Let_def split_beta meta split: if_splits option.splits)
qed

text \<open>A deletion that is not of an object of the kind.\<close>

definition spares :: "rows \<Rightarrow> db_env \<Rightarrow> string \<Rightarrow> string \<Rightarrow> bool" where
  "spares V env i u \<longleftrightarrow> (\<forall>x \<in> fst ` set V. uuid_in env i \<noteq> Some (obj_ID x) \<or> uuid_in env u \<noteq> Some (obj_UserID x))"

lemma spares_user: "uuid_in env u \<noteq> Some v \<Longrightarrow> spares (tenant_view v db) env i u"
  by (auto simp: spares_def view_def)

lemma Delete_sees:
  assumes "spares (view Q (database_of_gw gw)) (db_of env) (pathValue r ''id'') (userID r)" "db_inv (database_of_gw gw)"
  shows "view Q (database_of_gw (snd (Delete env sched r gw))) = view Q (database_of_gw gw)"
proof -
  let ?V = "view Q (database_of_gw gw)" and ?i = "pathValue r ''id''"
  have del: "view Q (snd (DeleteObject (db_of env) ?i (userID r) db)) = ?V" if inv: "db_inv db" "view Q db = ?V" for db
  proof -
    let ?f = "\<lambda>k db. case (uuid_in (db_of env) ?i, uuid_in (db_of env) (userID r)) of
        (Some i, Some u) \<Rightarrow> (let P = (\<lambda>r. obj_ID r = i \<and> obj_UserID r = u)
           in Inr (length (filter P (objects db)), delete_objects P db))
      | _ \<Rightarrow> Inl bad_uuid"
    have "view Q (delete_objects (\<lambda>x. obj_ID x = j \<and> obj_UserID x = u) d) = ?V"
      if "db_inv d" "view Q d = ?V" "uuid_in (db_of env) ?i = Some j" "uuid_in (db_of env) (userID r) = Some u" for d j u
    proof -
      have "{x \<in> set (objects d). Q x} = {x \<in> set (objects (database_of_gw gw)). Q x}"
        using that(2) by (metis view_objects)
      then have "\<forall>x \<in> set (objects d). Q x \<longrightarrow> \<not> (obj_ID x = j \<and> obj_UserID x = u)"
        using assms(1) that(3,4) by (auto simp: spares_def view_objects)
      from delete_objects_sees [OF that(1) this] that(2) show ?thesis by simp
    qed
    then have "keeps (\<lambda>d. db_inv d \<and> sees Q ?V d) ?f"
      by (auto simp: keeps_def sees_def Let_def db_inv_delete_objects split: option.splits)
    from exec_stmt_keeps [OF this, of db "db_of env"] inv show ?thesis
      by (auto simp: DeleteObject_def Let_def split_beta sees_def on_tables_def split: sum.split)
  qed
  have "db_inv (snd (GetChunksByObjectID (db_of env) (pathValue r ''id'') (database_of_gw gw)))"
  proof -
    let ?f = "\<lambda>k db. case uuid_in (db_of env) (pathValue r ''id'') of None \<Rightarrow> Inl bad_uuid | Some u \<Rightarrow>
      Inr (fetch_rows (db_of env) k (sort_key ch_ChunkIndex (joined_chunks (db_of env) k db (\<lambda>c. ch_ObjectID c = u))), db)"
    have "keeps db_inv ?f" by (auto simp: keeps_def split: option.splits)
    from exec_inv [OF this assms(2), of "db_of env"] show ?thesis
      by (auto simp: GetChunksByObjectID_def Let_def split_beta split: sum.split)
  qed
  from del [OF this] show ?thesis
    by (auto simp: Delete_def Let_def split_beta split: sum.split option.split)
qed

lemma handlers_see:
  "view Q (database_of_gw (snd (Download env h r gw))) = view Q (database_of_gw gw)"
  "view Q (database_of_gw (snd (List env r gw))) = view Q (database_of_gw gw)"
  "view Q (database_of_gw (snd (InitMultipart env r gw))) = view Q (database_of_gw gw)"
  "view Q (database_of_gw (snd (UploadPart env sched rg rand h r gw))) = view Q (database_of_gw gw)"
  by (auto simp: Download_def List_def InitMultipart_def UploadPart_def Let_def split_beta
      split: sum.split option.split)

lemma CompleteMultipart_sees:
  assumes "foreign Q (view Q (database_of_gw gw)) (db_of env) (userID r)" "uuids_ok (db_of env)"
  shows "view Q (database_of_gw (snd (CompleteMultipart env r gw))) = view Q (database_of_gw gw)"
  using CompleteMultipartUpload_sees [OF assms, of "database_of_gw gw"]
  by (auto simp: CompleteMultipart_def Let_def split_beta sees_def split: sum.split)

end
