(* ===== verification/Deletion.thy ===== *)
theory Deletion imports ObjectStore begin

text \<open>
  What \<open>Delete\<close> does to the files on the storage nodes. A deleted object leaves nothing behind as long
  as the nodes work; but files are named by the hash of a chunk and shared between the
  objects that contain it, and nothing counts how many do.
\<close>

section \<open>The concurrent deletions\<close>

definition held :: "cluster \<Rightarrow> address \<Rightarrow> string \<Rightarrow> bool" where
  "held c a h \<longleftrightarrow> (\<exists>d. node_holds c a h d)"

lemma held_frame [simp]:
  "held (c\<lparr>now := t\<rparr>) = held c"
  "held (c\<lparr>breakers := b\<rparr>) = held c"
  by (simp_all add: held_def fun_eq_iff)

lemma node_DeleteChunk_held:
  assumes "chunk_at n h = Some d"
  shows "node_DeleteChunk io_ok h n = (Inr True, snd (node_DeleteChunk io_ok h n))"
    "chunk_at (snd (node_DeleteChunk io_ok h n)) h = None"
proof -
  show "node_DeleteChunk io_ok h n = (Inr True, snd (node_DeleteChunk io_ok h n))"
    using assms by (auto simp: chunk_at_def node_DeleteChunk_def os_Remove_def io_ok_def Let_def
        split: option.splits entry.splits)
  then show "chunk_at (snd (node_DeleteChunk io_ok h n)) h = None" by (rule node_DeleteChunk_gone)
qed

lemma client_operation_delete:
  assumes "net_calm net A" "a \<in> A" "held c a h"
  shows "\<not> is_err (fst (client_operation net a (ReqDelete h) c))"
    "\<not> held (snd (client_operation net a (ReqDelete h) c)) a h"
proof -
  obtain n d where n: "storage_nodes c a = Some n" "chunk_at n h = Some d"
    using assms(3) by (auto simp: held_def node_holds_def)
  note del = node_DeleteChunk_held [OF n(2)]
  have "storage_nodes (snd (client_operation net a (ReqDelete h) c)) a = Some (snd (node_DeleteChunk io_ok h n))"
    using assms(1,2) n(1)
    by (auto simp: client_operation_def getClient_def rpc_def net_calm_def Let_def split_beta)
  with del(2) show "\<not> held (snd (client_operation net a (ReqDelete h) c)) a h"
    by (simp add: held_def node_holds_def)
  show "\<not> is_err (fst (client_operation net a (ReqDelete h) c))"
    using client_operation_calm [OF assms(1,2) n(1), of "ReqDelete h"] arg_cong [OF del(1), of fst] by (simp add: split_beta)
qed

lemma held_call_step:
  assumes "plain_name g" "request_ok req" "b = a \<longrightarrow> \<not> changes req g"
  shows "held (snd (call_step net (a, req) (p, c))) b g = held c b g"
  using save_held_other [OF assms(1,2), of a b] assms(3) by (auto simp: held_def)

lemma call_step_delete:
  assumes "net_calm net A" "cluster_calm c A" "a \<in> A" "plain_name h" "phase_calm p"
    and "held c a h \<longleftrightarrow> \<not> answered p"
  shows "phase_calm (fst (call_step net (a, ReqDelete h) (p, c)))"
    "cluster_calm (snd (call_step net (a, ReqDelete h) (p, c))) A"
    "held (snd (call_step net (a, ReqDelete h) (p, c))) a h \<longleftrightarrow>
      \<not> answered (fst (call_step net (a, ReqDelete h) (p, c)))"
proof -
  have "phase_calm (fst (call_step net (a, ReqDelete h) (p, c))) \<and>
      cluster_calm (snd (call_step net (a, ReqDelete h) (p, c))) A \<and>
      (held (snd (call_step net (a, ReqDelete h) (p, c))) a h \<longleftrightarrow>
        \<not> answered (fst (call_step net (a, ReqDelete h) (p, c))))"
  proof (cases p)
    case Waiting
    with assms(2,3,6) show ?thesis
      by (auto simp: Let_def breaker_enter_eq cb_enter_def phase_calm_def answered_def cluster_calm_def)
  next
    case Sent
    then have "held c a h" using assms(6) by (simp add: answered_def)
    from client_operation_delete [OF assms(1,3) this] cluster_calm_operation [OF assms(2), of "ReqDelete h" net a]
    show ?thesis using Sent assms(4) by (auto simp: Let_def split_beta phase_calm_def answered_def)
  next
    case (Replied r)
    with assms(2,5,6) show ?thesis
      by (cases r) (auto simp: phase_calm_def answered_def cluster_calm_def breaker_leave_eq cb_leave_def)
  qed (use assms in simp)
  then show "phase_calm (fst (call_step net (a, ReqDelete h) (p, c)))"
    "cluster_calm (snd (call_step net (a, ReqDelete h) (p, c))) A"
    "held (snd (call_step net (a, ReqDelete h) (p, c))) a h \<longleftrightarrow>
      \<not> answered (fst (call_step net (a, ReqDelete h) (p, c)))" by blast+
qed

text \<open>
  Different deletions on working nodes: a file is there as long as its deletion has not been
  answered, and no deletion fails.
\<close>

definition deletions :: "address set \<Rightarrow> call list \<Rightarrow> bool" where
  "deletions A cs \<longleftrightarrow> distinct cs \<and> (\<forall>cl \<in> set cs. \<exists>a h. cl = (a, ReqDelete h) \<and> a \<in> A \<and> plain_name h)"

definition flight_deletes :: "call list \<Rightarrow> address set \<Rightarrow> flight \<Rightarrow> bool" where
  "flight_deletes cs A fl \<longleftrightarrow> (case fl of (ps, fin, c) \<Rightarrow> length ps = length cs \<and> cluster_calm c A \<and>
     (\<forall>j < length cs. \<forall>a h. cs ! j = (a, ReqDelete h) \<longrightarrow>
        phase_calm (ps ! j) \<and> (held c a h \<longleftrightarrow> \<not> answered (ps ! j))))"

lemma flight_deletes_step:
  assumes "net_calm net A" "deletions A cs" "flight_deletes cs A fl"
  shows "flight_deletes cs A (flight_step net cs it fl)"
proof -
  obtain j t ps fin c where [simp]: "it = (j, t)" "fl = (ps, fin, c)" by (cases it; cases fl)
  let ?c = "c\<lparr>now := now c + int t\<rparr>"
  from assms(3) have fl: "length ps = length cs" "cluster_calm ?c A"
    "\<And>i a h. i < length cs \<Longrightarrow> cs ! i = (a, ReqDelete h) \<Longrightarrow>
       phase_calm (ps ! i) \<and> (held ?c a h \<longleftrightarrow> \<not> answered (ps ! i))"
    by (simp_all add: flight_deletes_def)
  show ?thesis
  proof (cases "j < length cs")
    case True
    then obtain a h where cj: "cs ! j = (a, ReqDelete h)" "a \<in> A" "plain_name h"
      using assms(2) nth_mem [OF True] unfolding deletions_def by metis
    let ?pc = "call_step net (a, ReqDelete h) (ps ! j, ?c)"
    have pre: "phase_calm (ps ! j)" "held ?c a h \<longleftrightarrow> \<not> answered (ps ! j)" using fl(3) [OF True cj(1)] by blast+
    note S = call_step_delete [OF assms(1) fl(2) cj(2,3) pre]
    have "phase_calm (ps[j := fst ?pc] ! i) \<and> (held (snd ?pc) b g \<longleftrightarrow> \<not> answered (ps[j := fst ?pc] ! i))"
      if i: "i < length cs" "cs ! i = (b, ReqDelete g)" for i b g
    proof (cases "i = j")
      case True
      with S i cj(1) fl(1) show ?thesis by simp
    next
      case False
      then have "(b, g) \<noteq> (a, h)" using assms(2) i cj(1) \<open>j < length cs\<close>
        by (metis deletions_def nth_eq_iff_index_eq prod.inject)
      moreover have "plain_name g" using assms(2) i unfolding deletions_def by (metis nth_mem prod.inject node_request.inject(3))
      ultimately have "held (snd ?pc) b g = held ?c b g" using cj(3) by (intro held_call_step) auto
      with fl(3) [OF i] False show ?thesis by simp
    qed
    with S(2) fl(1) True show ?thesis by (simp add: flight_step_eq Let_def flight_deletes_def cj(1))
  qed (use assms(3) in \<open>simp add: flight_step_eq\<close>)
qed

lemma fan_out_deletes:
  assumes "fan_out net cs sched c = (ps, fin, c')" "net_calm net A" "deletions A cs" "cluster_calm c A"
    and "\<forall>a h. (a, ReqDelete h) \<in> set cs \<longrightarrow> held c a h" "(a, ReqDelete h) \<in> set cs"
  shows "\<not> held c' a h"
proof -
  have "flight_deletes cs A (fan_out net cs sched c)"
    unfolding fan_out_def
  proof (rule fold_invariant)
    show "flight_deletes cs A (replicate (length cs) Waiting, [], c)"
      using assms(4,5) nth_mem [of _ cs] by (auto simp: flight_deletes_def phase_calm_def answered_def) (metis nth_mem)
  qed (rule flight_deletes_step [OF assms(2,3)])
  moreover obtain j where j: "j < length cs" "cs ! j = (a, ReqDelete h)"
    using assms(6) by (metis in_set_conv_nth)
  ultimately have "phase_calm (ps ! j)" "held c' a h \<longleftrightarrow> \<not> answered (ps ! j)"
    using assms(1) by (simp_all add: flight_deletes_def)
  moreover have "finished (ps ! j)" using fan_out_finished(2) [OF assms(1) j(1)] .
  ultimately show ?thesis by (auto simp: phase_calm_def answered_def finished_def split: phase.splits)
qed

section \<open>What \<open>Delete\<close> leaves\<close>

lemma DeleteObject_ok:
  assumes "DeleteObject env i u db = (None, db')"
  shows "\<exists>ob \<in> set (objects db). uuid_in env i = Some (obj_ID ob) \<and> uuid_in env u = Some (obj_UserID ob) \<and>
    same_tables (delete_objects (\<lambda>x. obj_ID x = obj_ID ob \<and> obj_UserID x = obj_UserID ob) db) db'"
proof -
  let ?db = "db\<lparr>stmt_no := Suc (stmt_no db)\<rparr>"
  let ?P = "\<lambda>oid uid x. obj_ID x = oid \<and> obj_UserID x = uid"
  have del: "same_tables (delete_objects P db) (delete_objects P ?db)" for P
    by (simp add: delete_objects_def same_tables_def Let_def)
  obtain oid uid where o: "uuid_in env i = Some oid" "uuid_in env u = Some uid"
    "filter (?P oid uid) (objects db) \<noteq> []" "db' = delete_objects (?P oid uid) ?db"
    using assms unfolding DeleteObject_def Let_def
    by (auto simp: exec_stmt_ok split: prod.splits sum.splits option.splits if_splits)
  then obtain ob where "ob \<in> set (objects db)" "obj_ID ob = oid" "obj_UserID ob = uid"
    by (auto simp: filter_empty_conv)
  with o del [of "?P oid uid"] show ?thesis by (intro bexI [of _ ob]) simp_all
qed

lemma Delete_204:
  assumes "Delete env sched r gw = (w, gw')" "status_code w = 204"
  shows "\<exists>cs db1 ob. GetChunksByObjectID (db_of env) (pathValue r ''id'') (database_of_gw gw) = (Inr cs, db1) \<and>
    ob \<in> set (objects (database_of_gw gw)) \<and> uuid_in (db_of env) (pathValue r ''id'') = Some (obj_ID ob) \<and>
    uuid_in (db_of env) (userID r) = Some (obj_UserID ob) \<and>
    same_tables (delete_objects (\<lambda>x. obj_ID x = obj_ID ob \<and> obj_UserID x = obj_UserID ob) (database_of_gw gw))
      (database_of_gw gw') \<and>
    cluster_of_gw gw' = snd (snd (fan_out (net_of env) (delete_calls cs) sched (cluster_of_gw gw)))"
proof -
  obtain q db1 where g: "GetChunksByObjectID (db_of env) (pathValue r ''id'') (database_of_gw gw) = (q, db1)" by fastforce
  have err: "status_code (http_Error m s (new_response (clientGone r))) = s" for m s
    by (rule status_http_Error) simp
  obtain cs where cs: "q = Inr cs" using assms g err by (cases q) (auto simp: Delete_def Let_def)
  obtain e db2 where d: "DeleteObject (db_of env) (pathValue r ''id'') (userID r) db1 = (e, db2)" by fastforce
  have "e = None" using assms g cs d err by (cases e) (auto simp: Delete_def Let_def)
  with d have "DeleteObject (db_of env) (pathValue r ''id'') (userID r) db1 = (None, db2)" by simp
  from DeleteObject_ok [OF this] obtain ob where ob: "ob \<in> set (objects db1)"
    "uuid_in (db_of env) (pathValue r ''id'') = Some (obj_ID ob)" "uuid_in (db_of env) (userID r) = Some (obj_UserID ob)"
    "same_tables (delete_objects (\<lambda>x. obj_ID x = obj_ID ob \<and> obj_UserID x = obj_UserID ob) db1) db2" by blast
  have s: "same_tables (database_of_gw gw) db1" using GetChunksByObjectID_ok [of _ _ _ cs] g cs by blast
  have del: "same_tables (delete_objects P (database_of_gw gw)) (delete_objects P db1)" for P
    using tables_eq [OF s] s by (simp add: delete_objects_def same_tables_def Let_def)
  have "database_of_gw gw' = db2 \<and>
      cluster_of_gw gw' = snd (snd (fan_out (net_of env) (delete_calls cs) sched (cluster_of_gw gw)))"
    using assms(1) g cs d \<open>e = None\<close> by (auto simp: Delete_def Let_def split_beta)
  with ob g cs tables_eq(2) [OF s] same_tables_trans [OF del ob(4)] show ?thesis by auto
qed

lemma delete_objects_rows:
  assumes "ob \<in> set (objects db)"
  defines "db' \<equiv> delete_objects (\<lambda>x. obj_ID x = obj_ID ob \<and> obj_UserID x = obj_UserID ob) db"
  shows "chunks db' = filter (\<lambda>c. ch_ObjectID c \<noteq> obj_ID ob) (chunks db)"
    "chunk_locations db' = filter (\<lambda>l. fst l \<notin> ch_ID ` {c \<in> set (chunks db). ch_ObjectID c = obj_ID ob}) (chunk_locations db)"
    "objects db' = filter (\<lambda>x. \<not> (obj_ID x = obj_ID ob \<and> obj_UserID x = obj_UserID ob)) (objects db)"
proof -
  have "obj_ID ` {x \<in> set (objects db). obj_ID x = obj_ID ob \<and> obj_UserID x = obj_UserID ob} = {obj_ID ob}"
    using assms(1) by auto
  then show "chunks db' = filter (\<lambda>c. ch_ObjectID c \<noteq> obj_ID ob) (chunks db)"
    "chunk_locations db' = filter (\<lambda>l. fst l \<notin> ch_ID ` {c \<in> set (chunks db). ch_ObjectID c = obj_ID ob}) (chunk_locations db)"
    "objects db' = filter (\<lambda>x. \<not> (obj_ID x = obj_ID ob \<and> obj_UserID x = obj_UserID ob)) (objects db)"
    by (simp_all add: db'_def delete_objects_def Let_def)
qed

lemma delete_objects_others:
  assumes "ob \<in> set (objects db)" "db_inv db" "oid \<noteq> obj_ID ob"
  shows "object_rows (delete_objects (\<lambda>x. obj_ID x = obj_ID ob \<and> obj_UserID x = obj_UserID ob) db) oid = object_rows db oid"
    "c \<in> set (chunks db) \<Longrightarrow> ch_ObjectID c = oid \<Longrightarrow>
     locations_of (delete_objects (\<lambda>x. obj_ID x = obj_ID ob \<and> obj_UserID x = obj_UserID ob) db) (ch_ID c) =
     locations_of db (ch_ID c)"
proof -
  let ?db = "delete_objects (\<lambda>x. obj_ID x = obj_ID ob \<and> obj_UserID x = obj_UserID ob) db"
  note rows = delete_objects_rows [OF assms(1)]
  have dist: "distinct (map ch_ID (chunks db))" using assms(2) by (simp add: db_inv_def chunks_inv_def)
  have loc: "locations_of ?db (ch_ID c) = locations_of db (ch_ID c)"
    if c: "c \<in> set (chunks db)" "ch_ObjectID c = oid" for c
  proof -
    have "ch_ID c \<notin> ch_ID ` {c \<in> set (chunks db). ch_ObjectID c = obj_ID ob}"
      using dist c assms(3) by (auto simp: distinct_map inj_on_def)
    then show ?thesis unfolding locations_of_def rows(2) filter_filter
      by (intro arg_cong [where f = "map snd"] filter_cong) auto
  qed
  then show "c \<in> set (chunks db) \<Longrightarrow> ch_ObjectID c = oid \<Longrightarrow> locations_of ?db (ch_ID c) = locations_of db (ch_ID c)" .
  have "located_chunks ?db (\<lambda>c. ch_ObjectID c = oid) = located_chunks db (\<lambda>c. ch_ObjectID c = oid)"
    unfolding located_chunks_def rows(1) filter_filter using loc assms(3) by (intro filter_cong) auto
  then show "object_rows ?db oid = object_rows db oid" by (simp add: object_rows_def)
qed

lemma distinct_locations: "db_inv db \<Longrightarrow> distinct (locations_of db i)"
  by (auto simp: db_inv_def chunks_inv_def locations_of_def distinct_map inj_on_def)

lemma set_delete_calls:
  "set (delete_calls cs) = {(a, ReqDelete (ch_Hash c)) |a c. c \<in> set cs \<and> a \<in> set (ch_NodeAddresses c)}"
  by (auto simp: delete_calls_def)

lemma distinct_delete_calls:
  "distinct (map ch_Hash cs) \<Longrightarrow> \<forall>c \<in> set cs. distinct (ch_NodeAddresses c) \<Longrightarrow> distinct (delete_calls cs)"
proof (induction cs)
  case (Cons c cs)
  have "delete_calls (c # cs) = map (\<lambda>a. (a, ReqDelete (ch_Hash c))) (ch_NodeAddresses c) @ delete_calls cs"
    by (simp add: delete_calls_def)
  with Cons show ?case by (auto simp: distinct_map inj_on_def set_delete_calls)
qed (simp add: delete_calls_def)

lemma delete_calls_of_object:
  assumes "GetChunksByObjectID env i db = (Inr cs, db1)" "uuid_in env i = Some oid" "rows_cut env (stmt_no db) = None"
    and "db_inv db" "distinct (map ch_Hash (filter (\<lambda>c. ch_ObjectID c = oid) (chunks db)))"
  shows "set (delete_calls cs) = {(a, ReqDelete (ch_Hash c)) |a c. c \<in> set (chunks db) \<and> ch_ObjectID c = oid \<and>
      a \<in> set (locations_of db (ch_ID c))}" "distinct (delete_calls cs)"
proof -
  let ?own = "located_chunks db (\<lambda>c. ch_ObjectID c = oid)"
  have fields: "map chunk_fields cs = object_rows db oid"
    and adr: "\<And>c. c \<in> set cs \<Longrightarrow> set (ch_NodeAddresses c) = set (locations_of db (ch_ID c)) \<and>
       length (ch_NodeAddresses c) = length (locations_of db (ch_ID c))"
    using chunks_are_rows [OF assms(1)] assms(2,3) by auto
  have m: "mset (map chunk_fields cs) = mset (map chunk_fields ?own)" by (simp add: fields object_rows_def)
  then have set: "chunk_fields ` set cs = chunk_fields ` set ?own" by (metis image_set set_mset_mset)
  have own: "set ?own = {c \<in> set (chunks db). ch_ObjectID c = oid \<and> locations_of db (ch_ID c) \<noteq> []}"
    by (auto simp: located_chunks_def)
  have calls: "set (delete_calls cs) = (\<Union>(x, i, h, s) \<in> chunk_fields ` set cs. (\<lambda>a. (a, ReqDelete h)) ` set (locations_of db i))"
    using adr by (auto simp: set_delete_calls chunk_fields_def)
  show "set (delete_calls cs) = {(a, ReqDelete (ch_Hash c)) |a c. c \<in> set (chunks db) \<and> ch_ObjectID c = oid \<and>
      a \<in> set (locations_of db (ch_ID c))}"
    unfolding calls set own by (auto simp: chunk_fields_def)
  have "mset (map ch_Hash cs) = image_mset row_hash (mset (map chunk_fields cs))"
    by (simp add: multiset.map_comp comp_def)
  also have "\<dots> = mset (map ch_Hash ?own)" unfolding m by (simp add: multiset.map_comp comp_def)
  finally have "distinct (map ch_Hash cs) = distinct (map ch_Hash ?own)" by (rule mset_eq_imp_distinct_iff)
  moreover have "?own = filter (\<lambda>c. locations_of db (ch_ID c) \<noteq> []) (filter (\<lambda>c. ch_ObjectID c = oid) (chunks db))"
    by (simp add: located_chunks_def conj_commute)
  then have "distinct (map ch_Hash ?own)" using distinct_map_filter [OF assms(5)] by simp
  moreover have "\<forall>c \<in> set cs. distinct (ch_NodeAddresses c)"
    using adr distinct_locations [OF assms(4)] by (metis card_distinct distinct_card)
  ultimately show "distinct (delete_calls cs)" by (intro distinct_delete_calls) simp_all
qed

text \<open>An object whose files are all where its metadata says, on nodes of \<open>A\<close>, with no chunk twice.\<close>

definition intact :: "address set \<Rightarrow> uuid \<Rightarrow> gateway \<Rightarrow> bool" where
  "intact A oid gw \<longleftrightarrow>
     (let db = database_of_gw gw
      in distinct (map ch_Hash (filter (\<lambda>c. ch_ObjectID c = oid) (chunks db))) \<and>
         (\<forall>c \<in> set (chunks db). ch_ObjectID c = oid \<longrightarrow> plain_name (ch_Hash c) \<and>
            (\<forall>a \<in> set (locations_of db (ch_ID c)). a \<in> A \<and> held (cluster_of_gw gw) a (ch_Hash c))))"

lemma Delete_files:
  assumes "Delete env sched r gw = (w, gw')" "status_code w = 204" "uuid_in (db_of env) (pathValue r ''id'') = Some oid"
    and "db_inv (database_of_gw gw)" "rows_cut (db_of env) (stmt_no (database_of_gw gw)) = None"
    and "net_calm (net_of env) A" "cluster_calm (cluster_of_gw gw) A" "intact A oid gw"
    and "c \<in> set (chunks (database_of_gw gw))" "ch_ObjectID c = oid"
    and "a \<in> set (locations_of (database_of_gw gw) (ch_ID c))"
  shows "\<not> held (cluster_of_gw gw') a (ch_Hash c)"
proof -
  let ?db = "database_of_gw gw"
  obtain cs db1 where g: "GetChunksByObjectID (db_of env) (pathValue r ''id'') ?db = (Inr cs, db1)"
    and cl: "cluster_of_gw gw' = snd (snd (fan_out (net_of env) (delete_calls cs) sched (cluster_of_gw gw)))"
    using Delete_204 [OF assms(1,2)] by blast
  have I: "distinct (map ch_Hash (filter (\<lambda>c. ch_ObjectID c = oid) (chunks ?db)))"
    "\<And>c a. c \<in> set (chunks ?db) \<Longrightarrow> ch_ObjectID c = oid \<Longrightarrow> a \<in> set (locations_of ?db (ch_ID c)) \<Longrightarrow>
       plain_name (ch_Hash c) \<and> a \<in> A \<and> held (cluster_of_gw gw) a (ch_Hash c)"
    using assms(8) by (auto simp: intact_def Let_def)
  note calls = delete_calls_of_object [OF g assms(3,5,4) I(1)]
  obtain ps fin where f: "fan_out (net_of env) (delete_calls cs) sched (cluster_of_gw gw) = (ps, fin, cluster_of_gw gw')"
    using cl by (metis prod.collapse)
  show ?thesis
  proof (rule fan_out_deletes [OF f assms(6) _ assms(7)])
    show "deletions A (delete_calls cs)" using calls(2) I(2) by (auto simp: deletions_def calls(1))
    show "\<forall>a h. (a, ReqDelete h) \<in> set (delete_calls cs) \<longrightarrow> held (cluster_of_gw gw) a h"
      using I(2) by (auto simp: calls(1))
    show "(a, ReqDelete (ch_Hash c)) \<in> set (delete_calls cs)" using assms(9-11) by (auto simp: calls(1))
  qed
qed

lemma fetch_chunk_lost:
  "plain_name hash \<Longrightarrow> \<forall>a \<in> set as. \<not> held c a hash \<Longrightarrow> fst (fetch_chunk env h hash as c) = None"
proof (induction as arbitrary: c)
  case (Cons a as)
  obtain r c1 where r: "try_replica env h hash a c = (r, c1)" by fastforce
  have "r = None"
  proof (rule ccontr)
    assume "r \<noteq> None"
    then obtain d c2 where "client_GetChunk (net_of env) a hash c = (Inr d, c2)"
      using r by (auto simp: try_replica_def split: prod.splits sum.splits)
    from client_GetChunk_holds [OF this Cons.prems(1)] Cons.prems(2) show False by (auto simp: held_def)
  qed
  moreover have "storage_nodes c1 = storage_nodes c" using r try_replica_frame by (metis snd_conv)
  then have "held c1 = held c" by (simp add: held_def node_holds_def fun_eq_iff)
  ultimately show ?case using r Cons by simp
qed simp

lemma send_chunks_lost:
  assumes "i < length cs" "plain_name (ch_Hash (cs ! i))"
    and "\<forall>a \<in> set (ch_NodeAddresses (cs ! i)). \<not> held c a (ch_Hash (cs ! i))"
  shows "\<exists>ds tail. body (fst (send_chunks env h cs w c)) = body w @ map Raw ds @ tail \<and> length ds \<le> i \<and>
    (tail = [] \<or> tail = [ErrorText ''all replicas failed or corrupted''])"
  using assms
proof (induction cs arbitrary: i w c)
  case (Cons chunk cs)
  obtain f c1 where f: "fetch_chunk env h (ch_Hash chunk) (ch_NodeAddresses chunk) c = (f, c1)" by fastforce
  show ?case
  proof (cases f)
    case None
    from http_Error_body [of "''all replicas failed or corrupted''" 500 w] None f show ?thesis
      by - (rule exI [of _ "[]"], auto)
  next
    case (Some d)
    then obtain k where k: "i = Suc k"
      using fetch_chunk_lost [of "ch_Hash chunk" "ch_NodeAddresses chunk" c env h] f Cons.prems by (cases i) auto
    obtain ok w1 where w: "response_Write (Raw d) w = (ok, w1)" by fastforce
    note W = response_Write_body [OF w]
    show ?thesis
    proof (cases ok)
      case False
      with W w f Some show ?thesis by (intro exI [of _ "[]"]) simp
    next
      case True
      have "storage_nodes c1 = storage_nodes c" using f fetch_chunk_frame by (metis snd_conv)
      then have "held c1 = held c" by (simp add: held_def node_holds_def fun_eq_iff)
      with Cons.prems k have "k < length cs" "plain_name (ch_Hash (cs ! k))"
        "\<forall>a \<in> set (ch_NodeAddresses (cs ! k)). \<not> held c1 a (ch_Hash (cs ! k))" by simp_all
      from Cons.IH [OF this] obtain ds tail where "body (fst (send_chunks env h cs w1 c1)) = body w1 @ map Raw ds @ tail"
        "length ds \<le> k" "tail = [] \<or> tail = [ErrorText ''all replicas failed or corrupted'']" by blast
      with W True w f Some k show ?thesis by (intro exI [of _ "d # ds"] exI [of _ tail]) simp
    qed
  qed
qed simp

text \<open>A download stops before a chunk of which no replica is left.\<close>

lemma download_lost:
  assumes "uuid_in (db_of env) (pathValue r ''id'') = Some oid"
    and "i < length (object_rows (database_of_gw gw) oid)" "object_rows (database_of_gw gw) oid ! i = chunk_fields c"
    and "plain_name (ch_Hash c)"
    and "\<forall>a \<in> set (locations_of (database_of_gw gw) (ch_ID c)). \<not> held (cluster_of_gw gw) a (ch_Hash c)"
  shows "\<exists>ds tail. body (fst (Download env h r gw)) = map Raw ds @ tail \<and> (tail = [] \<or> (\<exists>m. tail = [ErrorText m])) \<and>
    length ds \<le> i"
proof (cases rule: Download_cases [of env h r gw])
  case early
  then show ?thesis by - (rule exI [of _ "[]"], auto)
next
  case (chunks ob db1 qs db2 w0)
  have "same_tables (database_of_gw gw) db1" using GetObjectByID_ok [OF chunks(1)] by blast
  note T = tables_eq [OF this]
  obtain m where m: "map chunk_fields qs = take m (object_rows (database_of_gw gw) oid)"
    and adr: "\<And>c. c \<in> set qs \<Longrightarrow> set (ch_NodeAddresses c) = set (locations_of (database_of_gw gw) (ch_ID c))"
    using chunks_are_rows [OF chunks(2)] assms(1) by (auto simp: object_rows_def located_chunks_def locations_of_def T)
  show ?thesis
  proof (cases "i < length qs")
    case True
    have "chunk_fields (qs ! i) = chunk_fields c"
      using True assms(3) m by (metis length_map length_take min_less_iff_conj nth_map nth_take)
    then have q: "ch_Hash (qs ! i) = ch_Hash c" "ch_ID (qs ! i) = ch_ID c" by (simp_all add: chunk_fields_def)
    have "set (ch_NodeAddresses (qs ! i)) = set (locations_of (database_of_gw gw) (ch_ID c))"
      using adr [OF nth_mem [OF True]] q(2) by simp
    with send_chunks_lost [OF True, of "cluster_of_gw gw" env h w0] assms(4,5) q(1) obtain ds tail where
      "body (fst (send_chunks env h qs w0 (cluster_of_gw gw))) = body w0 @ map Raw ds @ tail" "length ds \<le> i"
      "tail = [] \<or> tail = [ErrorText ''all replicas failed or corrupted'']" by auto
    with chunks(3,4) show ?thesis by - (rule exI [of _ ds], rule exI [of _ tail], auto)
  next
    case False
    from send_chunks_body [of env h qs w0 "cluster_of_gw gw", OF surjective_pairing] obtain ds tail where
      "body (fst (send_chunks env h qs w0 (cluster_of_gw gw))) = body w0 @ map Raw ds @ tail" "length ds \<le> length qs"
      "tail = [] \<or> tail = [ErrorText ''all replicas failed or corrupted'']" by blast
    with chunks(3,4) False show ?thesis by - (rule exI [of _ ds], rule exI [of _ tail], auto)
  qed
qed

lemma Delete_live:
  assumes "db_calm (db_of env)" "ob \<in> set (objects (database_of_gw gw))"
    and "uuid_in (db_of env) (pathValue r ''id'') = Some (obj_ID ob)"
    and "uuid_in (db_of env) (userID r) = Some (obj_UserID ob)"
  shows "status_code (fst (Delete env sched r gw)) = 204"
proof -
  obtain cs db1 where g: "GetChunksByObjectID (db_of env) (pathValue r ''id'') (database_of_gw gw) = (Inr cs, db1)"
    using GetChunksByObjectID_calm [OF assms(1,3)] by blast
  have "ob \<in> set (objects db1)" using GetChunksByObjectID_ok [OF g] assms(2) tables_eq(2) by auto
  then have "filter (\<lambda>x. obj_ID x = obj_ID ob \<and> obj_UserID x = obj_UserID ob) (objects db1) \<noteq> []"
    by (auto simp: filter_empty_conv)
  then have "fst (DeleteObject (db_of env) (pathValue r ''id'') (userID r) db1) = None"
    using assms(1,3,4) by (simp add: DeleteObject_def exec_stmt_def db_calm_def Let_def)
  with g show ?thesis by (auto simp: Delete_def Let_def split_beta)
qed

section \<open>Properties\<close>


text \<open>
  C17: deleting an object destroys others with the same content. Two objects that have a chunk in
  common, the one's locations among the other's, share its files. After an acknowledged \<open>Delete\<close>
  of one of them on working nodes, the other is still in the tables, but no download of it, by
  whomever and however the network behaves, ever sends all of its chunks again.
\<close>

theorem Delete_breaks_shared:
  assumes "Delete env sched r gw = (w, gw')" "status_code w = 204" "uuid_in (db_of env) (pathValue r ''id'') = Some oid"
    and "db_inv (database_of_gw gw)" "rows_cut (db_of env) (stmt_no (database_of_gw gw)) = None"
    and "net_calm (net_of env) A" "cluster_calm (cluster_of_gw gw) A" "intact A oid gw"
    and "c1 \<in> set (chunks (database_of_gw gw))" "ch_ObjectID c1 = oid"
    and "c2 \<in> set (chunks (database_of_gw gw))" "ch_ObjectID c2 \<noteq> oid" "ch_Hash c2 = ch_Hash c1"
    and "locations_of (database_of_gw gw) (ch_ID c2) \<noteq> []"
    and "set (locations_of (database_of_gw gw) (ch_ID c2)) \<subseteq> set (locations_of (database_of_gw gw) (ch_ID c1))"
    and "same_store gw' gw2" "uuid_in (db_of env2) (pathValue r2 ''id'') = Some (ch_ObjectID c2)"
  shows "\<exists>ds tail. body (fst (Download env2 h r2 gw2)) = map Raw ds @ tail \<and> (tail = [] \<or> (\<exists>m. tail = [ErrorText m])) \<and>
    object_rows (database_of_gw gw2) (ch_ObjectID c2) = object_rows (database_of_gw gw) (ch_ObjectID c2) \<and>
    length ds < length (object_rows (database_of_gw gw) (ch_ObjectID c2))"
proof -
  let ?db = "database_of_gw gw" let ?o = "ch_ObjectID c2"
  obtain ob where ob: "ob \<in> set (objects ?db)" "obj_ID ob = oid"
    and del: "same_tables (delete_objects (\<lambda>x. obj_ID x = obj_ID ob \<and> obj_UserID x = obj_UserID ob) ?db) (database_of_gw gw')"
    using Delete_204 [OF assms(1,2)] assms(3) by auto
  have neq: "?o \<noteq> obj_ID ob" using assms(12) ob(2) by simp
  note others = delete_objects_others [OF ob(1) assms(4) neq]
  have rows: "object_rows db ?o = object_rows ?db ?o \<and> locations_of db (ch_ID c2) = locations_of ?db (ch_ID c2)"
    if "same_tables (database_of_gw gw') db" for db
    using tables_eq [OF same_tables_trans [OF del that]] others(1) others(2) [OF assms(11) refl]
    by (simp add: object_rows_def located_chunks_def locations_of_def)
  have gw2: "same_tables (database_of_gw gw') (database_of_gw gw2)" "held (cluster_of_gw gw2) = held (cluster_of_gw gw')"
    using assms(16) by (simp_all add: same_store_def held_def node_holds_def fun_eq_iff)
  have "c2 \<in> set (located_chunks ?db (\<lambda>c. ch_ObjectID c = ?o))" using assms(11,14) by (simp add: located_chunks_def)
  then have "chunk_fields c2 \<in> set (object_rows ?db ?o)" by (simp add: object_rows_def)
  then obtain i where i: "i < length (object_rows ?db ?o)" "object_rows ?db ?o ! i = chunk_fields c2"
    by (metis in_set_conv_nth)
  have lost: "plain_name (ch_Hash c2)" "a \<in> set (locations_of ?db (ch_ID c2)) \<Longrightarrow> \<not> held (cluster_of_gw gw2) a (ch_Hash c2)" for a
    using assms(8-10,13,15) Delete_files [OF assms(1-10), of a] by (auto simp: intact_def Let_def gw2(2))
  have "i < length (object_rows (database_of_gw gw2) ?o)" "object_rows (database_of_gw gw2) ?o ! i = chunk_fields c2"
    "\<forall>a \<in> set (locations_of (database_of_gw gw2) (ch_ID c2)). \<not> held (cluster_of_gw gw2) a (ch_Hash c2)"
    using i lost(2) rows [OF gw2(1)] by simp_all
  from download_lost [where env = env2 and r = r2 and h = h, OF assms(17) this(1,2) lost(1) this(3)]
  show ?thesis using rows [OF gw2(1)] i(1) by (metis order.strict_trans1)
qed

section \<open>Concrete instances\<close>

text \<open>One node, one user, and two objects with the same chunk.\<close>

definition node_c :: NodeHandler where
  "node_c = snd (node_SaveChunk io_ok ''c'' [1] disk_example)"

definition gw_twice :: gateway where
  "gw_twice = \<lparr>cluster_of_gw = cluster_of [''n1'' \<mapsto> node_c] Map.empty 0,
     database_of_gw = fold (db_run db_ok)
       [CallCreateUser ''e'' ''p'', CallCreateObject '''' ''a'' ''t'' 1, CallCreateChunk ''u'' 0 ''c'' 1 [''n1''],
        CallCreateObject '''' ''b'' ''t'' 1, CallCreateChunk ''uuuuuu'' 0 ''c'' 1 [''n1'']] empty_db\<rparr>"

definition req_delete :: request where
  "req_delete = req_ok\<lparr>pathValue := (\<lambda>x. ''u'')\<rparr>"

lemma database_twice:
  "objects (database_of_gw gw_twice) =
     [\<lparr>obj_ID = ''u'', obj_UserID = '''', obj_Name = ''a'', obj_SizeBytes = 1, obj_ContentType = ''t'', obj_CreatedAt = 1\<rparr>,
      \<lparr>obj_ID = ''uuuuuu'', obj_UserID = '''', obj_Name = ''b'', obj_SizeBytes = 1, obj_ContentType = ''t'', obj_CreatedAt = 6\<rparr>]"
  "chunks (database_of_gw gw_twice) =
     [\<lparr>ch_ID = ''uuu'', ch_ObjectID = ''u'', ch_ChunkIndex = 0, ch_Hash = ''c'', ch_SizeBytes = 1\<rparr>,
      \<lparr>ch_ID = ''uuuuuuuu'', ch_ObjectID = ''uuuuuu'', ch_ChunkIndex = 0, ch_Hash = ''c'', ch_SizeBytes = 1\<rparr>]"
  "chunk_locations (database_of_gw gw_twice) = [(''uuu'', ''n1''), (''uuuuuuuu'', ''n1'')]"
  by (simp_all add: gw_twice_def CreateChunk_def insert_chunk_def insert_location_def db_eval)

lemma gw_twice_ok:
  "db_inv (database_of_gw gw_twice)" "cluster_calm (cluster_of_gw gw_twice) {''n1''}"
  "intact {''n1''} ''u'' gw_twice" "rows_cut db_ok k = None" "uuid_in db_ok (pathValue req_delete s) = Some ''u''"
proof -
  show "db_inv (database_of_gw gw_twice)" unfolding gw_twice_def gateway.select_convs by (rule inv_db_runs)
  have n: "node_ok node_c" unfolding node_c_def using node_ok_example plain_c(1) by (rule node_ok_SaveChunk)
  then show "cluster_calm (cluster_of_gw gw_twice) {''n1''}"
    by (simp add: cluster_calm_def gw_twice_def cluster_of_def breaker_of_def new_breaker_def node_live_def)
  have "chunk_at node_c ''c'' = Some [1]"
    unfolding node_c_def using node_SaveChunk_live [OF node_ok_example plain_c(1)] node_SaveChunk_holds
    by (metis prod.collapse)
  then show "intact {''n1''} ''u'' gw_twice"
    by (simp add: intact_def database_twice locations_of_def plain_c held_def node_holds_def)
      (simp add: gw_twice_def cluster_of_def)
qed (simp_all add: db_ok_def req_delete_def)

lemma delete_twice: "status_code (fst (Delete env_ok [] req_delete gw_twice)) = 204"
proof (rule Delete_live)
  show "hd (objects (database_of_gw gw_twice)) \<in> set (objects (database_of_gw gw_twice))"
    by (simp add: database_twice)
qed (simp_all add: env3_simps database_twice req_delete_def)


lemma Delete_breaks_shared_witness:
  "raw_bytes (body (fst (Download env_ok handler3 (req_ok\<lparr>pathValue := (\<lambda>x. ''uuuuuu'')\<rparr>)
     (snd (Delete env_ok [] req_delete gw_twice))))) = []"
proof -
  let ?gw = "snd (Delete env_ok [] req_delete gw_twice)" let ?r = "req_ok\<lparr>pathValue := (\<lambda>x. ''uuuuuu'')\<rparr>"
  have rows: "length (object_rows (database_of_gw gw_twice) ''uuuuuu'') = 1"
    by (simp add: object_rows_def located_chunks_def database_twice locations_of_def)
  from Delete_breaks_shared [OF prod.collapse [symmetric] delete_twice, where oid = "''u''" and A = "{''n1''}"
      and ?env2.0 = env_ok and h = handler3 and ?r2.0 = ?r and ?gw2.0 = ?gw
      and ?c1.0 = "chunks (database_of_gw gw_twice) ! 0" and ?c2.0 = "chunks (database_of_gw gw_twice) ! 1"]
  obtain ds :: "bytes list" and tail where "body (fst (Download env_ok handler3 ?r ?gw)) = map Raw ds @ tail"
    "tail = [] \<or> (\<exists>m. tail = [ErrorText m])" "length ds < 1"
    using gw_twice_ok rows by (auto simp: env3_simps database_twice locations_of_def same_store_def)
  then show ?thesis by auto
qed

end
