(* ===== verification/Router.thy ===== *)
theory Router imports Config NodeAdmin Tenants Deletion begin

text \<open>
  The gateway as a whole (\<open>internal/api/router.go\<close>): how \<open>NewRouter\<close> builds the handlers from the
  configuration, which handler a request reaches, and the middleware in front of it. The file
  shows that the routes never conflict, that a request without credentials changes nothing, and
  that a user's requests leave the objects of all other users as they are.
\<close>

section \<open>\<open>NewRouter\<close>\<close>

record app =
  authHandler :: auth_Handler
  objectHandler :: ObjectHandler
  ringManager :: RingManager
  infraSecret :: string

text \<open>The field \<open>QuorumSize\<close> of the object handler is not set.\<close>

definition NewRouter :: "Config \<Rightarrow> app" where
  "NewRouter cfg =
     (let quorumSize = go_div (cfg_ReplicationFactor cfg) 2 + 1
      in \<lparr>authHandler = \<lparr>JWTSecret = cfg_JWTSecret cfg, JWTExpiry = cfg_JWTExpiryHours cfg\<rparr>,
          objectHandler = \<lparr>ChunkSizeMB = cfg_ChunkSizeMB cfg, ReplicationFactor = cfg_ReplicationFactor cfg,
            QuorumSize = 0, EncryptionKey = cfg_EncryptionKey cfg\<rparr>,
          ringManager = NewRingManager 50 (cfg_ClusterSecret cfg) quorumSize,
          infraSecret = cfg_ClusterSecret cfg\<rparr>)"

section \<open>The routes\<close>

text \<open>
  A pattern of \<open>http.ServeMux\<close>: a method and segments, each a literal or a wildcard. A path is
  given by its decoded segments; a trailing slash makes an empty last one, which no wildcard matches.
\<close>

datatype segment = Lit string | Wild string

datatype handler =
    AuthRegister | AuthLogin | FileServer
  | ObjUpload | ObjList | ObjDownload | ObjDelete
  | MultiInit | MultiPart | MultiComplete
  | Metrics | NodesRegister

type_synonym pattern = "string \<times> segment list \<times> handler"

definition routes :: "pattern list" where
  "routes =
     [(''POST'', [Lit ''auth'', Lit ''register''], AuthRegister),
      (''POST'', [Lit ''auth'', Lit ''login''], AuthLogin),
      (''POST'', [Lit ''objects''], ObjUpload),
      (''GET'', [Lit ''objects''], ObjList),
      (''GET'', [Lit ''objects'', Wild ''id''], ObjDownload),
      (''DELETE'', [Lit ''objects'', Wild ''id''], ObjDelete),
      (''POST'', [Lit ''multipart''], MultiInit),
      (''POST'', [Lit ''multipart'', Wild ''upload_id'', Wild ''part_number''], MultiPart),
      (''POST'', [Lit ''multipart'', Wild ''upload_id'', Lit ''complete''], MultiComplete),
      (''GET'', [Lit ''metrics''], Metrics),
      (''POST'', [Lit ''nodes'', Lit ''register''], NodesRegister)]"

fun match_segments :: "segment list \<Rightarrow> string list \<Rightarrow> (string \<rightharpoonup> string) option" where
  "match_segments [] [] = Some Map.empty"
| "match_segments (Lit s # ss) (p # ps) = (if s = p then match_segments ss ps else None)"
| "match_segments (Wild v # ss) (p # ps) =
     (if p = '''' then None else map_option (\<lambda>m. m(v \<mapsto> p)) (match_segments ss ps))"
| "match_segments _ _ = None"

text \<open>A pattern for \<open>GET\<close> matches \<open>HEAD\<close> as well.\<close>

definition method_matches :: "string \<Rightarrow> string \<Rightarrow> bool" where
  "method_matches pm m \<longleftrightarrow> pm = m \<or> pm = ''GET'' \<and> m = ''HEAD''"

definition matches :: "string \<Rightarrow> string list \<Rightarrow> pattern \<Rightarrow> bool" where
  "matches m path p \<longleftrightarrow> method_matches (fst p) m \<and> match_segments (fst (snd p)) path \<noteq> None"

fun segment_le :: "segment \<Rightarrow> segment \<Rightarrow> bool" where
  "segment_le (Lit s) (Lit t) \<longleftrightarrow> s = t"
| "segment_le (Lit s) (Wild v) \<longleftrightarrow> True"
| "segment_le (Wild v) (Wild u) \<longleftrightarrow> True"
| "segment_le (Wild v) (Lit t) \<longleftrightarrow> False"

definition at_least_as_specific :: "pattern \<Rightarrow> pattern \<Rightarrow> bool" where
  "at_least_as_specific p q \<longleftrightarrow> list_all2 segment_le (fst (snd p)) (fst (snd q))"

text \<open>The most specific pattern wins; \<open>"/"\<close> takes the rest.\<close>

definition route :: "string \<Rightarrow> string list \<Rightarrow> handler \<times> (string \<Rightarrow> string)" where
  "route m path =
     (let ps = filter (matches m path) routes
      in case List.find (\<lambda>p. \<forall>q \<in> set ps. at_least_as_specific p q) ps of
           None \<Rightarrow> (FileServer, \<lambda>_. '''')
         | Some (pm, segs, hnd) \<Rightarrow>
             (case match_segments segs path of None \<Rightarrow> (FileServer, \<lambda>_. '''') | Some m \<Rightarrow> (hnd, map_get '''' m)))"

section \<open>Serving a request\<close>

text \<open>
  What one request sees of the world: the services, the choices of the runtime in its handler,
  the clock, what other requests do to the database while it registers, and the answers of the file server
  and the metrics page.
\<close>

record serve_env =
  services :: gw_env
  accounts :: auth_env
  parse_clock :: int
  meanwhile :: "database \<Rightarrow> database"
  uploading :: upload_env
  call_sched :: "(nat \<times> nat) list"
  part_ring :: HashRing
  part_rand :: bytes
  static_page :: "request \<Rightarrow> http_response"

definition protected ::
  "serve_env \<Rightarrow> app \<Rightarrow> (request \<Rightarrow> gateway \<Rightarrow> (outcome \<times> gateway) option) \<Rightarrow> request \<Rightarrow> gateway \<Rightarrow>
   (outcome \<times> gateway) option" where
  "protected env app serve_next r gw =
     (case RequireAuth (jwt_of (accounts env)) (JWTSecret (authHandler app)) (parse_clock env) r of
        Inl w \<Rightarrow> Some (Response w, gw)
      | Inr r \<Rightarrow> serve_next r gw)"

definition answer :: "(request \<Rightarrow> gateway \<Rightarrow> http_response \<times> gateway) \<Rightarrow> request \<Rightarrow> gateway \<Rightarrow> (outcome \<times> gateway) option" where
  "answer h r gw = (let (w, gw) = h r gw in Some (Response w, gw))"

definition on_database ::
  "(request \<Rightarrow> database \<Rightarrow> http_response \<times> database) \<Rightarrow> request \<Rightarrow> gateway \<Rightarrow> (outcome \<times> gateway) option" where
  "on_database h r gw =
     (let (w, db) = h r (database_of_gw gw) in Some (Response w, gw\<lparr>database_of_gw := db\<rparr>))"

definition serve_request ::
  "serve_env \<Rightarrow> app \<Rightarrow> string \<Rightarrow> string list \<Rightarrow> request \<Rightarrow> gateway \<Rightarrow> (outcome \<times> gateway) option" where
  "serve_request env app m path r gw =
     (let (hnd, vals) = route m path;
          r = r\<lparr>pathValue := vals\<rparr>;
          sv = services env; oh = objectHandler app
      in case hnd of
           AuthRegister \<Rightarrow> on_database (Register (accounts env) (authHandler app) (meanwhile env)) r gw
         | AuthLogin \<Rightarrow> on_database (Login (accounts env) (authHandler app)) r gw
         | FileServer \<Rightarrow> Some (Response (static_page env r), gw)
         | ObjUpload \<Rightarrow> protected env app (Upload sv (uploading env) oh) r gw
         | ObjList \<Rightarrow> protected env app (answer (List sv)) r gw
         | ObjDownload \<Rightarrow> protected env app (answer (Download sv oh)) r gw
         | ObjDelete \<Rightarrow> protected env app (answer (Delete sv (call_sched env))) r gw
         | MultiInit \<Rightarrow> protected env app (answer (InitMultipart sv)) r gw
         | MultiPart \<Rightarrow>
             protected env app (answer (UploadPart sv (call_sched env) (part_ring env) (part_rand env) oh)) r gw
         | MultiComplete \<Rightarrow> protected env app (answer (CompleteMultipart sv)) r gw
         | Metrics \<Rightarrow> Some (Response (static_page env r), gw)
         | NodesRegister \<Rightarrow> on_database (nodes_register (db_of sv) (infraSecret app)) r gw)"

section \<open>Lemmas\<close>

subsection \<open>The routes\<close>

fun may_meet :: "segment \<Rightarrow> segment \<Rightarrow> bool" where
  "may_meet (Lit s) (Lit t) \<longleftrightarrow> s = t"
| "may_meet _ _ \<longleftrightarrow> True"

lemma match_segments_meet:
  "match_segments ss path \<noteq> None \<Longrightarrow> match_segments ts path \<noteq> None \<Longrightarrow> list_all2 may_meet ss ts"
proof (induction ss path arbitrary: ts rule: match_segments.induct)
  case (2 s ss p ps)
  then show ?case by (cases "(ts, p # ps)" rule: match_segments.cases) (auto split: if_splits)
next
  case (3 v ss p ps)
  then show ?case by (cases "(ts, p # ps)" rule: match_segments.cases) (auto split: if_splits)
qed (auto elim: match_segments.elims)

text \<open>Of two patterns that match one request, exactly one is at least as specific as the other.\<close>

lemma routes_meet:
  "\<forall>p \<in> set routes. \<forall>q \<in> set routes. fst p = fst q \<and> list_all2 may_meet (fst (snd p)) (fst (snd q)) \<longrightarrow>
     p = q \<or> at_least_as_specific p q \<noteq> at_least_as_specific q p"
  by code_simp

lemma routes_methods: "\<forall>p \<in> set routes. fst p \<noteq> ''HEAD''"
  by (simp add: routes_def)

lemma routes_comparable:
  assumes "p \<in> set routes" "q \<in> set routes" "matches m path p" "matches m path q"
  shows "p = q \<or> at_least_as_specific p q \<noteq> at_least_as_specific q p"
proof -
  have "list_all2 may_meet (fst (snd p)) (fst (snd q))"
    using assms(3,4) match_segments_meet unfolding matches_def by blast
  moreover have "fst p = fst q"
    using assms routes_methods by (auto simp: matches_def method_matches_def)
  ultimately show ?thesis using routes_meet assms(1,2) by blast
qed

lemma segment_le_trans: "segment_le a b \<Longrightarrow> segment_le b c \<Longrightarrow> segment_le a c"
  by (cases a; cases b; cases c) simp_all

lemma specific_refl: "at_least_as_specific p p"
proof -
  have "segment_le s s" for s by (cases s) simp_all
  then show ?thesis by (simp add: at_least_as_specific_def list_all2_refl)
qed

lemma specific_trans: "at_least_as_specific p q \<Longrightarrow> at_least_as_specific q r \<Longrightarrow> at_least_as_specific p r"
  unfolding at_least_as_specific_def by (rule list_all2_trans [OF segment_le_trans])

lemma most_specific_exists:
  assumes "\<forall>p \<in> set ps. \<forall>q \<in> set ps. at_least_as_specific p q \<or> at_least_as_specific q p" "ps \<noteq> []"
  shows "\<exists>p \<in> set ps. \<forall>q \<in> set ps. at_least_as_specific p q"
  using assms
proof (induction ps)
  case (Cons x ps)
  show ?case
  proof (cases "ps = []")
    case True
    then show ?thesis by (simp add: specific_refl)
  next
    case False
    with Cons obtain p where p: "p \<in> set ps" "\<forall>q \<in> set ps. at_least_as_specific p q" by auto
    show ?thesis
    proof (cases "at_least_as_specific p x")
      case True
      with p show ?thesis by auto
    next
      case no: False
      then have "at_least_as_specific x p" using Cons.prems(1) p(1) by auto
      with p specific_refl specific_trans show ?thesis by (intro bexI [of _ x]) auto
    qed
  qed
qed simp

lemma find_exists: "\<exists>x \<in> set xs. P x \<Longrightarrow> \<exists>x \<in> set xs. P x \<and> List.find P xs = Some x"
  by (induction xs) auto

subsection \<open>The middleware\<close>

lemma RequireAuth_pathValue:
  "RequireAuth lib s t (r\<lparr>pathValue := v\<rparr>) = map_sum id (\<lambda>r. r\<lparr>pathValue := v\<rparr>) (RequireAuth lib s t r)"
  by (simp add: RequireAuth_def Let_def split: sum.split)

text \<open>The tables are the same but for new users.\<close>

definition users_grow :: "database \<Rightarrow> database \<Rightarrow> bool" where
  "users_grow db db' \<longleftrightarrow> same_tables (db\<lparr>users := users db'\<rparr>) db' \<and> (\<exists>us. users db' = users db @ us)"

lemma same_tables_iff:
  "same_tables db db' \<longleftrightarrow> users db' = users db \<and> objects db' = objects db \<and> chunks db' = chunks db \<and>
     chunk_locations db' = chunk_locations db \<and> multipart_uploads db' = multipart_uploads db \<and>
     multipart_chunks db' = multipart_chunks db \<and>
     multipart_chunk_locations db' = multipart_chunk_locations db \<and> Database.nodes db' = Database.nodes db"
  by (cases db; cases db') (auto simp: same_tables_def)

lemma users_grow_same: "same_tables db db' \<Longrightarrow> users_grow db db'"
  by (simp add: users_grow_def same_tables_iff)

lemma users_grow_add: "users_grow db db1 \<Longrightarrow> users_grow db (db1\<lparr>users := users db1 @ [u]\<rparr>)"
  by (auto simp: users_grow_def same_tables_iff)

lemma CreateUser_grows: "users_grow db db1 \<Longrightarrow> users_grow db (snd (CreateUser env e p db1))"
proof -
  let ?f = "\<lambda>k db. if \<not> text_ok env e \<or> \<not> text_ok env p then Inl (violation ''invalid byte sequence'')
          else if e \<in> usr_Email ` set (users db) then Inl (violation ''users_email_key'')
          else let newID = gen_uuid env k 0
               in if newID \<in> usr_ID ` set (users db) then Inl (violation ''users_pkey'')
                  else Inr (newID, db\<lparr>users := users db @
                         [\<lparr>usr_ID = newID, usr_Email = e, usr_Password = p, usr_CreatedAt = db_now env k\<rparr>]\<rparr>)"
  assume grow: "users_grow db db1"
  have "keeps (users_grow db) ?f"
    by (auto simp: keeps_def Let_def users_grow_add split: if_splits)
  moreover have "on_tables (users_grow db)" by (simp add: on_tables_def users_grow_def same_tables_iff)
  ultimately have "users_grow db (snd (exec_stmt env ?f db1))"
    using grow by (rule exec_stmt_keeps [where P = "users_grow db"])
  then show ?thesis by (simp add: CreateUser_def Let_def split_beta split: sum.split)
qed

lemma GetUserByEmail_tables: "same_tables db (snd (GetUserByEmail env e db))"
  using GetUserByEmail_cases [of env e db, OF surjective_pairing] by simp

lemma Register_tables: "users_grow db (snd (Register env h id r db))"
proof -
  have "users_grow db (snd (GetUserByEmail (auth_db env) e db))" for e
    by (rule users_grow_same [OF GetUserByEmail_tables])
  then have g: "users_grow db (snd (GetUserByEmail (auth_db env) e db))"
    "users_grow db (snd (CreateUser (auth_db env) e p (snd (GetUserByEmail (auth_db env) e db))))" for e p
    using CreateUser_grows by blast+
  have refl: "users_grow db db" by (simp add: users_grow_same)
  show ?thesis
    unfolding Register_def Let_def split_beta id_apply
    by (simp split: option.split sum.split) (intro conjI impI allI refl g)
qed

lemma Login_tables: "same_tables db (snd (Login env h r db))"
  using GetUserByEmail_tables by (auto simp: Login_def Let_def split_beta split: option.split sum.split)

lemma aside_users:
  "view Q (snd (CreateUser env e p db)) = view Q db"
  "view Q (snd (RegisterNode env a db)) = view Q db"
proof -
  have "aside (\<lambda>k db. if \<not> text_ok env e \<or> \<not> text_ok env p then Inl (violation ''invalid byte sequence'')
          else if e \<in> usr_Email ` set (users db) then Inl (violation ''users_email_key'')
          else let newID = gen_uuid env k 0
               in if newID \<in> usr_ID ` set (users db) then Inl (violation ''users_pkey'')
                  else Inr (newID, db\<lparr>users := users db @
                         [\<lparr>usr_ID = newID, usr_Email = e, usr_Password = p, usr_CreatedAt = db_now env k\<rparr>]\<rparr>))"
    by (auto simp: aside_def Let_def split: if_splits)
  from exec_sees [OF this, of Q env db] show "view Q (snd (CreateUser env e p db)) = view Q db"
    by (auto simp: CreateUser_def Let_def split_beta split: sum.split)
  have "aside (\<lambda>k db. if \<not> text_ok env a then Inl (violation ''invalid byte sequence'')
          else if a \<in> nd_Address ` set (Database.nodes db)
          then Inr ((), db\<lparr>Database.nodes := map (\<lambda>n. if nd_Address n = a
                   then n\<lparr>nd_IsActive := True, nd_LastHeartbeat := db_now env k\<rparr> else n) (Database.nodes db)\<rparr>)
          else let newID = gen_uuid env k 0
               in if newID \<in> nd_ID ` set (Database.nodes db) then Inl (violation ''nodes_pkey'')
                  else Inr ((), db\<lparr>Database.nodes := Database.nodes db @
                         [\<lparr>nd_ID = newID, nd_Address = a, nd_IsActive = True,
                           nd_LastHeartbeat = db_now env k\<rparr>]\<rparr>))"
    by (auto simp: aside_def Let_def split: if_splits)
  from exec_sees [OF this, of Q env db] show "view Q (snd (RegisterNode env a db)) = view Q db"
    by (auto simp: RegisterNode_def Let_def split_beta split: sum.split)
qed

lemma Register_sees:
  assumes "\<forall>db. view Q (between db) = view Q db"
  shows "view Q (snd (Register env h between r db)) = view Q db"
  unfolding Register_def Let_def split_beta
  by (simp add: assms aside_users split: option.split sum.split)

lemma nodes_register_sees: "view Q (snd (nodes_register env s r db)) = view Q db"
  by (auto simp: nodes_register_def node_Register_def Let_def split_beta aside_users split: option.split sum.split)

lemma protected_sees:
  assumes "protected env app f (r\<lparr>pathValue := vals\<rparr>) gw = Some (out, gw')"
    and "\<forall>r'. RequireAuth (jwt_of (accounts env)) (JWTSecret (authHandler app)) (parse_clock env) r = Inr r' \<longrightarrow> C r'"
    and "\<And>r'. C r' \<Longrightarrow> f (r'\<lparr>pathValue := vals\<rparr>) gw = Some (out, gw') \<Longrightarrow>
      view Q (database_of_gw gw') = view Q (database_of_gw gw)"
  shows "view Q (database_of_gw gw') = view Q (database_of_gw gw)"
proof (cases "RequireAuth (jwt_of (accounts env)) (JWTSecret (authHandler app)) (parse_clock env) r")
  case (Inl w)
  with assms(1) show ?thesis by (simp add: protected_def RequireAuth_pathValue)
next
  case (Inr r')
  with assms(1,2) show ?thesis
    by (intro assms(3) [of r']) (simp_all add: protected_def RequireAuth_pathValue)
qed

lemma answer_sees:
  assumes "answer h r gw = Some (out, gw')"
    and "view Q (database_of_gw (snd (h r gw))) = view Q (database_of_gw gw)"
  shows "view Q (database_of_gw gw') = view Q (database_of_gw gw)"
  using assms by (cases "h r gw") (simp add: answer_def)

text \<open>What a request leaves as it is: the objects of a kind to which its user adds none and of which it deletes none.\<close>

lemma serve_sees:
  assumes "serve_request env app m path r gw = Some (out, gw')"
    and "db_inv (database_of_gw gw)" "uuids_ok (db_of (services env))"
    and "\<forall>db. view Q (meanwhile env db) = view Q db"
    and user: "\<forall>r'. RequireAuth (jwt_of (accounts env)) (JWTSecret (authHandler app)) (parse_clock env) r = Inr r' \<longrightarrow>
      (fst (route m path) \<in> {ObjUpload, MultiComplete} \<longrightarrow>
        foreign Q (view Q (database_of_gw gw)) (db_of (services env)) (userID r')) \<and>
      (fst (route m path) = ObjDelete \<longrightarrow>
        spares (view Q (database_of_gw gw)) (db_of (services env)) (snd (route m path) ''id'') (userID r'))"
  shows "view Q (database_of_gw gw') = view Q (database_of_gw gw)"
proof -
  obtain hnd vals where rt: "route m path = (hnd, vals)" by fastforce
  let ?r = "r\<lparr>pathValue := vals\<rparr>"
  have served: "serve_request env app m path r gw = Some (out, gw')" by fact
  note kept = protected_sees [OF _ user]
  have answered: "view Q (database_of_gw gw') = view Q (database_of_gw gw)"
    if "protected env app (answer f) ?r gw = Some (out, gw')"
      "\<And>r'. hnd \<in> {ObjUpload, MultiComplete} \<longrightarrow>
          foreign Q (view Q (database_of_gw gw)) (db_of (services env)) (userID r') \<Longrightarrow>
        hnd = ObjDelete \<longrightarrow> spares (view Q (database_of_gw gw)) (db_of (services env)) (vals ''id'') (userID r') \<Longrightarrow>
        view Q (database_of_gw (snd (f (r'\<lparr>pathValue := vals\<rparr>) gw))) = view Q (database_of_gw gw)" for f
  proof (rule kept [OF that(1)])
    fix r' assume "(fst (route m path) \<in> {ObjUpload, MultiComplete} \<longrightarrow>
        foreign Q (view Q (database_of_gw gw)) (db_of (services env)) (userID r')) \<and>
      (fst (route m path) = ObjDelete \<longrightarrow>
        spares (view Q (database_of_gw gw)) (db_of (services env)) (snd (route m path) ''id'') (userID r'))"
      and a: "answer f (r'\<lparr>pathValue := vals\<rparr>) gw = Some (out, gw')"
    then have "view Q (database_of_gw (snd (f (r'\<lparr>pathValue := vals\<rparr>) gw))) = view Q (database_of_gw gw)"
      by (intro that(2)) (simp_all add: rt)
    from answer_sees [OF a this] show "view Q (database_of_gw gw') = view Q (database_of_gw gw)" .
  qed
  note serve = serve_request_def rt Let_def on_database_def split_beta
  show ?thesis
  proof (cases hnd)
    case AuthRegister
    with served Register_sees [OF assms(4)] show ?thesis by (auto simp: serve)
  next
    case AuthLogin
    with served view_tables [OF Login_tables] show ?thesis by (auto simp: serve)
  next
    case NodesRegister
    with served nodes_register_sees show ?thesis by (auto simp: serve)
  next
    case ObjUpload
    then have "protected env app (Upload (services env) (uploading env) (objectHandler app)) ?r gw = Some (out, gw')"
      using served by (simp add: serve)
    then show ?thesis by (rule kept) (erule Upload_sees [OF _ assms(3)], simp add: rt ObjUpload)
  next
    case ObjList
    with served show ?thesis by (intro answered [of "List (services env)"] handlers_see) (simp add: serve)
  next
    case ObjDownload
    with served show ?thesis
      by (intro answered [of "Download (services env) (objectHandler app)"] handlers_see) (simp add: serve)
  next
    case ObjDelete
    with served show ?thesis
      by (intro answered [of "Delete (services env) (call_sched env)"] Delete_sees [OF _ assms(2)]) (simp_all add: serve ObjDelete)
  next
    case MultiInit
    with served show ?thesis by (intro answered [of "InitMultipart (services env)"] handlers_see) (simp add: serve)
  next
    case MultiPart
    with served show ?thesis
      by (intro answered [of "UploadPart (services env) (call_sched env) (part_ring env) (part_rand env) (objectHandler app)"]
          handlers_see) (simp add: serve)
  next
    case MultiComplete
    with served show ?thesis
      by (intro answered [of "CompleteMultipart (services env)"] CompleteMultipart_sees [OF _ assms(3)]) (simp_all add: serve MultiComplete)
  qed (use served in \<open>auto simp: serve\<close>)
qed

section \<open>Properties\<close>

text \<open>
  C19: the routes are unambiguous. When several routes match a request, one of them is strictly more
  specific than all others, and it is the one that serves it, with the values of its wildcards;
  a request that no route matches goes to the file server.
\<close>

theorem route_most_specific:
  "case filter (matches m path) routes of
     [] \<Rightarrow> fst (route m path) = FileServer
   | _ \<Rightarrow> \<exists>p \<in> set routes. matches m path p \<and> fst (route m path) = snd (snd p) \<and>
       Some (snd (route m path)) = map_option (map_get '''') (match_segments (fst (snd p)) path) \<and>
       (\<forall>q \<in> set routes. matches m path q \<and> q \<noteq> p \<longrightarrow> at_least_as_specific p q \<and> \<not> at_least_as_specific q p)"
proof (cases "filter (matches m path) routes = []")
  case True
  then show ?thesis by (simp add: route_def)
next
  case False
  let ?ps = "filter (matches m path) routes"
  have cmp: "p = q \<or> at_least_as_specific p q \<noteq> at_least_as_specific q p" if "p \<in> set ?ps" "q \<in> set ?ps" for p q
    using routes_comparable [of p q m path] that by simp
  have "\<exists>p \<in> set ?ps. \<forall>q \<in> set ?ps. at_least_as_specific p q"
  proof (rule most_specific_exists [OF _ False], intro ballI)
    fix p q assume "p \<in> set ?ps" "q \<in> set ?ps"
    from cmp [OF this] specific_refl [of p] show "at_least_as_specific p q \<or> at_least_as_specific q p" by auto
  qed
  from find_exists [OF this] obtain p where p': "p \<in> set ?ps" "\<forall>q \<in> set ?ps. at_least_as_specific p q"
    and p: "List.find (\<lambda>p. \<forall>q \<in> set ?ps. at_least_as_specific p q) ?ps = Some p" by blast
  have "snd (snd p) = fst (route m path) \<and>
      Some (snd (route m path)) = map_option (map_get '''') (match_segments (fst (snd p)) path)"
    using p p'(1) by (cases p) (auto simp: route_def Let_def matches_def split: option.split)
  moreover have "\<forall>q \<in> set routes. matches m path q \<and> q \<noteq> p \<longrightarrow> at_least_as_specific p q \<and> \<not> at_least_as_specific q p"
  proof (intro ballI impI)
    fix q assume "q \<in> set routes" and q: "matches m path q \<and> q \<noteq> p"
    then have "q \<in> set ?ps" by simp
    with p' cmp [OF p'(1) this] q show "at_least_as_specific p q \<and> \<not> at_least_as_specific q p" by blast
  qed
  ultimately show ?thesis using p'(1) False by (auto split: list.split)
qed

text \<open>
  C15: without credentials nothing happens. A request that carries neither a token that \<open>RequireAuth\<close>
  accepts nor the cluster secret is always answered; it does not reach a storage node, and
  the only thing it can change is to register a new user.
\<close>

theorem outsider_harmless:
  assumes "RequireAuth (jwt_of (accounts env)) (JWTSecret (authHandler app)) (parse_clock env) r = Inl e"
    and "reqHeader r ''X-Cluster-Token'' \<noteq> infraSecret app" "meanwhile env = id"
  shows "\<exists>w db. serve_request env app m path r gw = Some (Response w, gw\<lparr>database_of_gw := db\<rparr>) \<and>
    users_grow (database_of_gw gw) db \<and> (fst (route m path) \<noteq> AuthRegister \<longrightarrow> same_tables (database_of_gw gw) db)"
proof -
  obtain hnd vals where rt: "route m path = (hnd, vals)" by fastforce
  let ?r = "r\<lparr>pathValue := vals\<rparr>"
  have auth: "RequireAuth (jwt_of (accounts env)) (JWTSecret (authHandler app)) (parse_clock env) ?r = Inl e"
    using assms(1) by (simp add: RequireAuth_pathValue)
  have unchanged: "\<exists>db. gw = gw\<lparr>database_of_gw := db\<rparr> \<and> users_grow (database_of_gw gw) db \<and>
      (hnd \<noteq> AuthRegister \<longrightarrow> same_tables (database_of_gw gw) db)"
    by (rule exI [of _ "database_of_gw gw"]) (simp add: users_grow_same)
  have protected: "protected env app f ?r gw = Some (Response e, gw)" for f
    by (simp add: protected_def auth)
  show ?thesis
  proof (cases hnd)
    case AuthRegister
    with assms(3) Register_tables [of "database_of_gw gw" "accounts env" "authHandler app" ?r] show ?thesis
      by (auto simp: serve_request_def rt on_database_def Let_def split_beta)
  next
    case AuthLogin
    with Login_tables [of "database_of_gw gw" "accounts env" "authHandler app" ?r] show ?thesis
      by (auto simp: serve_request_def rt on_database_def Let_def split_beta users_grow_same)
  next
    case NodesRegister
    with assms(2) unchanged show ?thesis
      by (auto simp: serve_request_def rt on_database_def nodes_register_def RequireClusterSecret_def Let_def)
  qed (use unchanged protected in \<open>auto simp: serve_request_def rt Let_def\<close>)
qed

text \<open>
  C14: users cannot touch each other's objects. Whatever a request is and whatever fails while it
  is served, the objects of every user other than the one whose token it carries keep their
  rows, their chunks and the locations of those.
\<close>

theorem tenants_isolated:
  assumes "serve_request env app m path r gw = Some (out, gw')"
    and "db_inv (database_of_gw gw)" "uuids_ok (db_of (services env))"
    and "\<forall>db. tenant_view v (meanwhile env db) = tenant_view v db"
    and "\<forall>r'. RequireAuth (jwt_of (accounts env)) (JWTSecret (authHandler app)) (parse_clock env) r = Inr r' \<longrightarrow>
      uuid_in (db_of (services env)) (userID r') \<noteq> Some v"
  shows "tenant_view v (database_of_gw gw') = tenant_view v (database_of_gw gw)"
  by (rule serve_sees [OF assms(1-4)]) (use assms(5) foreign_user spares_user in blast)


section \<open>Concrete instances\<close>

definition app_plain :: app where
  "app_plain = \<lparr>authHandler = auth_plain_handler, objectHandler = handler3,
     ringManager = NewRingManager 50 ''s'' 2, infraSecret = ''s''\<rparr>"

definition serve_plain :: serve_env where
  "serve_plain = \<lparr>services = env_ok, accounts = auth_plain, parse_clock = 0, meanwhile = id, uploading = up_ok,
     call_sched = [], part_ring = ring3, part_rand = [], static_page = (\<lambda>r. new_response None)\<rparr>"

lemma route_delete: "route ''DELETE'' [''objects'', ''u''] = (ObjDelete, map_get '''' [''id'' \<mapsto> ''u''])"
  by (simp add: route_def routes_def matches_def method_matches_def at_least_as_specific_def)

lemma route_most_specific_witness:
  "fst (route ''POST'' [''multipart'', ''x'', ''complete'']) = MultiComplete"
proof -
  let ?path = "[''multipart'', ''x'', ''complete'']"
  let ?part = "(''POST'', [Lit ''multipart'', Wild ''upload_id'', Wild ''part_number''], MultiPart)"
  let ?done = "(''POST'', [Lit ''multipart'', Wild ''upload_id'', Lit ''complete''], MultiComplete)"
  have f: "filter (matches ''POST'' ?path) routes = [?part, ?done]"
    by (simp add: routes_def matches_def method_matches_def)
  have R: "p \<in> {?part, ?done} \<longleftrightarrow> p \<in> set routes \<and> matches ''POST'' ?path p" for p
    using arg_cong [OF f, of set] by auto
  from route_most_specific [of "''POST''" ?path, unfolded f list.case] obtain p where
    p: "p \<in> set routes" "matches ''POST'' ?path p" "fst (route ''POST'' ?path) = snd (snd p)"
    and best: "\<forall>q \<in> set routes. matches ''POST'' ?path q \<and> q \<noteq> p \<longrightarrow>
      at_least_as_specific p q \<and> \<not> at_least_as_specific q p"
    by (elim bexE conjE) (rule that)
  have "?done \<in> set routes \<and> matches ''POST'' ?path ?done" using R [of ?done] by simp
  with best have "p \<noteq> ?done \<longrightarrow> at_least_as_specific p ?done" by blast
  moreover have "\<not> at_least_as_specific ?part ?done" by (simp add: at_least_as_specific_def)
  moreover have "p = ?part \<or> p = ?done" using p(1,2) R [of p] by simp
  ultimately have "p = ?done" by metis
  with p(3) show ?thesis by simp
qed

text \<open>A request without a token cannot delete the object, and one with the token of another user cannot either.\<close>

lemma outsider_harmless_witness:
  "\<exists>w db. serve_request serve_plain app_plain ''DELETE'' [''objects'', ''u''] req_ok gw_twice =
     Some (Response w, gw_twice\<lparr>database_of_gw := db\<rparr>) \<and> same_tables (database_of_gw gw_twice) db"
proof -
  have "\<exists>e. RequireAuth (jwt_of (accounts serve_plain)) (JWTSecret (authHandler app_plain)) (parse_clock serve_plain) req_ok = Inl e"
    by (simp add: RequireAuth_def req_ok_def SplitN_2_def)
  then obtain e where e: "RequireAuth (jwt_of (accounts serve_plain)) (JWTSecret (authHandler app_plain))
      (parse_clock serve_plain) req_ok = Inl e" ..
  have "reqHeader req_ok ''X-Cluster-Token'' \<noteq> infraSecret app_plain" "meanwhile serve_plain = id"
    by (simp_all add: req_ok_def app_plain_def serve_plain_def)
  from outsider_harmless [OF e this, of "''DELETE''" "[''objects'', ''u'']" gw_twice] show ?thesis
    by (auto simp: route_delete)
qed

lemma tenants_isolated_witness:
  "\<exists>out gw'. serve_request serve_plain app_plain ''DELETE'' [''objects'', ''u'']
     (req_ok\<lparr>reqHeader := (\<lambda>x. ''Bearer kx'')\<rparr>) gw_twice = Some (out, gw') \<and>
     tenant_view '''' (database_of_gw gw') = tenant_view '''' (database_of_gw gw_twice)"
proof -
  let ?r = "req_ok\<lparr>reqHeader := (\<lambda>x. ''Bearer kx'')\<rparr>"
  have a: "RequireAuth (jwt_of (accounts serve_plain)) (JWTSecret (authHandler app_plain)) (parse_clock serve_plain) ?r =
      Inr (?r\<lparr>userID := ''x''\<rparr>)"
    by (simp add: RequireAuth_def SplitN_2_def jwt_plain_def key_func_def serve_plain_def app_plain_def auth_plain_def
        auth_plain_handler_def)
  obtain out gw' where s: "serve_request serve_plain app_plain ''DELETE'' [''objects'', ''u''] ?r gw_twice = Some (out, gw')"
    by (simp add: serve_request_def route_delete protected_def RequireAuth_pathValue a answer_def split_beta)
  have "uuids_ok (db_of (services serve_plain))" "uuid_in (db_of (services serve_plain)) ''x'' \<noteq> Some ''''"
    "meanwhile serve_plain = id"
    by (simp_all add: serve_plain_def env3_simps)
  with tenants_isolated [OF s gw_twice_ok(1), of "''''"] a s show ?thesis by auto
qed

end
