(* ===== verification/Multipart.thy ===== *)
theory Multipart imports ObjectStore begin

text \<open>
  A multipart upload from its start to the download of the object it makes: \<open>InitMultipart\<close>, any number of
  \<open>UploadPart\<close> requests, \<open>CompleteMultipart\<close> and \<open>Download\<close> of
  \<open>internal/api/object_handler.go\<close>. The file shows that the object consists of the parts in the order
  of their numbers.
\<close>

section \<open>A client's requests\<close>

text \<open>
  The requests for the parts one after the other, each with the schedule of its saves, the ring
  it reads and the random bytes it gets, and their answers.
\<close>

type_synonym part_sending = "(nat \<times> nat) list \<times> HashRing \<times> bytes \<times> request"

fun upload_parts ::
  "gw_env \<Rightarrow> ObjectHandler \<Rightarrow> part_sending list \<Rightarrow> gateway \<Rightarrow> http_response list \<times> gateway" where
  "upload_parts env h [] gw = ([], gw)"
| "upload_parts env h ((sched, rg, rand, r) # rs) gw =
     (let (w, gw) = UploadPart env sched rg rand h r gw;
          (ws, gw) = upload_parts env h rs gw
      in (w # ws, gw))"

text \<open>The number of a part and what is read of its body.\<close>

definition part_of :: "ObjectHandler \<Rightarrow> request \<Rightarrow> int \<times> bytes" where
  "part_of h r = (Sscanf_d (pathValue r ''part_number''),
     fst (ReadAll_limited (wrap64 (ChunkSizeMB h * 1024 * 1024 + 1024)) (reqBody r) (reqEnd r)))"

definition parts_of :: "ObjectHandler \<Rightarrow> part_sending list \<Rightarrow> (int \<times> bytes) list" where
  "parts_of h rs = map (\<lambda>(sched, rg, rand, r). part_of h r) rs"

section \<open>The metadata of a part\<close>

lemma insert_mp_locations_ok:
  assumes "insert_mp_locations env u i ns db = (Inr (), db')" "uuid_in env u = Some ui"
  shows "distinct ns \<and> (\<exists>k. db' = db\<lparr>multipart_chunk_locations := multipart_chunk_locations db @ map (\<lambda>n. (ui, i, n)) ns,
    stmt_no := k\<rparr>)"
  using assms(1)
proof (induction ns arbitrary: db)
  case Nil
  then show ?case by (auto intro: exI [of _ "stmt_no db"])
next
  case (Cons n ns)
  then obtain db1 where t: "tx_stmt env (insert_mp_location env u i n) db = (Inr (), db1)"
    "insert_mp_locations env u i ns db1 = (Inr (), db')"
    by (auto simp: tx_then_ok)
  from t(1) assms(2) have db1: "(ui, i, n) \<notin> set (multipart_chunk_locations db)"
    "db1 = db\<lparr>stmt_no := Suc (stmt_no db), multipart_chunk_locations := multipart_chunk_locations db @ [(ui, i, n)]\<rparr>"
    by (auto simp: tx_stmt_ok insert_mp_location_def split: if_splits)
  have fresh: "(ui, i, m) \<notin> set (multipart_chunk_locations db)" if "m \<in> set ns" "insert_mp_locations env u i ns db = (Inr (), d)" for m ns db d
    using that
  proof (induction ns arbitrary: db)
    case (Cons x xs)
    then obtain db1 where "tx_stmt env (insert_mp_location env u i x) db = (Inr (), db1)"
      "insert_mp_locations env u i xs db1 = (Inr (), d)" by (auto simp: tx_then_ok)
    with Cons assms(2) show ?case
      by (fastforce simp: tx_stmt_ok insert_mp_location_def split: if_splits)
  qed simp
  from Cons.IH [OF t(2)] obtain k where IH: "distinct ns"
    "db' = db1\<lparr>multipart_chunk_locations := multipart_chunk_locations db1 @ map (\<lambda>n. (ui, i, n)) ns, stmt_no := k\<rparr>" by blast
  have "n \<notin> set ns" using fresh [OF _ t(2), of n] db1(2) by auto
  with IH db1(2) show ?case by auto
qed

lemma CreateMultipartChunk_ok:
  assumes "CreateMultipartChunk env u i h s ns db = (Inr v, db')"
  shows "\<exists>ui. uuid_in env u = Some ui \<and> (ui, i) \<notin> key_of_mp_chunk ` set (multipart_chunks db) \<and> distinct ns \<and>
    (\<exists>k. db' = db\<lparr>multipart_chunks := multipart_chunks db @
         [\<lparr>mc_UploadID = ui, mc_ChunkIndex = i, mc_Hash = h, mc_SizeBytes = s\<rparr>],
       multipart_chunk_locations := multipart_chunk_locations db @ map (\<lambda>n. (ui, i, n)) ns, stmt_no := k\<rparr>)"
proof -
  from assms obtain d1 d2 where
    s1: "tx_stmt env (insert_mp_chunk env u i h s) (db\<lparr>stmt_no := Suc (stmt_no db)\<rparr>) = (Inr (), d1)"
    and s2: "insert_mp_locations env u i ns d1 = (Inr (), d2)" and db': "db' = d2\<lparr>stmt_no := Suc (stmt_no d2)\<rparr>"
    by (auto simp: CreateMultipartChunk_def transaction_ok tx_then_ok)
  from s1 obtain ui where u: "uuid_in env u = Some ui" "(ui, i) \<notin> key_of_mp_chunk ` set (multipart_chunks db)"
    and d1: "d1 = db\<lparr>stmt_no := Suc (Suc (stmt_no db)), multipart_chunks := multipart_chunks db @
         [\<lparr>mc_UploadID = ui, mc_ChunkIndex = i, mc_Hash = h, mc_SizeBytes = s\<rparr>]\<rparr>"
    by (auto simp: tx_stmt_ok insert_mp_chunk_def key_of_mp_chunk_def [abs_def] split: option.splits if_splits)
  from insert_mp_locations_ok [OF s2 u(1)] obtain k where "distinct ns"
    "d2 = d1\<lparr>multipart_chunk_locations := multipart_chunk_locations d1 @ map (\<lambda>n. (ui, i, n)) ns, stmt_no := k\<rparr>" by blast
  with u d1 db' show ?thesis by auto
qed

section \<open>The parts that are stored\<close>

definition part_row :: "int \<times> bytes \<Rightarrow> int \<times> string \<times> int" where
  "part_row p = (fst p, sha256hex (snd p), int (length (snd p)))"

definition part_held :: "gw_env \<Rightarrow> ObjectHandler \<Rightarrow> uuid \<Rightarrow> gateway \<Rightarrow> int \<times> bytes \<Rightarrow> bool" where
  "part_held env h ui gw p \<longleftrightarrow>
     (let as = mp_locations (database_of_gw gw) ui (fst p)
      in distinct as \<and> quorum h \<le> int (length as) \<and> (\<forall>a \<in> set as. replica_ok env h (cluster_of_gw gw) (snd p) a))"

definition parts_stored :: "gw_env \<Rightarrow> ObjectHandler \<Rightarrow> uuid \<Rightarrow> (int \<times> bytes) list \<Rightarrow> gateway \<Rightarrow> bool" where
  "parts_stored env h ui ps gw \<longleftrightarrow>
     map (\<lambda>m. (mc_ChunkIndex m, mc_Hash m, mc_SizeBytes m)) (chunks_of_upload (database_of_gw gw) ui) = map part_row ps \<and>
     (\<forall>p \<in> set ps. part_held env h ui gw p)"

lemma UploadPart_200:
  assumes "UploadPart env sched rg rand h r gw = (w, gw')" "status_code w = 200" "part_of h r = (n, d)"
  shows "d \<noteq> [] \<and> (\<exists>sealed succ errs c db v. Encrypt rand (snappy_Encode (snappy_of env) d) (EncryptionKey h) = Inr sealed \<and>
    client_SaveChunk (net_of env) sched (GetNodes rg (sha256hex d) (ReplicationFactor h)) (sha256hex d) sealed
      (cluster_of_gw gw) = ((succ, errs), c) \<and> quorum h \<le> int (length succ) \<and>
    CreateMultipartChunk (db_of env) (pathValue r ''upload_id'') n (sha256hex d) (int (length d)) succ (database_of_gw gw)
      = (Inr v, db) \<and> gw' = \<lparr>cluster_of_gw = c, database_of_gw = db\<rparr>)"
proof -
  obtain ok where l: "ReadAll_limited (wrap64 (ChunkSizeMB h * 1024 * 1024 + 1024)) (reqBody r) (reqEnd r) = (d, ok)"
    "n = Sscanf_d (pathValue r ''part_number'')"
    using assms(3) by (cases "ReadAll_limited (wrap64 (ChunkSizeMB h * 1024 * 1024 + 1024)) (reqBody r) (reqEnd r)")
      (simp add: part_of_def)
  show ?thesis
    using assms(1,2) l
    by (auto simp: UploadPart_def Let_def split: if_splits sum.splits prod.splits)
qed

lemma replica_ok_holds_in:
  "replica_ok env h c d a \<longleftrightarrow>
     holds_in c a (sha256hex d) {e. \<exists>rand. Encrypt rand (snappy_Encode (snappy_of env) d) (EncryptionKey h) = Inr e}"
  by (auto simp: replica_ok_def holds_in_def)

text \<open>Saving one chunk leaves the replicas of another one, or of the same one on disks that do not cut writes short.\<close>

lemma replica_ok_SaveChunk:
  assumes "replica_ok env h c d' a"
    and "Encrypt rand (snappy_Encode (snappy_of env) d) (EncryptionKey h) = Inr sealed"
    and "sha256hex d' = sha256hex d \<longrightarrow> d' = d \<and> \<not> torn (net_of env) a"
    and "client_SaveChunk (net_of env) sched as (sha256hex d) sealed c = (r, c')"
  shows "replica_ok env h c' d' a"
proof -
  let ?D = "{e. \<exists>rand. Encrypt rand (snappy_Encode (snappy_of env) d') (EncryptionKey h) = Inr e}"
  let ?cs = "map (\<lambda>a. (a, ReqSave (sha256hex d) sealed)) as"
  have "\<forall>cl \<in> set ?cs. replaces (net_of env) cl a (sha256hex d') ?D"
    using assms(2,3) by (auto simp: replaces_def sha256hex_plain)
  from fan_out_holds_in [OF sha256hex_plain this] assms(1)
  have "replica_ok env h (snd (snd (fan_out (net_of env) ?cs sched c))) d' a" by (simp add: replica_ok_holds_in)
  with assms(4) show ?thesis by (auto simp: client_SaveChunk_def Let_def split: prod.splits)
qed

lemma mp_locations_add:
  "mp_locations (db\<lparr>multipart_chunks := ms, multipart_chunk_locations := multipart_chunk_locations db @ map (\<lambda>n. (ui, i, n)) ns,
      stmt_no := k\<rparr>) uj x =
   mp_locations db uj x @ (if uj = ui \<and> x = i then ns else [])"
  by (auto simp: mp_locations_def comp_def filter_map case_prod_beta)

lemma mp_locations_none:
  assumes "db_inv db" "(ui, i) \<notin> key_of_mp_chunk ` set (multipart_chunks db)"
  shows "mp_locations db ui i = []"
proof -
  have "(\<lambda>(u, i, a). (u, i)) ` set (multipart_chunk_locations db) \<subseteq> key_of_mp_chunk ` set (multipart_chunks db)"
    using assms(1) by (simp add: db_inv_def uploads_inv_def)
  with assms(2) show ?thesis by (force simp: mp_locations_def filter_empty_conv)
qed

text \<open>A part may be saved again under its name only where no disk cuts a write short.\<close>

definition part_fits :: "net_env \<Rightarrow> (int \<times> bytes) list \<Rightarrow> bytes \<Rightarrow> bool" where
  "part_fits net ps d \<longleftrightarrow> (\<forall>p \<in> set ps. sha256hex (snd p) = sha256hex d \<longrightarrow> snd p = d \<and> (\<forall>a. \<not> torn net a))"

lemma UploadPart_stored:
  assumes "UploadPart env sched rg rand h r gw = (w, gw')" "status_code w = 200" "part_of h r = p"
    and "parts_stored env h ui ps gw" "db_inv (database_of_gw gw)"
    and "uuid_in (db_of env) (pathValue r ''upload_id'') = Some ui" "ring_wf rg" "part_fits (net_of env) ps (snd p)"
  shows "parts_stored env h ui (ps @ [p]) gw' \<and> db_inv (database_of_gw gw')"
proof -
  obtain n d where p: "p = (n, d)" by fastforce
  let ?db = "database_of_gw gw" and ?as = "GetNodes rg (sha256hex d) (ReplicationFactor h)"
  obtain sealed succ errs c db v where e: "Encrypt rand (snappy_Encode (snappy_of env) d) (EncryptionKey h) = Inr sealed"
    and sv: "client_SaveChunk (net_of env) sched ?as (sha256hex d) sealed (cluster_of_gw gw) = ((succ, errs), c)"
    and q: "quorum h \<le> int (length succ)"
    and m: "CreateMultipartChunk (db_of env) (pathValue r ''upload_id'') n (sha256hex d) (int (length d)) succ ?db = (Inr v, db)"
    and gw': "gw' = \<lparr>cluster_of_gw = c, database_of_gw = db\<rparr>"
    using UploadPart_200 [OF assms(1,2) assms(3) [unfolded p]] by blast
  obtain k where new: "(ui, n) \<notin> key_of_mp_chunk ` set (multipart_chunks ?db)" "distinct succ"
    and db: "db = ?db\<lparr>multipart_chunks := multipart_chunks ?db @
         [\<lparr>mc_UploadID = ui, mc_ChunkIndex = n, mc_Hash = sha256hex d, mc_SizeBytes = int (length d)\<rparr>],
       multipart_chunk_locations := multipart_chunk_locations ?db @ map (\<lambda>a. (ui, n, a)) succ, stmt_no := k\<rparr>"
    using CreateMultipartChunk_ok [OF m] assms(6) by auto
  have locs: "mp_locations db ui x = mp_locations ?db ui x @ (if x = n then succ else [])" for x
    by (simp add: db mp_locations_add)
  note held = SaveChunk_success [OF sv distinct_GetNodes [OF assms(7)] sha256hex_plain]
  have "part_held env h ui gw' (n, d)"
    using held q new(2) e by (auto simp: part_held_def gw' locs mp_locations_none [OF assms(5) new(1)] replica_ok_def)
  moreover have "part_held env h ui gw' p'" if p': "p' \<in> set ps" for p'
  proof -
    have "part_row p' \<in> set (map (\<lambda>m. (mc_ChunkIndex m, mc_Hash m, mc_SizeBytes m)) (chunks_of_upload ?db ui))"
      using assms(4) p' by (simp add: parts_stored_def)
    then obtain m where "m \<in> set (multipart_chunks ?db)" "mc_UploadID m = ui" "mc_ChunkIndex m = fst p'"
      by (auto simp: chunks_of_upload_def part_row_def)
    then have "(ui, fst p') \<in> key_of_mp_chunk ` set (multipart_chunks ?db)"
      by (intro image_eqI [of _ _ m]) (simp_all add: key_of_mp_chunk_def)
    with new(1) have "fst p' \<noteq> n" by auto
    moreover have "part_held env h ui gw p'" using assms(4) p' by (simp add: parts_stored_def)
    moreover have "replica_ok env h c (snd p') a" if "replica_ok env h (cluster_of_gw gw) (snd p') a" for a
      using replica_ok_SaveChunk [OF that e _ sv] assms(8) p' p by (auto simp: part_fits_def)
    ultimately show ?thesis by (auto simp: part_held_def gw' locs Let_def)
  qed
  moreover have "map (\<lambda>m. (mc_ChunkIndex m, mc_Hash m, mc_SizeBytes m)) (chunks_of_upload db ui) = map part_row (ps @ [p])"
    using assms(4) by (simp add: parts_stored_def chunks_of_upload_def db p part_row_def)
  moreover have "db_inv db"
    using inv_CreateMultipartChunk [OF assms(5), of "db_of env" "pathValue r ''upload_id''" n "sha256hex d" "int (length d)" succ] m
    by simp
  ultimately show ?thesis by (auto simp: parts_stored_def gw' p)
qed


text \<open>The parts of a whole sequence of requests, none of which spoils an earlier one.\<close>

fun parts_fit :: "net_env \<Rightarrow> (int \<times> bytes) list \<Rightarrow> (int \<times> bytes) list \<Rightarrow> bool" where
  "parts_fit net done [] \<longleftrightarrow> True"
| "parts_fit net done (p # ps) \<longleftrightarrow> part_fits net done (snd p) \<and> parts_fit net (done @ [p]) ps"

lemma upload_parts_stored:
  assumes "upload_parts env h rs gw = (ws, gw')" "\<forall>w \<in> set ws. status_code w = 200"
    and "parts_stored env h ui ps gw" "db_inv (database_of_gw gw)"
    and "\<forall>(sched, rg, rand, r) \<in> set rs. ring_wf rg \<and> uuid_in (db_of env) (pathValue r ''upload_id'') = Some ui"
    and "parts_fit (net_of env) ps (parts_of h rs)"
  shows "parts_stored env h ui (ps @ parts_of h rs) gw' \<and> db_inv (database_of_gw gw')"
  using assms
proof (induction rs arbitrary: gw ws ps)
  case Nil
  then show ?case by (simp add: parts_of_def)
next
  case (Cons q rs)
  obtain sched rg rand r where q: "q = (sched, rg, rand, r)" by (metis prod_cases4)
  obtain w gw1 where u: "UploadPart env sched rg rand h r gw = (w, gw1)" by fastforce
  obtain ws1 where rest: "upload_parts env h rs gw1 = (ws1, gw')" "ws = w # ws1"
    using Cons.prems(1) u by (cases "upload_parts env h rs gw1") (simp add: q)
  have p: "parts_of h (q # rs) = part_of h r # parts_of h rs" by (simp add: parts_of_def q)
  have "parts_stored env h ui (ps @ [part_of h r]) gw1 \<and> db_inv (database_of_gw gw1)"
    using UploadPart_stored [OF u _ refl Cons.prems(3,4)] Cons.prems(2,5,6) rest(2) p q by simp
  with Cons.IH [OF rest(1), of "ps @ [part_of h r]"] Cons.prems(2,5,6) rest(2) p show ?case by simp
qed

section \<open>Completing the upload\<close>

lemma CompleteMultipart_200:
  assumes "CompleteMultipart env r gw = (w, gw')" "status_code w = 200"
  shows "\<exists>oid. CompleteMultipartUpload (db_of env) (pathValue r ''upload_id'') (userID r) (database_of_gw gw)
      = (Inr oid, database_of_gw gw') \<and> cluster_of_gw gw' = cluster_of_gw gw"
  using assms by (auto simp: CompleteMultipart_def Let_def split: prod.splits sum.splits)

text \<open>Two lists with the same rows, each sorted by the first column.\<close>

lemma sort_rows:
  assumes "map f xs = map k ys" "\<And>x. fst (f x) = g x" "\<And>y. fst (k y) = j y"
  shows "map f (sort_key g xs) = map k (sort_key j ys)"
proof -
  have gj: "g = fst \<circ> f" "j = fst \<circ> k" using assms(2,3) by auto
  have "map f (sort_key g xs) = sort_key fst (map f xs)" unfolding gj by (rule map_sort_key)
  also have "\<dots> = sort_key fst (map k ys)" by (simp only: assms(1))
  also have "\<dots> = map k (sort_key j ys)" unfolding gj by (rule map_sort_key [symmetric])
  finally show ?thesis .
qed

lemma map_eq_nth:
  assumes "map f xs = map k ys"
  shows "length xs = length ys" and "i < length xs \<Longrightarrow> f (xs ! i) = k (ys ! i)"
proof -
  show len: "length xs = length ys" using map_eq_imp_length_eq [OF assms] .
  show "f (xs ! i) = k (ys ! i)" if "i < length xs"
    using arg_cong [OF assms, of "\<lambda>zs. zs ! i"] that len by simp
qed

lemma complete_stored:
  assumes "CompleteMultipart env r gw = (w, gw')" "status_code w = 200" "parts_stored env h ui ps gw"
    and "db_inv (database_of_gw gw)" "uuids_ok (db_of env)"
    and "uuid_in (db_of env) (pathValue r ''upload_id'') = Some ui"
  shows "objects (database_of_gw gw') = objects (database_of_gw gw) @ [last_object gw'] \<and>
    uuid_in (db_of env) (userID r) = Some (obj_UserID (last_object gw')) \<and>
    obj_SizeBytes (last_object gw') = int (length (concat (map snd ps))) \<and>
    chunks_stored env h (obj_ID (last_object gw')) (map snd (sort_key fst ps)) gw'"
proof -
  let ?db = "database_of_gw gw" and ?db' = "database_of_gw gw'"
  obtain oid where c: "CompleteMultipartUpload (db_of env) (pathValue r ''upload_id'') (userID r) ?db = (Inr oid, ?db')"
    and cl: "cluster_of_gw gw' = cluster_of_gw gw" using CompleteMultipart_200 [OF assms(1,2)] by blast
  obtain uu ob where u: "uuid_in (db_of env) (userID r) = Some uu"
    and ob: "objects ?db' = objects ?db @ [ob]" "obj_ID ob = oid" "obj_UserID ob = uu"
      "obj_SizeBytes ob = sum_list (map mc_SizeBytes (chunks_of_upload ?db ui))"
    and rows: "map (\<lambda>c. (ch_ChunkIndex c, ch_Hash c, ch_SizeBytes c, locations_of ?db' (ch_ID c)))
        (filter (\<lambda>c. ch_ObjectID c = oid) (chunks ?db')) =
      map (\<lambda>m. (mc_ChunkIndex m, mc_Hash m, mc_SizeBytes m, mp_locations ?db ui (mc_ChunkIndex m)))
        (chunks_of_upload ?db ui)"
    using complete_moves [OF assms(4,5) c] assms(6) by auto
  have parts: "map (\<lambda>m. (mc_ChunkIndex m, mc_Hash m, mc_SizeBytes m)) (chunks_of_upload ?db ui) = map part_row ps"
    and held: "\<And>p. p \<in> set ps \<Longrightarrow> part_held env h ui gw p"
    using assms(3) by (simp_all add: parts_stored_def)
  have "map mc_SizeBytes (chunks_of_upload ?db ui) = map (int \<circ> length) (map snd ps)"
    using arg_cong [OF parts, of "map (\<lambda>x. snd (snd x))"] by (simp add: part_row_def comp_def)
  then have size: "obj_SizeBytes ob = int (length (concat (map snd ps)))"
    using ob(4) by (simp only: sum_lengths)
  let ?row = "\<lambda>c. (ch_ChunkIndex c, ch_Hash c, ch_SizeBytes c, locations_of ?db' (ch_ID c))"
  let ?prow = "\<lambda>p. (fst p, sha256hex (snd p), int (length (snd p)), mp_locations ?db ui (fst p))"
  have "map ?row (filter (\<lambda>c. ch_ObjectID c = oid) (chunks ?db')) =
      map (\<lambda>(i, h, s). (i, h, s, mp_locations ?db ui i)) (map part_row ps)"
    unfolding rows parts [symmetric] by (simp add: comp_def)
  also have "\<dots> = map ?prow ps" by (simp add: part_row_def comp_def)
  finally have "map ?row (object_chunks ?db' oid) = map ?prow (sort_key fst ps)"
    unfolding object_chunks_def by (rule sort_rows) simp_all
  note row = map_eq_nth [OF this]
  have len: "length (object_chunks ?db' oid) = length ps" using row(1) by simp
  have nth: "?row (object_chunks ?db' oid ! i) = ?prow (sort_key fst ps ! i)" if "i < length ps" for i
    using row(2) [of i] that len by simp
  have "chunks_stored env h oid (map snd (sort_key fst ps)) gw'"
    unfolding chunks_stored_def Let_def
  proof (intro conjI allI impI)
    show "length (object_chunks ?db' oid) = length (map snd (sort_key fst ps))" by (simp add: len)
    fix i assume "i < length (map snd (sort_key fst ps))"
    then have i: "i < length ps" by simp
    let ?p = "sort_key fst ps ! i"
    have "?p \<in> set (sort_key fst ps)" using i by (intro nth_mem) simp
    then have "part_held env h ui gw ?p" using held by simp
    with nth [OF i] i show
      "ch_Hash (object_chunks ?db' oid ! i) = sha256hex (map snd (sort_key fst ps) ! i)"
      "ch_SizeBytes (object_chunks ?db' oid ! i) = int (length (map snd (sort_key fst ps) ! i))"
      "distinct (locations_of ?db' (ch_ID (object_chunks ?db' oid ! i)))"
      "quorum h \<le> int (length (locations_of ?db' (ch_ID (object_chunks ?db' oid ! i))))"
      "\<forall>a \<in> set (locations_of ?db' (ch_ID (object_chunks ?db' oid ! i))).
         replica_ok env h (cluster_of_gw gw') (map snd (sort_key fst ps) ! i) a"
      by (simp_all add: part_held_def cl Let_def)
  qed
  with ob u size show ?thesis by (simp add: last_object_def)
qed

section \<open>Starting the upload\<close>

definition last_upload :: "gateway \<Rightarrow> uuid" where
  "last_upload gw = mu_ID (last (multipart_uploads (database_of_gw gw)))"

lemma InitMultipart_200:
  assumes "InitMultipart env r gw = (w, gw')" "status_code w = 200" "db_inv (database_of_gw gw)"
  shows "parts_stored env h (last_upload gw') [] gw' \<and> db_inv (database_of_gw gw')"
proof -
  let ?db = "database_of_gw gw"
  obtain req where req: "decode_struct [''filename'', ''content_type''] (reqJson r) = Some req"
    using assms(1,2) by (cases "decode_struct [''filename'', ''content_type''] (reqJson r)") (auto simp: InitMultipart_def)
  let ?fn = "map_get '''' req ''filename''" and ?ct = "map_get '''' req ''content_type''"
  obtain v db where c: "CreateMultipartUpload (db_of env) (userID r) ?fn ?ct ?db = (v, db)" by fastforce
  have gw': "gw' = gw\<lparr>database_of_gw := db\<rparr>" and "\<exists>ui. v = Inr ui"
    using assms(1,2) by (auto simp: InitMultipart_def req c Let_def split: sum.splits)
  then obtain ui where v: "v = Inr ui" by blast
  obtain uu where u: "ui \<notin> mu_ID ` set (multipart_uploads ?db)" "multipart_chunks db = multipart_chunks ?db"
    "multipart_uploads db = multipart_uploads ?db @
       [\<lparr>mu_ID = ui, mu_UserID = uu, mu_Filename = ?fn, mu_ContentType = ?ct\<rparr>]"
    using c unfolding v CreateMultipartUpload_def exec_stmt_ok
    by (auto simp: Let_def split: option.splits if_splits)
  have "mc_UploadID ` set (multipart_chunks ?db) \<subseteq> mu_ID ` set (multipart_uploads ?db)"
    using assms(3) by (simp add: db_inv_def uploads_inv_def)
  with u have "chunks_of_upload db ui = []" by (auto simp: chunks_of_upload_def filter_empty_conv)
  moreover have "db_inv db" using inv_CreateMultipartUpload [OF assms(3), of "db_of env" "userID r" ?fn ?ct] c by simp
  ultimately show ?thesis using u by (simp add: parts_stored_def last_upload_def gw')
qed

section \<open>Properties\<close>


section \<open>Concrete instances\<close>

text \<open>One node; two parts with the same content, of which the second is sent first.\<close>

definition ring1 :: HashRing where
  "ring1 = \<lparr>vNodes = 1, keys = [1], ring = [1 \<mapsto> ''n1''], nodesMap = [''n1'' \<mapsto> True]\<rparr>"

definition handler1 :: ObjectHandler where
  "handler1 = handler3\<lparr>ReplicationFactor := 1\<rparr>"

definition part_request_of :: "string \<Rightarrow> bytes \<Rightarrow> request" where
  "part_request_of n d = req_ok\<lparr>reqBody := d,
     pathValue := (\<lambda>x. if x = ''part_number'' then n else ''u'')\<rparr>"

definition parts_example :: "part_sending list" where
  "parts_example = [([], ring1, replicate 12 7, part_request_of ''2'' [1, 2]),
     ([], ring1, replicate 12 8, part_request_of ''1'' [1, 2])]"

lemma ring1_wf: "ran (ring ring1) = {''n1''}" "ring_wf ring1"
proof -
  show ran: "ran (ring ring1) = {''n1''}" by (simp add: ring1_def)
  then show "ring_wf ring1" by (simp add: ring_wf_def) (simp add: ring1_def)
qed

lemma handler1_simps: "quorum handler1 = 1" "aes_key_ok (EncryptionKey handler1)" "ReplicationFactor handler1 = 1"
  "ChunkSizeMB handler1 = 1" "wrap64 1049600 = 1049600"
  by (simp_all add: handler1_def handler3_def quorum_def go_div_def aes_key_ok_def wrap64_def)

lemma ring1_nodes: "GetNodes ring1 hash 1 = [''n1'']"
proof -
  have "set (GetNodes ring1 hash 1) \<subseteq> {''n1''}" using ringp.place_candidates [OF ring1_wf(2), of hash 1] by (simp add: ring1_wf)
  moreover have "length (GetNodes ring1 hash 1) = 1"
    using ringp.place_length [OF ring1_wf(2), of 1 hash] by (simp add: ring1_wf)
  ultimately show ?thesis by (cases "GetNodes ring1 hash 1") auto
qed

lemma UploadPart_one:
  assumes "part_of handler1 r = (n, d)" "d \<noteq> []" "length d \<le> 1049600" "reqEnd r = EndEOF" "reqBody r = d"
    and "12 \<le> length rand" "cluster_calm c A" "''n1'' \<in> A"
    and "CreateMultipartChunk db_ok (pathValue r ''upload_id'') n (sha256hex d) (int (length d)) [''n1''] db = (Inr v, db')"
  shows "\<exists>w c'. UploadPart env_ok sched ring1 rand handler1 r \<lparr>cluster_of_gw = c, database_of_gw = db\<rparr> =
      (w, \<lparr>cluster_of_gw = c', database_of_gw = db'\<rparr>) \<and> status_code w = 200 \<and> cluster_calm c' A \<and>
    dom (storage_nodes c') = dom (storage_nodes c)"
proof -
  obtain e where e: "Encrypt rand (snappy_Encode plain_snappy d) (EncryptionKey handler1) = Inr e"
    using Encrypt_live [OF handler1_simps(2) assms(6)] by blast
  obtain succ errs c' where s: "client_SaveChunk net_ok sched [''n1''] (sha256hex d) e c = ((succ, errs), c')"
    by (metis surj_pair)
  have "dom (storage_nodes c') = dom (storage_nodes c)"
    using dom_fan_out [of net_ok "[(''n1'', ReqSave (sha256hex d) e)]" sched c] s
    by (auto simp: client_SaveChunk_def Let_def split: prod.splits)
  moreover have "cluster_calm c' A" "mset succ = mset [''n1'']"
    using SaveChunk_calm [OF s net_calm_ok assms(7) sha256hex_plain] assms(8) by simp_all
  moreover from this have "succ = [''n1'']" by (metis mset_single_iff_right mset_zero_iff mset.simps)
  moreover have "ReadAll_limited 1049600 d EndEOF = (d, True)" using assms(3) by (simp add: ReadAll_limited_def)
  ultimately show ?thesis
    using assms(1-6,9) e s
    by (simp add: UploadPart_def part_of_def handler1_simps ring1_nodes env3_simps Let_def)
qed

lemma parts_example_ok:
  "part_of handler1 (part_request_of ''2'' [1, 2]) = (2, [1, 2])"
  "part_of handler1 (part_request_of ''1'' [1, 2]) = (1, [1, 2])"
  by (simp_all add: part_of_def part_request_of_def handler1_simps req_ok_def
      ReadAll_limited_def Sscanf_d_def digits_value_def is_digit_def code_def)

definition mp_db :: "nat \<Rightarrow> database" where
  "mp_db k = fold (db_run db_ok) (take k [CallCreateUser ''e'' ''p'', CallCreateMultipartUpload '''' '''' '''',
     CallCreateMultipartChunk ''u'' 2 (sha256hex [1, 2]) 2 [''n1''],
     CallCreateMultipartChunk ''u'' 1 (sha256hex [1, 2]) 2 [''n1''], CallCompleteMultipartUpload ''u'' '''']) empty_db"

lemma mp_db_steps:
  "database_of_gw gw3 = mp_db 1" "CreateMultipartUpload db_ok '''' '''' '''' (mp_db 1) = (Inr ''u'', mp_db 2)"
  "CreateMultipartChunk db_ok ''u'' 2 (sha256hex [1, 2]) 2 [''n1''] (mp_db 2) = (Inr (), mp_db 3)"
  "CreateMultipartChunk db_ok ''u'' 1 (sha256hex [1, 2]) 2 [''n1''] (mp_db 3) = (Inr (), mp_db 4)"
  "mu_ID (last (multipart_uploads (mp_db 2))) = ''u''"
  by (simp_all add: mp_db_def gw3_def db_eval)

lemma mp_db_complete: "\<exists>oid. CompleteMultipartUpload db_ok ''u'' '''' (mp_db 4) = (Inr oid, mp_db 5) \<and>
    obj_UserID (last (objects (mp_db 5))) = ''''"
  by (simp add: CompleteMultipartUpload_def select_upload_def select_sum_def chunks_of_upload_def
      move_chunks_def delete_upload_def mp_db_def db_eval)


end
