(* ===== verification/Typing.thy ===== *)
theory Typing imports Router Rebalancer Multipart begin

text \<open>
  What the stored state of the whole system looks like: which files the storage nodes have and
  which rows the tables have, as a type of states, and that every operation of the gateway keeps
  it. The locale \<open>cluster_invariant\<close> is what a property of the storage nodes and of the client has to
  satisfy for all of the gateway's remote calls to keep it; \<open>node_invariant\<close> derives that from
  the handler of a single node.
\<close>

section \<open>Properties that remote calls keep\<close>

text \<open>All requests that save an encryption of a chunk under its hash.\<close>

definition saves_ok :: "(node_request \<Rightarrow> bool) \<Rightarrow> snappy \<Rightarrow> bytes \<Rightarrow> bytes \<Rightarrow> bool" where
  "saves_ok R sn encKey d \<longleftrightarrow>
     (\<forall>rand e. Encrypt rand (snappy_Encode sn d) encKey = Inr e \<longrightarrow> R (ReqSave (sha256hex d) e))"

locale cluster_invariant =
  fixes P :: "cluster \<Rightarrow> bool" and R :: "net_env \<Rightarrow> node_request \<Rightarrow> bool"
  assumes step_keeps: "P c \<Longrightarrow> R net req \<Longrightarrow> P (snd (call_step net (a, req) (p, c)))"
    and later_keeps: "P c \<Longrightarrow> P (c\<lparr>now := now c + int t\<rparr>)"
    and reads: "R net (ReqGet h)" "R net ReqHealth"
begin

lemma flight_keeps:
  assumes "P (snd (snd fl))" "\<forall>(a, req) \<in> set cs. R net req"
  shows "P (snd (snd (flight_step net cs it fl)))"
proof -
  obtain i t ps fin c where [simp]: "it = (i, t)" "fl = (ps, fin, c)" by (cases it; cases fl)
  show ?thesis
  proof (cases "length cs \<le> i")
    case True
    with assms(1) show ?thesis by (simp add: flight_step_eq)
  next
    case False
    obtain a req where r: "cs ! i = (a, req)" by fastforce
    with False assms(2) have "R net req" by (metis case_prodD linorder_not_le nth_mem)
    with False r later_keeps [of c t] assms(1) show ?thesis
      by (simp add: flight_step_eq Let_def step_keeps)
  qed
qed

lemma fan_out_keeps:
  assumes "P c" "\<forall>(a, req) \<in> set cs. R net req"
  shows "P (snd (snd (fan_out net cs sched c)))"
  unfolding fan_out_def
  by (rule fold_invariant [where P = "\<lambda>fl. P (snd (snd fl))"]) (use assms flight_keeps in simp_all)

lemma call_keeps: "P c \<Longrightarrow> R net req \<Longrightarrow> P (snd (client_call net a req c))"
  by (simp only: client_call_steps Let_def split_beta snd_conv) (metis step_keeps prod.collapse)

lemma SaveChunk_keeps: "P c \<Longrightarrow> R net (ReqSave h d) \<Longrightarrow> P (snd (client_SaveChunk net sched as h d c))"
  using fan_out_keeps [of c "map (\<lambda>a. (a, ReqSave h d)) as" net sched]
  by (simp add: client_SaveChunk_def Let_def split_beta)

lemma GetChunk_keeps: "P c \<Longrightarrow> P (snd (client_GetChunk net a h c))"
  using call_keeps [OF _ reads(1), of c net a h]
  by (auto simp: client_GetChunk_def split: prod.splits sum.splits node_reply.splits)

lemma DeleteChunk_keeps: "P c \<Longrightarrow> R net (ReqDelete h) \<Longrightarrow> P (snd (client_DeleteChunk net a h c))"
  by (simp add: client_DeleteChunk_eq call_keeps)

lemma replica_keeps: "P c \<Longrightarrow> P (snd (try_replica env h hash a c))"
  using GetChunk_keeps [of c "net_of env" a hash]
  by (auto simp: try_replica_def split: prod.splits sum.splits option.splits)

lemma fetch_keeps: "P c \<Longrightarrow> P (snd (fetch_chunk env h hash as c))"
proof (induction as arbitrary: c)
  case (Cons a as)
  from Cons.IH replica_keeps [OF Cons.prems, of env h hash a] show ?case
    by (auto split: prod.splits option.splits)
qed simp

lemma send_keeps: "P c \<Longrightarrow> P (snd (send_chunks env h cs w c))"
proof (induction cs arbitrary: w c)
  case (Cons ch cs)
  from Cons.IH fetch_keeps [OF Cons.prems, of env h "ch_Hash ch" "ch_NodeAddresses ch"] show ?case
    by (auto split: prod.splits option.splits bool.splits)
qed simp

lemma rb_fetch_keeps: "P c \<Longrightarrow> P (snd (rb_fetch net h as r c))"
proof (induction as arbitrary: r c)
  case (Cons a as)
  from Cons.IH GetChunk_keeps [OF Cons.prems, of net a h] show ?case
    by (auto split: prod.splits sum.splits)
qed simp

text \<open>The handlers.\<close>

lemma tasks_keep:
  assumes "run_tasks env up h cs c = (results, c')" "P c"
    and "\<forall>d \<in> set cs. saves_ok (R (net_of env)) (snappy_of env) (EncryptionKey h) d"
  shows "P c'"
proof -
  obtain tasks ps fin where f: "fan_out (net_of env) (map snd (task_calls tasks)) (up_sched up) c = (ps, fin, c')"
    and len: "length tasks = length cs"
    and t: "\<And>i. i < length cs \<Longrightarrow> tasks ! i = chunk_prepare env h (up_rings up i) (up_rand up i) (cs ! i)"
    using run_tasks_eq [OF assms(1)] by blast
  have "R (net_of env) req" if call: "(i, a, req) \<in> set (task_calls tasks)" for i a req
  proof -
    obtain as hash d where i: "i < length cs" "tasks ! i = Inr (as, hash, d)" "req = ReqSave hash d"
      using call task_calls_iff [of i a req tasks] len by auto
    with t assms(3) show ?thesis by (auto simp: chunk_prepare_ok saves_ok_def)
  qed
  then have "\<forall>(a, req) \<in> set (map snd (task_calls tasks)). R (net_of env) req" by auto
  from fan_out_keeps [OF assms(2) this, of "up_sched up"] f show ?thesis by simp
qed

lemma Upload_keeps:
  assumes "Upload env up h r gw = Some (out, gw')" "P (cluster_of_gw gw)"
    and "\<forall>d \<in> set (blocks_of (nat (chunk_size h)) (reqBody r)). saves_ok (R (net_of env)) (snappy_of env) (EncryptionKey h) d"
  shows "P (cluster_of_gw gw')"
proof (cases "chunk_size h < 0")
  case True
  with assms show ?thesis by (simp add: Upload_def Let_def)
next
  case False
  then obtain cs complete where cs: "read_loop (nat (chunk_size h)) (reqBody r) (reqEnd r) [] = Some (cs, complete)"
    using assms(1) by (auto simp: Upload_def Let_def split: option.splits)
  then have blocks: "cs = blocks_of (nat (chunk_size h)) (reqBody r)"
    using read_loop_blocks [of "nat (chunk_size h)"] read_loop_0 by (cases "nat (chunk_size h) = 0") auto
  have "P (snd (run_tasks env up h cs (cluster_of_gw gw)))"
    by (rule tasks_keep [OF prod.collapse [symmetric] assms(2)]) (use assms(3) blocks in simp)
  with assms(1,2) False cs show ?thesis
    by (auto simp: Upload_def Let_def split: if_splits prod.splits)
qed

lemma UploadPart_keeps:
  assumes "P (cluster_of_gw gw)" "saves_ok (R (net_of env)) (snappy_of env) (EncryptionKey h) (snd (part_of h r))"
  shows "P (cluster_of_gw (snd (UploadPart env sched rg rand h r gw)))"
proof -
  have "P (snd (client_SaveChunk (net_of env) sched as (sha256hex (snd (part_of h r))) e (cluster_of_gw gw)))"
    if "Encrypt rand (snappy_Encode (snappy_of env) (snd (part_of h r))) (EncryptionKey h) = Inr e" for as e
    using SaveChunk_keeps [OF assms(1)] assms(2) that by (auto simp: saves_ok_def)
  with assms(1) show ?thesis by (simp add: UploadPart_def part_of_def Let_def split_beta split: sum.split)
qed

lemma Download_keeps: "P (cluster_of_gw gw) \<Longrightarrow> P (cluster_of_gw (snd (Download env h r gw)))"
  by (simp add: Download_def Let_def split_beta send_keeps split: sum.split option.split)

lemma Delete_keeps:
  assumes "P (cluster_of_gw gw)"
    and "\<forall>cs db. GetChunksByObjectID (db_of env) (pathValue r ''id'') (database_of_gw gw) = (Inr cs, db) \<longrightarrow>
      (\<forall>ch \<in> set cs. R (net_of env) (ReqDelete (ch_Hash ch)))"
  shows "P (cluster_of_gw (snd (Delete env sched r gw)))"
proof -
  obtain res db1 where g: "GetChunksByObjectID (db_of env) (pathValue r ''id'') (database_of_gw gw) = (res, db1)" by fastforce
  have "P (snd (snd (fan_out (net_of env) (delete_calls cs) sched (cluster_of_gw gw))))" if "res = Inr cs" for cs
    using assms(2) g that by (intro fan_out_keeps [OF assms(1)]) (fastforce simp: delete_calls_def)
  with assms(1) g show ?thesis
    by (simp add: Delete_def Let_def split_beta split: sum.split option.split)
qed

lemma health_round_keeps: "P (cluster_of_gw gw) \<Longrightarrow> P (cluster_of_gw (health_round net env sched order gw))"
  using fan_out_keeps [of "cluster_of_gw gw" "health_calls _" net] reads(2)
  by (auto simp: health_round_def Let_def split_beta health_calls_def split: sum.split)

text \<open>A request, by what its handler saves and deletes.\<close>

lemma request_keeps:
  assumes "serve_request env app m path r gw = Some (out, gw')" "P (cluster_of_gw gw)"
    and upload: "fst (route m path) = ObjUpload \<Longrightarrow>
      \<forall>d \<in> set (blocks_of (nat (chunk_size (objectHandler app))) (reqBody r)).
        saves_ok (R (net_of (services env))) (snappy_of (services env)) (EncryptionKey (objectHandler app)) d"
    and part: "fst (route m path) = MultiPart \<Longrightarrow> saves_ok (R (net_of (services env))) (snappy_of (services env))
        (EncryptionKey (objectHandler app)) (snd (part_of (objectHandler app) r))"
    and delete: "\<And>cs db ch. fst (route m path) = ObjDelete \<Longrightarrow>
      GetChunksByObjectID (db_of (services env)) (snd (route m path) ''id'') (database_of_gw gw) = (Inr cs, db) \<Longrightarrow>
      ch \<in> set cs \<Longrightarrow> R (net_of (services env)) (ReqDelete (ch_Hash ch))"
  shows "P (cluster_of_gw gw')"
proof -
  obtain hnd vals where rt: "route m path = (hnd, vals)" by fastforce
  let ?r = "r\<lparr>pathValue := vals\<rparr>" and ?sv = "services env" and ?h = "objectHandler app"
  have protected: "P (cluster_of_gw gw')" if "protected env app f ?r gw = Some (out, gw')"
    "\<And>u. f (?r\<lparr>userID := u\<rparr>) gw = Some (out, gw') \<Longrightarrow> P (cluster_of_gw gw')" for f
    using that assms(2) by (auto simp: protected_def RequireAuth_def Let_def split: sum.splits if_splits prod.splits)
  have answer: "P (cluster_of_gw gw')" if "protected env app (answer f) ?r gw = Some (out, gw')"
    "\<And>u. P (cluster_of_gw (snd (f (?r\<lparr>userID := u\<rparr>) gw)))" for f
  proof (rule protected [OF that(1)])
    fix u assume "answer f (?r\<lparr>userID := u\<rparr>) gw = Some (out, gw')"
    then have "gw' = snd (f (?r\<lparr>userID := u\<rparr>) gw)" by (simp add: answer_def split_beta)
    with that(2) show "P (cluster_of_gw gw')" by simp
  qed
  have same: "cluster_of_gw (snd (List ?sv r gw)) = cluster_of_gw gw"
    "cluster_of_gw (snd (InitMultipart ?sv r gw)) = cluster_of_gw gw"
    "cluster_of_gw (snd (CompleteMultipart ?sv r gw)) = cluster_of_gw gw" for r
    by (auto simp: List_def InitMultipart_def CompleteMultipart_def Let_def split_beta split: sum.split option.split)
  note served = assms(1) [unfolded serve_request_def rt Let_def prod.case]
  show ?thesis
  proof (cases hnd)
    case ObjUpload
    then have "protected env app (Upload ?sv (uploading env) ?h) ?r gw = Some (out, gw')" using served by simp
    then show ?thesis
      by (rule protected) (erule Upload_keeps [OF _ assms(2)], use upload rt ObjUpload in simp)
  next
    case MultiPart
    have "snd (part_of ?h (?r\<lparr>userID := u\<rparr>)) = snd (part_of ?h r)" for u by (simp add: part_of_def)
    with MultiPart part rt have "P (cluster_of_gw (snd (UploadPart ?sv sched rg rand ?h (?r\<lparr>userID := u\<rparr>) gw)))" for sched rg rand u
      by (intro UploadPart_keeps [OF assms(2)]) simp
    with MultiPart served show ?thesis
      by (intro answer [of "UploadPart ?sv (call_sched env) (part_ring env) (part_rand env) ?h"]) simp_all
  next
    case ObjDelete
    have "P (cluster_of_gw (snd (Delete ?sv (call_sched env) (?r\<lparr>userID := u\<rparr>) gw)))" for u
      using delete rt ObjDelete by (intro Delete_keeps [OF assms(2)]) fastforce
    with ObjDelete served show ?thesis by (intro answer [of "Delete ?sv (call_sched env)"]) simp_all
  next
    case ObjDownload
    with served show ?thesis
      by (intro answer [of "Download ?sv ?h"] Download_keeps assms(2)) simp
  next
    case ObjList
    with served same(1) assms(2) show ?thesis by (intro answer [of "List ?sv"]) simp_all
  next
    case MultiInit
    with served same(2) assms(2) show ?thesis by (intro answer [of "InitMultipart ?sv"]) simp_all
  next
    case MultiComplete
    with served same(3) assms(2) show ?thesis by (intro answer [of "CompleteMultipart ?sv"]) simp_all
  qed (use served assms(2) in \<open>auto simp: on_database_def Let_def split_beta\<close>)
qed

end

text \<open>
  One that only looks at what listens on the single addresses, if anything does, holds next to
  the invariant of the breakers.
\<close>

definition nodes_all :: "(address \<Rightarrow> NodeHandler option \<Rightarrow> bool) \<Rightarrow> cluster \<Rightarrow> bool" where
  "nodes_all I c \<longleftrightarrow> (\<forall>a. I a (storage_nodes c a))"

locale node_invariant =
  fixes I :: "address \<Rightarrow> NodeHandler option \<Rightarrow> bool" and R :: "node_request \<Rightarrow> bool"
  assumes serve_keeps: "I a (Some n) \<Longrightarrow> R req \<Longrightarrow> I a (Some (snd (serve io req n)))"
    and read_only: "R (ReqGet h)" "R ReqHealth"
begin

lemma operation_keeps: "nodes_all I c \<Longrightarrow> R req \<Longrightarrow> nodes_all I (snd (client_operation net a req c))"
  unfolding nodes_all_def using client_operation_storage [of net a req c] serve_keeps
  by metis

lemma call_step_keeps:
  assumes "nodes_all I c" "R req"
  shows "nodes_all I (snd (call_step net (a, req) (p, c)))"
proof (cases p)
    case Waiting
    then have "storage_nodes (snd (call_step net (a, req) (p, c))) = storage_nodes c"
      by (simp add: Let_def split_beta breaker_enter_eq)
    with assms(1) show ?thesis by (simp add: nodes_all_def)
  next
    case Sent
    with operation_keeps [OF assms] show ?thesis by (simp add: Let_def split_beta)
  next
    case (Replied r)
    then have "storage_nodes (snd (call_step net (a, req) (p, c))) = storage_nodes c"
      by (simp add: breaker_leave_eq)
    with assms(1) show ?thesis by (simp add: nodes_all_def)
  next
    case (Finished r)
    then show ?thesis using assms(1) by simp
qed

end

sublocale node_invariant \<subseteq> cluster_invariant "\<lambda>c. client_inv c \<and> nodes_all I c" "\<lambda>_. R"
proof
  show "client_inv c \<and> nodes_all I c \<Longrightarrow> R req \<Longrightarrow>
      client_inv (snd (call_step net (a, req) (p, c))) \<and> nodes_all I (snd (call_step net (a, req) (p, c)))"
    for c req net a p
    by (simp add: call_step_keeps client_inv_call_step)
  show "client_inv c \<and> nodes_all I c \<Longrightarrow>
      client_inv (c\<lparr>now := now c + int t\<rparr>) \<and> nodes_all I (c\<lparr>now := now c + int t\<rparr>)" for c t
    by (simp add: client_inv_later nodes_all_def)
qed (rule read_only)+

section \<open>Storage nodes\<close>

text \<open>
  What a file of the data directory may hold: an encryption, under the gateway's key, of a
  compressed chunk that has the hash the file is named by, or the beginning of one, when a
  write was cut short.
\<close>

definition chunk_file :: "snappy \<Rightarrow> bytes \<Rightarrow> string \<Rightarrow> bytes \<Rightarrow> bool" where
  "chunk_file sn encKey h b \<longleftrightarrow>
     (\<exists>d rand sealed. h = sha256hex d \<and> Encrypt rand (snappy_Encode sn d) encKey = Inr sealed \<and> prefix b sealed)"

definition disk_typed :: "snappy \<Rightarrow> bytes \<Rightarrow> NodeHandler \<Rightarrow> bool" where
  "disk_typed sn encKey n \<longleftrightarrow> node_ok n \<and>
     (\<forall>h b. plain_name h \<longrightarrow> chunk_at n h = Some b \<longrightarrow> chunk_file sn encKey h b)"

definition node_typed :: "snappy \<Rightarrow> bytes \<Rightarrow> address \<Rightarrow> NodeHandler option \<Rightarrow> bool" where
  "node_typed sn encKey a node \<longleftrightarrow> (\<forall>n. node = Some n \<longrightarrow> disk_typed sn encKey n)"

fun request_typed :: "snappy \<Rightarrow> bytes \<Rightarrow> node_request \<Rightarrow> bool" where
  "request_typed sn encKey (ReqSave h d) \<longleftrightarrow> chunk_file sn encKey h d"
| "request_typed sn encKey (ReqDelete h) \<longleftrightarrow> plain_name h"
| "request_typed sn encKey _ \<longleftrightarrow> True"

text \<open>What a node's requests leave alone: all that is neither its data directory nor directly in it.\<close>

definition outside :: "NodeHandler \<Rightarrow> path \<Rightarrow> bool" where
  "outside n p \<longleftrightarrow> p \<notin> set (data_dirs n) \<and> (snd p = [] \<or> parent p \<noteq> Clean (DataDir n))"

definition confined :: "NodeHandler \<Rightarrow> NodeHandler \<Rightarrow> bool" where
  "confined n0 n \<longleftrightarrow> DataDir n = DataDir n0 \<and> (\<forall>p. outside n0 p \<longrightarrow> entry_at n p = entry_at n0 p)"

lemma chunk_file_plain: "chunk_file sn encKey h b \<Longrightarrow> plain_name h"
  by (auto simp: chunk_file_def sha256hex_plain)

lemma chunk_file_prefix: "chunk_file sn encKey h d \<Longrightarrow> prefix b d \<Longrightarrow> chunk_file sn encKey h b"
  unfolding chunk_file_def using prefix_order.trans by blast

lemma request_typed_ok: "request_typed sn encKey req \<Longrightarrow> request_ok req"
  by (cases req) (auto dest: chunk_file_plain)

lemma SaveChunk_chunk_at:
  assumes "chunk_at (snd (node_SaveChunk io h d n)) g = Some b" "plain_name g" "plain_name h"
  shows "chunk_at n g = Some b \<or> g = h \<and> prefix b d"
proof (cases rule: node_SaveChunk_cases [of io h d n])
  case (error msg n')
  with assms(1) show ?thesis by auto
next
  case (short k n1)
  with assms show ?thesis by (auto simp: chunk_at_upd Join_inj take_is_prefix split: if_splits)
next
  case (saved n1)
  with assms show ?thesis by (auto simp: chunk_at_upd Join_inj split: if_splits)
qed

lemma DeleteChunk_chunk_at:
  assumes "chunk_at (snd (node_DeleteChunk io h n)) g = Some b"
  shows "chunk_at n g = Some b"
  using assms os_Remove_entry [of io "Join (DataDir n) h" n "Join (DataDir n) g"]
  by (auto simp: snd_node_DeleteChunk chunk_at_def dest: sym split: option.splits entry.splits)

lemma disk_typed_serve:
  assumes "disk_typed sn encKey n" "request_typed sn encKey req"
  shows "disk_typed sn encKey (snd (serve io req n))"
proof -
  have "node_ok (snd (serve io req n))"
    using assms serve_ok [OF _ request_typed_ok] by (simp add: disk_typed_def)
  moreover have "chunk_file sn encKey h b" if h: "plain_name h" "chunk_at (snd (serve io req n)) h = Some b" for h b
  proof (cases req)
    case (ReqSave g d)
    with assms(2) have g: "chunk_file sn encKey g d" "plain_name g" by (auto dest: chunk_file_plain)
    with h ReqSave have "chunk_at n h = Some b \<or> h = g \<and> prefix b d"
      using SaveChunk_chunk_at [of io g d n h b] by (simp add: Let_def split_beta)
    with g(1) h(1) assms(1) show ?thesis by (auto simp: disk_typed_def dest: chunk_file_prefix)
  next
    case (ReqDelete g)
    with h have "chunk_at n h = Some b"
      using DeleteChunk_chunk_at [of io g n h b] by (simp add: Let_def split_beta)
    with h(1) assms(1) show ?thesis by (simp add: disk_typed_def)
  qed (use h assms(1) in \<open>auto simp: disk_typed_def\<close>)
  ultimately show ?thesis by (simp add: disk_typed_def)
qed

text \<open>What the invariant says of a node's other files: they are those of its first state.\<close>

lemma SaveChunk_entry:
  assumes "outside n p" "plain_name h"
  shows "entry_at (snd (node_SaveChunk io h d n)) p = entry_at n p"
proof -
  have p: "p \<noteq> Join (DataDir n) h" "p \<notin> set (data_dirs n)"
    using assms by (auto simp: outside_def Join_plain parent_def)
  then have "entry_at (snd (os_MkdirAll io (DataDir n) n)) p = entry_at n p"
    by (simp add: os_MkdirAll_def data_dirs_def mkdir_loop_entry)
  with p show ?thesis
    by (cases rule: node_SaveChunk_cases [of io h d n]) (auto simp: entry_at_update)
qed

lemma DeleteChunk_entry:
  assumes "outside n p" "plain_name h"
  shows "entry_at (snd (node_DeleteChunk io h n)) p = entry_at n p"
proof -
  have "p \<noteq> Join (DataDir n) h" using assms by (auto simp: outside_def Join_plain parent_def)
  with os_Remove_entry [of io "Join (DataDir n) h" n p] show ?thesis by (simp add: snd_node_DeleteChunk)
qed

lemma outside_same: "DataDir n = DataDir n0 \<Longrightarrow> outside n p = outside n0 p"
  by (simp add: outside_def data_dirs_def)

lemma confined_serve:
  assumes "confined n0 n" "request_ok req"
  shows "confined n0 (snd (serve io req n))"
proof -
  have "DataDir (snd (serve io req n)) = DataDir n"
    by (cases req) (simp_all add: Let_def split_beta)
  moreover have "entry_at (snd (serve io req n)) p = entry_at n p" if "outside n p" for p
    using assms(2) SaveChunk_entry [OF that] DeleteChunk_entry [OF that]
    by (cases req) (simp_all add: Let_def split_beta)
  ultimately show ?thesis using assms(1) outside_same [of n n0] by (simp add: confined_def)
qed

text \<open>The nodes that were there in the cluster \<open>c0\<close> keep what they had outside their data directory.\<close>

definition confined_from :: "cluster \<Rightarrow> address \<Rightarrow> NodeHandler option \<Rightarrow> bool" where
  "confined_from c0 a node \<longleftrightarrow> (\<forall>n0. storage_nodes c0 a = Some n0 \<longrightarrow> (\<exists>n. node = Some n \<and> confined n0 n))"

interpretation confine: node_invariant "confined_from c0" request_ok for c0
  by unfold_locales (auto simp: confined_from_def confined_serve)

interpretation typed: node_invariant "node_typed sn encKey" "request_typed sn encKey" for sn encKey
  by unfold_locales (simp_all add: node_typed_def disk_typed_serve)

section \<open>Tables\<close>

text \<open>
  What a chunk row says: the hash and the size of some chunk that is not empty, and an index that
  fits its column.
\<close>

definition describes :: "string \<Rightarrow> int \<Rightarrow> bool" where
  "describes h s \<longleftrightarrow> (\<exists>d. d \<noteq> [] \<and> h = sha256hex d \<and> s = int (length d))"

definition rows_ok :: "database \<Rightarrow> bool" where
  "rows_ok db \<longleftrightarrow>
     (\<forall>c \<in> set (chunks db). describes (ch_Hash c) (ch_SizeBytes c) \<and> int4_ok (ch_ChunkIndex c)) \<and>
     (\<forall>m \<in> set (multipart_chunks db). describes (mc_Hash m) (mc_SizeBytes m) \<and> int4_ok (mc_ChunkIndex m))"

definition tables_ok :: "database \<Rightarrow> bool" where
  "tables_ok db \<longleftrightarrow> db_inv db \<and> rows_ok db"

text \<open>The calls that write what they should.\<close>

fun call_typed :: "db_call \<Rightarrow> bool" where
  "call_typed (CallCreateChunk r i h s ns) \<longleftrightarrow> describes h s"
| "call_typed (CallCreateMultipartChunk u i h s ns) \<longleftrightarrow> describes h s"
| "call_typed _ \<longleftrightarrow> True"

lemma describes_plain: "describes h s \<Longrightarrow> plain_name h"
  by (auto simp: describes_def sha256hex_plain)

lemma on_tables_rows: "on_tables rows_ok"
  by (simp add: on_tables_def rows_ok_def)

lemma rows_same: "chunks db' = chunks db \<Longrightarrow> multipart_chunks db' = multipart_chunks db \<Longrightarrow> rows_ok db \<Longrightarrow> rows_ok db'"
  by (simp add: rows_ok_def)

text \<open>A statement that leaves both tables of chunks alone.\<close>

lemma keeps_rows_same:
  assumes "\<And>k db v db'. f k db = Inr (v, db') \<Longrightarrow> chunks db' = chunks db \<and> multipart_chunks db' = multipart_chunks db"
  shows "keeps rows_ok f"
  using assms rows_same unfolding keeps_def by blast

lemma keeps_rows_locations:
  "keeps rows_ok (insert_object env u n c s)" "keeps rows_ok (insert_location env ci nd)"
  "keeps rows_ok (insert_mp_location env u' i nd)"
  by (rule keeps_rows_same; auto simp: insert_object_def insert_location_def insert_mp_location_def Let_def
      split: option.splits if_splits)+

lemma keeps_rows_insert:
  "describes h s \<Longrightarrow> keeps rows_ok (insert_chunk env r i h s)"
  "describes h s \<Longrightarrow> keeps rows_ok (insert_mp_chunk env u i h s)"
  by (auto simp: keeps_def rows_ok_def insert_chunk_def insert_mp_chunk_def Let_def split: option.splits if_splits)

lemma keeps_rows_move: "keeps rows_ok (move_chunks env r u)"
proof -
  have row: "describes (ch_Hash c) (ch_SizeBytes c) \<and> int4_ok (ch_ChunkIndex c)"
    if "rows_ok db" "c \<in> set (moved_chunks env k db w i)" for db c k w i
  proof -
    from that(2) obtain j m where "(j, m) \<in> set (enumerate 0 (chunks_of_upload db i))"
      "c = \<lparr>ch_ID = gen_uuid env k j, ch_ObjectID = w, ch_ChunkIndex = mc_ChunkIndex m, ch_Hash = mc_Hash m,
        ch_SizeBytes = mc_SizeBytes m\<rparr>"
      by (auto simp: moved_chunks_def)
    moreover from in_enumerate [OF this(1)] have "m \<in> set (multipart_chunks db)"
      by (simp add: chunks_of_upload_def)
    ultimately show ?thesis using that(1) by (simp add: rows_ok_def)
  qed
  have "rows_ok db'" if ok: "rows_ok db" and m: "move_chunks env r u k db = Inr (v, db')" for k db v db'
  proof -
    obtain w i where "chunks db' = chunks db @ moved_chunks env k db w i" "multipart_chunks db' = multipart_chunks db"
      using m by (auto simp: move_chunks_eq)
    with ok row [OF ok, of _ k w i] show ?thesis unfolding rows_ok_def by (simp add: ball_Un)
  qed
  then show ?thesis by (simp add: keeps_def)
qed

lemma keeps_rows_delete: "keeps rows_ok (delete_upload env u)"
  by (auto simp: keeps_def rows_ok_def delete_upload_def split: option.splits)

interpretation rows: table_invariant rows_ok describes
  by unfold_locales (rule on_tables_rows keeps_rows_locations keeps_rows_insert keeps_rows_move
      keeps_rows_delete | assumption)+

lemma rows_simple:
  "rows_ok db \<Longrightarrow> rows_ok (snd (DeleteObject env r u db))"
  "rows_ok db \<Longrightarrow> rows_ok (snd (CreateMultipartUpload env u f c db))"
  "rows_ok db \<Longrightarrow> rows_ok (snd (AddChunkLocation env ci n db))"
  "rows_ok db \<Longrightarrow> rows_ok (snd (RemoveChunkLocation env ci n db))"
  "rows_ok db \<Longrightarrow> rows_ok (snd (RegisterNode env n db))"
  "rows_ok db \<Longrightarrow> rows_ok (snd (UpdateNodeStatus env n b db))"
  "rows_ok db \<Longrightarrow> rows_ok (snd (CreateUser env e p db))"
  by (auto simp: DeleteObject_def CreateMultipartUpload_def AddChunkLocation_def RemoveChunkLocation_def
      RegisterNode_def UpdateNodeStatus_def CreateUser_def exec_stmt_def rows_ok_def delete_objects_def Let_def
      split: fault.split option.split)

lemma tables_db_run:
  assumes "tables_ok db" "call_typed call"
  shows "tables_ok (db_run env call db)"
proof -
  have "rows_ok db" using assms(1) by (simp add: tables_ok_def)
  then have "rows_ok (db_run env call db)"
    using assms(2) by (cases call) (simp_all add: rows_simple rows.CreateObject_kept rows.CreateChunk_kept
        rows.CreateMultipartChunk_kept rows.CompleteMultipartUpload_kept)
  with assms(1) show ?thesis by (simp add: tables_ok_def inv_db_run)
qed

lemma tables_same: "same_tables db db' \<Longrightarrow> tables_ok db \<Longrightarrow> tables_ok db'"
  by (simp add: tables_ok_def db_inv_def rows_ok_def same_tables_iff)

text \<open>What is read from typed tables.\<close>

text \<open>The chunks that the queries give are rows of the table.\<close>

lemma GetChunks_rows:
  assumes "GetChunksByObjectID env i db = (Inr cs, db')" "ch \<in> set cs"
  shows "\<exists>oid. uuid_in env i = Some oid \<and> (\<exists>c \<in> set (chunks db). ch_ObjectID c = oid \<and> chunk_fields c = chunk_fields ch)"
proof -
  obtain oid m where "uuid_in env i = Some oid" "map chunk_fields cs = take m (object_rows db oid)"
    using chunks_are_rows [OF assms(1)] by blast
  moreover have "chunk_fields ch \<in> set (map chunk_fields cs)" using assms(2) by simp
  ultimately have "chunk_fields ch \<in> set (object_rows db oid)" by (metis in_set_takeD)
  then have "\<exists>c \<in> set (chunks db). ch_ObjectID c = oid \<and> chunk_fields c = chunk_fields ch"
    by (auto simp: object_rows_def located_chunks_def)
  with \<open>uuid_in env i = Some oid\<close> show ?thesis by blast
qed

lemma GetAllChunks_rows:
  assumes "GetAllChunks env db = (Inr cs, db')" "ch \<in> set cs"
  shows "\<exists>c \<in> set (chunks db). chunk_fields c = chunk_fields ch \<and> ch_ID c = ch_ID ch \<and>
    set (ch_NodeAddresses ch) = set (locations_of db (ch_ID c))"
proof -
  obtain k where "cs = fetch_rows env k (shuffle (row_order env k) (joined_chunks env k (db\<lparr>stmt_no := Suc (stmt_no db)\<rparr>) (\<lambda>c. True)))"
    using assms(1) by (auto simp: GetAllChunks_def exec_stmt_def Let_def split: fault.splits)
  with assms(2) have "ch \<in> set (joined_chunks env k (db\<lparr>stmt_no := Suc (stmt_no db)\<rparr>) (\<lambda>c. True))"
    by (auto simp: fetch_rows_def split: option.splits dest: in_set_takeD)
  then obtain i c where "(i, c) \<in> set (enumerate 0 (filter (\<lambda>c. locations_of (db\<lparr>stmt_no := Suc (stmt_no db)\<rparr>) (ch_ID c) \<noteq> []) (chunks db)))"
    and c: "chunk_fields c = chunk_fields ch" "ch_ID c = ch_ID ch"
      "set (ch_NodeAddresses ch) = set (locations_of db (ch_ID c))"
    by (auto simp: joined_chunks_def chunk_result_def chunk_fields_def locations_of_def)
  from in_enumerate [OF this(1)] have "c \<in> set (chunks db)" by simp
  with c show ?thesis by blast
qed

lemma GetChunks_typed:
  assumes "tables_ok db" "GetChunksByObjectID env i db = (Inr cs, db')" "ch \<in> set cs"
  shows "describes (ch_Hash ch) (ch_SizeBytes ch)"
  using GetChunks_rows [OF assms(2,3)] assms(1) by (auto simp: tables_ok_def rows_ok_def chunk_fields_def)

lemma GetAllChunks_typed:
  assumes "tables_ok db" "GetAllChunks env db = (Inr cs, db')" "ch \<in> set cs"
  shows "describes (ch_Hash ch) (ch_SizeBytes ch)"
  using GetAllChunks_rows [OF assms(2,3)] assms(1) by (auto simp: tables_ok_def rows_ok_def chunk_fields_def)

lemma reads_same:
  "same_tables db (snd (GetChunksByObjectID env i db))" "same_tables db (snd (GetObjectByID env i u db))"
  "same_tables db (snd (ListObjects env u db))" "same_tables db (snd (GetAllChunks env db))"
  "same_tables db (snd (GetAllNodes env db))"
  by (auto simp: GetChunksByObjectID_def GetObjectByID_def ListObjects_def GetAllChunks_def GetAllNodes_def
      exec_stmt_def same_tables_iff Let_def split: fault.split option.split list.split)

lemmas reads_typed = reads_same [THEN tables_same]

section \<open>The handlers keep the types\<close>

definition gateway_ok :: "(address \<Rightarrow> NodeHandler option \<Rightarrow> bool) \<Rightarrow> gateway \<Rightarrow> bool" where
  "gateway_ok I gw \<longleftrightarrow> tables_ok (database_of_gw gw) \<and> client_inv (cluster_of_gw gw) \<and> nodes_all I (cluster_of_gw gw)"

text \<open>The chunks that the loop of \<open>Upload\<close> starts a goroutine for are not empty.\<close>

lemma read_loop_chunks:
  assumes "0 \<le> n" "read_loop (nat n) b bend [] = Some (cs, complete)"
  shows "[] \<notin> set cs"
proof -
  have "nat n \<noteq> 0" using assms(2) read_loop_0 [of b bend "[]"] by (cases "nat n = 0") auto
  with read_loop_blocks [of "nat n" b bend "[]"] assms(2) have cs: "cs = blocks_of (nat n) b" "0 < nat n" by auto
  have "[] \<notin> set (blocks_of k xs)" if "0 < k" for k and xs :: bytes
    using that by (induction k xs rule: blocks_of.induct) (subst blocks_of.simps, auto)
  with cs show ?thesis by simp
qed

lemma saves_typed: "saves_ok (request_typed sn encKey) sn encKey d"
  unfolding saves_ok_def request_typed.simps chunk_file_def by blast

lemma chunk_finish_typed:
  assumes "chunk_finish h calls ps fin (i, chunk, chunk_prepare env h rg rand chunk) = Inr m" "chunk \<noteq> []"
  shows "describes (cm_hash m) (cm_size m)"
proof -
  have "cm_hash m = sha256hex chunk \<and> cm_size m = int (length chunk)"
    using assms(1) by (auto simp: chunk_finish_def chunk_prepare_ok Let_def split: sum.splits if_splits)
  with assms(2) show ?thesis unfolding describes_def by blast
qed

lemma in_oks: "m \<in> set (oks rs) \<Longrightarrow> Inr m \<in> set rs"
  by (induction rs rule: oks.induct) auto

lemma run_tasks_typed:
  assumes "run_tasks env up h cs c = (results, c')" "[] \<notin> set cs" "m \<in> set (oks results)"
  shows "describes (cm_hash m) (cm_size m)"
proof -
  obtain tasks ps fin where len: "length results = length cs"
    and t: "\<And>i. i < length cs \<Longrightarrow> tasks ! i = chunk_prepare env h (up_rings up i) (up_rand up i) (cs ! i)"
    and r: "\<And>i. i < length cs \<Longrightarrow> results ! i = chunk_finish h (task_calls tasks) ps fin (i, cs ! i, tasks ! i)"
    using run_tasks_eq [OF assms(1)] by blast
  from in_oks [OF assms(3)] obtain i where i: "i < length cs" "results ! i = Inr m"
    using len by (metis in_set_conv_nth)
  with assms(2) have "cs ! i \<noteq> []" by (metis nth_mem)
  with i r t show ?thesis by (metis chunk_finish_typed)
qed

lemma store_chunks_typed:
  "tables_ok db \<Longrightarrow> \<forall>m \<in> set ms. describes (cm_hash m) (cm_size m) \<Longrightarrow>
   tables_ok (snd (store_chunks env oid ms db))"
proof (induction ms arbitrary: db)
  case (Cons m ms)
  have "tables_ok (snd (CreateChunk env oid (int (cm_index m)) (cm_hash m) (cm_size m) (cm_nodes m) db))"
    using tables_db_run [OF Cons.prems(1), of "CallCreateChunk oid (int (cm_index m)) (cm_hash m) (cm_size m) (cm_nodes m)"]
      Cons.prems(2) by simp
  with Cons show ?case by (auto split: prod.splits sum.splits)
qed simp

lemma upload_metadata_typed:
  assumes "tables_ok db" "\<forall>m \<in> set ms. describes (cm_hash m) (cm_size m)"
  shows "tables_ok (snd (upload_metadata env r ms w db))"
proof -
  let ?co = "CreateObject (db_of env) (userID r) (upload_name r) (upload_type r) (sum_list (map cm_size ms)) db"
  have "tables_ok (snd ?co)" using tables_db_run [OF assms(1), of "CallCreateObject _ _ _ _"] by simp
  moreover have "tables_ok db1 \<Longrightarrow> store_chunks (db_of env) oid ms db1 = (b, db2) \<Longrightarrow> tables_ok db2" for oid b db1 db2
    using store_chunks_typed [OF _ assms(2)] by (metis snd_conv)
  ultimately show ?thesis
    by (auto simp: upload_metadata_def Let_def split: prod.splits sum.splits bool.splits)
qed

lemma Register_typed:
  assumes "tables_ok db" "\<And>db. tables_ok db \<Longrightarrow> tables_ok (between db)"
  shows "tables_ok (snd (Register env h between r db))"
proof -
  have g: "tables_ok (snd (GetUserByEmail (auth_db env) e db))" for e
    using tables_same [OF GetUserByEmail_tables assms(1)] .
  have c: "tables_ok db1 \<Longrightarrow> tables_ok (snd (CreateUser (auth_db env) e p (between db1)))" for e p db1
    using tables_db_run [OF assms(2), of db1 "CallCreateUser e p"] by simp
  show ?thesis
    unfolding Register_def Let_def split_beta
    by (simp add: assms g c split: option.split sum.split)
qed

lemma Login_typed: "tables_ok db \<Longrightarrow> tables_ok (snd (Login env h r db))"
  using tables_same [OF Login_tables] .

lemma nodes_register_typed: "tables_ok db \<Longrightarrow> tables_ok (snd (nodes_register env s r db))"
  using tables_db_run [of db "CallRegisterNode _" env]
  by (auto simp: nodes_register_def node_Register_def Let_def split_beta split: option.split sum.split)

lemma add_locations_typed: "tables_ok db \<Longrightarrow> tables_ok (add_locations env u ns db)"
proof (induction ns arbitrary: db)
  case (Cons n ns)
  with tables_db_run [OF Cons.prems, of "CallAddChunkLocation u n" env] show ?case
    by (simp add: Let_def split_beta)
qed simp

locale gateway_types = node_invariant I "request_typed sn encKey" for I and sn and encKey +
  assumes files: "I a (Some n) \<Longrightarrow> plain_name h \<Longrightarrow> chunk_at n h = Some b \<Longrightarrow> chunk_file sn encKey h b"
begin

lemma Upload_typed:
  assumes "Upload env up h r gw = Some (out, gw')" "gateway_ok I gw"
    and [simp]: "snappy_of env = sn" "EncryptionKey h = encKey"
  shows "gateway_ok I gw'"
proof (cases "chunk_size h < 0")
  case True
  with assms show ?thesis by (simp add: Upload_def Let_def)
next
  case False
  then obtain cs complete where cs: "read_loop (nat (chunk_size h)) (reqBody r) (reqEnd r) [] = Some (cs, complete)"
    using assms(1) by (auto simp: Upload_def Let_def split: option.splits)
  obtain results c where rt: "run_tasks env up h cs (cluster_of_gw gw) = (results, c)" by fastforce
  have c: "client_inv c \<and> nodes_all I c"
    by (rule tasks_keep [OF rt]) (use assms(2) saves_typed in \<open>simp_all add: gateway_ok_def\<close>)
  have "\<forall>m \<in> set (oks results). describes (cm_hash m) (cm_size m)"
    using run_tasks_typed [OF rt read_loop_chunks [OF _ cs]] False by simp
  with assms(2) have "tables_ok (snd (upload_metadata env r (shuffle (up_order up) (oks results))
      (new_response (clientGone r)) (database_of_gw gw)))"
    by (intro upload_metadata_typed) (simp_all add: gateway_ok_def)
  with assms(1,2) False c rt cs show ?thesis
    by (auto simp: Upload_def Let_def gateway_ok_def split: if_splits prod.splits)
qed

lemma gateway_ok_db: "gateway_ok I gw \<Longrightarrow> tables_ok db \<Longrightarrow> gateway_ok I (gw\<lparr>database_of_gw := db\<rparr>)"
  by (simp add: gateway_ok_def)

lemma gateway_ok_cluster:
  "gateway_ok I gw \<Longrightarrow> client_inv c \<and> nodes_all I c \<Longrightarrow> gateway_ok I (gw\<lparr>cluster_of_gw := c\<rparr>)"
  by (simp add: gateway_ok_def)

lemma Download_typed:
  assumes "gateway_ok I gw"
  shows "gateway_ok I (snd (Download env h r gw))"
proof -
  have "tables_ok (snd (GetObjectByID (db_of env) i u (database_of_gw gw)))"
    "tables_ok (snd (GetChunksByObjectID (db_of env) i (snd (GetObjectByID (db_of env) i u (database_of_gw gw)))))" for i u
    using assms reads_typed by (simp_all add: gateway_ok_def)
  with assms have "tables_ok (database_of_gw (snd (Download env h r gw)))"
    by (simp add: Download_def Let_def split_beta gateway_ok_def split: sum.split option.split)
  with assms Download_keeps [of gw env h r] show ?thesis by (simp add: gateway_ok_def)
qed

lemma List_typed: "gateway_ok I gw \<Longrightarrow> gateway_ok I (snd (List env r gw))"
  using reads_typed(3) [of "database_of_gw gw"]
  by (simp add: List_def Let_def split_beta gateway_ok_def split: sum.split)

lemma Delete_typed:
  assumes "gateway_ok I gw"
  shows "gateway_ok I (snd (Delete env sched r gw))"
proof -
  let ?i = "pathValue r ''id''" and ?db = "database_of_gw gw"
  obtain res db1 where g: "GetChunksByObjectID (db_of env) ?i ?db = (res, db1)" by fastforce
  have t: "tables_ok ?db" using assms by (simp add: gateway_ok_def)
  then have db1: "tables_ok db1" using reads_typed(1) [of ?db "db_of env" ?i] g by simp
  then have db2: "tables_ok (snd (DeleteObject (db_of env) ?i (userID r) db1))"
    using tables_db_run [of db1 "CallDeleteObject ?i (userID r)"] by simp
  with g t db1 have "tables_ok (database_of_gw (snd (Delete env sched r gw)))"
    by (simp add: Delete_def Let_def split_beta split: sum.split option.split)
  moreover have "client_inv (cluster_of_gw (snd (Delete env sched r gw))) \<and>
      nodes_all I (cluster_of_gw (snd (Delete env sched r gw)))"
    using assms GetChunks_typed [OF t] describes_plain by (intro Delete_keeps) (fastforce simp: gateway_ok_def)+
  ultimately show ?thesis by (simp add: gateway_ok_def)
qed

lemma InitMultipart_typed: "gateway_ok I gw \<Longrightarrow> gateway_ok I (snd (InitMultipart env r gw))"
  using tables_db_run [of "database_of_gw gw" "CallCreateMultipartUpload _ _ _"]
  by (simp add: InitMultipart_def Let_def split_beta gateway_ok_def split: sum.split option.split)

lemma CompleteMultipart_typed: "gateway_ok I gw \<Longrightarrow> gateway_ok I (snd (CompleteMultipart env r gw))"
  using tables_db_run [of "database_of_gw gw" "CallCompleteMultipartUpload _ _"]
  by (simp add: CompleteMultipart_def Let_def split_beta gateway_ok_def split: sum.split)

lemma UploadPart_typed:
  assumes "gateway_ok I gw" and [simp]: "snappy_of env = sn" "EncryptionKey h = encKey"
  shows "gateway_ok I (snd (UploadPart env sched rg rand h r gw))"
proof -
  have "tables_ok (snd (CreateMultipartChunk (db_of env) u i (sha256hex d) (int (length d)) ns (database_of_gw gw)))"
    if "d \<noteq> []" for u i d ns
  proof -
    have "describes (sha256hex d) (int (length d))" using that unfolding describes_def by blast
    then show ?thesis
      using tables_db_run [of "database_of_gw gw" "CallCreateMultipartChunk u i (sha256hex d) (int (length d)) ns"] assms(1)
      by (simp add: gateway_ok_def)
  qed
  with assms(1) have "tables_ok (database_of_gw (snd (UploadPart env sched rg rand h r gw)))"
    by (auto simp: UploadPart_def Let_def split_beta gateway_ok_def split: sum.split)
  with UploadPart_keeps [of gw env h r] saves_typed assms(1) show ?thesis by (simp add: gateway_ok_def)
qed

lemma drop_obsolete_typed: "gateway_ok I gw \<Longrightarrow> plain_name h \<Longrightarrow> gateway_ok I (drop_obsolete env u h ns gw)"
proof (induction ns arbitrary: gw)
  case (Cons n ns)
  have "tables_ok (snd (RemoveChunkLocation (db_of env) u n (database_of_gw gw)))"
    using tables_db_run [of "database_of_gw gw" "CallRemoveChunkLocation u n"] Cons.prems(1) by (simp add: gateway_ok_def)
  moreover have "client_inv (snd (client_DeleteChunk (net_of env) n h (cluster_of_gw gw))) \<and>
      nodes_all I (snd (client_DeleteChunk (net_of env) n h (cluster_of_gw gw)))"
    using Cons.prems by (intro DeleteChunk_keeps) (simp_all add: gateway_ok_def)
  ultimately show ?case
    using Cons.IH Cons.prems(2) by (simp add: gateway_ok_def Let_def split_beta)
qed simp

lemma rebalance_chunk_typed:
  assumes "gateway_ok I gw" "plain_name (ch_Hash chunk)"
  shows "gateway_ok I (rebalance_chunk env rb rf (i, chunk) gw)"
proof -
  let ?exp = "GetNodes (rb_rings rb (Suc i)) (ch_Hash chunk) rf"
  let ?miss = "missing_nodes (rb_expected rb i) ?exp (ch_NodeAddresses chunk)"
  let ?obs = "missing_nodes (rb_current rb i) (ch_NodeAddresses chunk) ?exp"
  obtain v c where f: "rb_fetch (net_of env) (ch_Hash chunk) (shuffle (rb_fetches rb i) (remdups (ch_NodeAddresses chunk)))
      (Inr []) (cluster_of_gw gw) = (v, c)" by fastforce
  have c: "client_inv c \<and> nodes_all I c"
    using rb_fetch_keeps [of "cluster_of_gw gw"] assms(1) f unfolding gateway_ok_def by (metis snd_conv)
  then have gw: "gateway_ok I (gw\<lparr>cluster_of_gw := c\<rparr>)" using assms(1) gateway_ok_cluster by blast
  have save: "client_inv (snd (client_SaveChunk (net_of env) sched as (ch_Hash chunk) d c)) \<and>
      nodes_all I (snd (client_SaveChunk (net_of env) sched as (ch_Hash chunk) d c))"
    if "v = Inr d" "d \<noteq> []" for d sched as
  proof -
    from f that obtain a where "node_holds (cluster_of_gw gw) a (ch_Hash chunk) d"
      using rb_fetch_holds [OF _ assms(2)] by blast
    then obtain n where "storage_nodes (cluster_of_gw gw) a = Some n" "chunk_at n (ch_Hash chunk) = Some d"
      by (auto simp: node_holds_def)
    then have "chunk_file sn encKey (ch_Hash chunk) d"
      using assms by (intro files [of a n]) (simp_all add: gateway_ok_def nodes_all_def, metis)
    with c show ?thesis by (intro SaveChunk_keeps) simp_all
  qed
  have tables: "tables_ok (add_locations (db_of env) u ns (database_of_gw gw))" for u ns
    using assms(1) add_locations_typed by (simp add: gateway_ok_def)
  have saved: "gateway_ok I \<lparr>cluster_of_gw = snd (client_SaveChunk (net_of env) sched as (ch_Hash chunk) d c),
      database_of_gw = add_locations (db_of env) u ns (database_of_gw gw)\<rparr>"
    if "v = Inr d" "d \<noteq> []" for d sched as u ns
    using save [OF that] tables by (simp add: gateway_ok_def)
  show ?thesis
    using assms(1) gw drop_obsolete_typed [OF _ assms(2)] saved
    by (simp add: rebalance_chunk_def Let_def f split_beta split: sum.split)
qed

lemma rebalance_scan_typed:
  assumes "rebalance_scan env rg gw = (ics, gw')" "gateway_ok I gw"
  shows "gateway_ok I gw'" "\<forall>ic \<in> set ics. plain_name (ch_Hash (snd ic))"
proof -
  obtain v db where g: "GetAllChunks (db_of env) (database_of_gw gw) = (v, db)" by fastforce
  have "gateway_ok I (gw\<lparr>database_of_gw := db\<rparr>)"
    using assms(2) reads_typed(4) [of "database_of_gw gw" "db_of env"] g by (simp add: gateway_ok_def)
  moreover have "\<forall>ic \<in> set (enumerate 0 cs). plain_name (ch_Hash (snd ic))" if "v = Inr cs" for cs
    using GetAllChunks_typed [of "database_of_gw gw"] g that assms(2) in_enumerate describes_plain
    by (metis gateway_ok_def)
  ultimately show "gateway_ok I gw'" "\<forall>ic \<in> set ics. plain_name (ch_Hash (snd ic))"
    using assms(1) g by (auto simp: rebalance_scan_def Let_def split: sum.splits if_splits)
qed

lemma health_round_typed:
  assumes "gateway_ok I gw"
  shows "gateway_ok I (health_round net env sched order gw)"
proof -
  obtain v db where g: "GetAllNodes env (database_of_gw gw) = (v, db)" by fastforce
  have db: "tables_ok db"
    using assms reads_typed(5) [of "database_of_gw gw" env] g by (simp add: gateway_ok_def)
  have "tables_ok (fold (health_update env ns ps) js db)" for ns ps js
    by (rule fold_invariant [where P = tables_ok, OF db])
      (use tables_db_run [of _ "CallUpdateNodeStatus _ _" env] in \<open>simp add: health_update_def Let_def\<close>)
  with assms db have "tables_ok (database_of_gw (health_round net env sched order gw))"
    by (simp add: health_round_def Let_def g split_beta gateway_ok_def split: sum.split)
  with assms health_round_keeps [of gw] show ?thesis by (simp add: gateway_ok_def)
qed

end

end
