(* ===== verification/System.thy ===== *)
theory System imports Typing begin

text \<open>
  The running gateway as one state machine: the requests it serves, the loops that \<open>NewRouter\<close>
  starts (\<open>SyncLoop\<close>, \<open>StartHealthChecker\<close>, \<open>StartRebalancer\<close>), storage nodes that are started,
  and time. A request and a round are one step each. A pass of the rebalancer is many: it reads the chunks,
  and moves them one after the other, while anything else can happen in between. Inside a step the remote calls of
  its goroutines interleave and fail as theory \<open>StorageClient\<close> describes. The file shows what holds of every
  state that can be reached.
\<close>

section \<open>The state machine\<close>

record system =
  sys_gateway :: gateway
  sys_ring :: RingManager
  sys_pass :: "(nat \<times> Chunk) list"

text \<open>What the process starts with: the tables the migrations made, and a client without connections.\<close>

definition sys_init :: "app \<Rightarrow> system \<Rightarrow> bool" where
  "sys_init app s \<longleftrightarrow> database_of_gw (sys_gateway s) = empty_db \<and> sys_ring s = ringManager app \<and> sys_pass s = [] \<and>
     conns (cluster_of_gw (sys_gateway s)) = {} \<and> breakers (cluster_of_gw (sys_gateway s)) = Map.empty \<and>
     storage_nodes (cluster_of_gw (sys_gateway s)) = Map.empty"

text \<open>
  A ring that a handler can read: the current one, or one that a concurrent round of the sync
  loop publishes while it rebuilds it.
\<close>

definition ring_seen :: "system \<Rightarrow> HashRing \<Rightarrow> bool" where
  "ring_seen s rg \<longleftrightarrow> rg = rm_Ring (sys_ring s) \<or> (\<exists>ns. rg \<in> set (published_rings ns))"

text \<open>Other registrations, which a registration can race with.\<close>

definition registrations :: "db_env \<Rightarrow> (string \<times> string) list \<Rightarrow> database \<Rightarrow> database" where
  "registrations env us = fold (\<lambda>(email, pw). db_run env (CallCreateUser email pw)) us"

text \<open>The disk of a new storage node: its data directory can be made and has no files.\<close>

definition fresh_node :: "NodeHandler \<Rightarrow> bool" where
  "fresh_node n \<longleftrightarrow> node_ok n \<and> (\<forall>h. plain_name h \<longrightarrow> chunk_at n h = None)"

text \<open>What can happen, and what it does.\<close>

datatype event =
    Served serve_env string "string list" request outcome
  | Scanned gw_env HashRing | Rebalanced gw_env rb_env
  | Checked | Synced "api_request \<Rightarrow> http_reply" db_env | Booted | Ticked

inductive sys_does :: "app \<Rightarrow> snappy \<Rightarrow> event \<Rightarrow> system \<Rightarrow> system \<Rightarrow> bool" for app sn where
  serve: "serve_request env app m path r (sys_gateway s) = Some (out, gw) \<Longrightarrow>
    snappy_of (services env) = sn \<Longrightarrow> meanwhile env = registrations denv us \<Longrightarrow>
    \<forall>i. ring_seen s (up_rings (uploading env) i) \<Longrightarrow> ring_seen s (part_ring env) \<Longrightarrow>
    sys_does app sn (Served env m path r out) s (s\<lparr>sys_gateway := gw\<rparr>)"
| scan: "sys_pass s = [] \<Longrightarrow> ring_seen s rg \<Longrightarrow> rebalance_scan env rg (sys_gateway s) = (ics, gw) \<Longrightarrow>
    sys_does app sn (Scanned env rg) s (s\<lparr>sys_gateway := gw, sys_pass := ics\<rparr>)"
| rebalance: "sys_pass s = ic # ics \<Longrightarrow> \<forall>i. ring_seen s (rb_rings rb i) \<Longrightarrow>
    sys_does app sn (Rebalanced env rb) s (s\<lparr>sys_gateway :=
      rebalance_chunk env rb (ReplicationFactor (objectHandler app)) ic (sys_gateway s), sys_pass := ics\<rparr>)"
| health: "sys_does app sn Checked s (s\<lparr>sys_gateway := health_round net env sched order (sys_gateway s)\<rparr>)"
| sync: "sync_step raftAPI env (sys_ring s, database_of_gw (sys_gateway s)) = (rm, db) \<Longrightarrow>
    sys_does app sn (Synced raftAPI env) s (s\<lparr>sys_gateway := (sys_gateway s)\<lparr>database_of_gw := db\<rparr>, sys_ring := rm\<rparr>)"
| boot: "storage_nodes (cluster_of_gw (sys_gateway s)) a = None \<Longrightarrow> fresh_node n \<Longrightarrow>
    c = (cluster_of_gw (sys_gateway s))\<lparr>storage_nodes := (storage_nodes (cluster_of_gw (sys_gateway s)))(a \<mapsto> n)\<rparr> \<Longrightarrow>
    sys_does app sn Booted s (s\<lparr>sys_gateway := (sys_gateway s)\<lparr>cluster_of_gw := c\<rparr>\<rparr>)"
| tick: "c = (cluster_of_gw (sys_gateway s))\<lparr>now := now (cluster_of_gw (sys_gateway s)) + int t\<rparr> \<Longrightarrow>
    sys_does app sn Ticked s (s\<lparr>sys_gateway := (sys_gateway s)\<lparr>cluster_of_gw := c\<rparr>\<rparr>)"

definition sys_step :: "app \<Rightarrow> snappy \<Rightarrow> system \<Rightarrow> system \<Rightarrow> bool" where
  "sys_step app sn s s' \<longleftrightarrow> (\<exists>e. sys_does app sn e s s')"

lemma sys_stepI: "sys_does app sn e s s' \<Longrightarrow> sys_step app sn s s'"
  unfolding sys_step_def by blast

text \<open>A pass of the rebalancer that nothing interrupts.\<close>

lemma pass_steps:
  assumes "\<forall>i. ring_seen s (rb_rings rb i)" "sys_pass s = []"
  shows "(sys_step app sn)\<^sup>*\<^sup>* s (s\<lparr>sys_gateway := rebalance_pass env rb (ReplicationFactor (objectHandler app)) (sys_gateway s)\<rparr>)"
proof -
  let ?rf = "ReplicationFactor (objectHandler app)"
  have chunks: "(sys_step app sn)\<^sup>*\<^sup>* (s\<lparr>sys_gateway := gw, sys_pass := ics\<rparr>)
      (s\<lparr>sys_gateway := fold (rebalance_chunk env rb ?rf) ics gw, sys_pass := []\<rparr>)" for ics gw
  proof (induction ics arbitrary: gw)
    case (Cons ic ics)
    let ?s = "s\<lparr>sys_gateway := gw, sys_pass := ic # ics\<rparr>"
    have "\<forall>i. ring_seen ?s (rb_rings rb i)" using assms(1) by (simp add: ring_seen_def)
    from sys_does.rebalance [of ?s ic ics rb app sn env, OF _ this]
    have "sys_step app sn ?s (s\<lparr>sys_gateway := rebalance_chunk env rb ?rf ic gw, sys_pass := ics\<rparr>)"
      by (intro sys_stepI) simp
    with Cons.IH show ?case by (simp add: converse_rtranclp_into_rtranclp)
  qed simp
  obtain ics gw where sc: "rebalance_scan env (rb_rings rb 0) (sys_gateway s) = (ics, gw)" by fastforce
  have "sys_step app sn s (s\<lparr>sys_gateway := gw, sys_pass := ics\<rparr>)"
    by (rule sys_stepI, rule sys_does.scan [OF assms(2) _ sc]) (use assms(1) in blast)
  with chunks [of ics gw] have "(sys_step app sn)\<^sup>*\<^sup>* s (s\<lparr>sys_gateway := fold (rebalance_chunk env rb ?rf) ics gw, sys_pass := []\<rparr>)"
    by (simp add: converse_rtranclp_into_rtranclp)
  moreover have "s\<lparr>sys_gateway := g, sys_pass := []\<rparr> = s\<lparr>sys_gateway := g\<rparr>" for g using assms(2) by (cases s) simp
  ultimately show ?thesis by (simp add: rebalance_pass_def sc)
qed

section \<open>Every step keeps the types\<close>

lemma registrations_typed: "tables_ok db \<Longrightarrow> tables_ok (registrations env us db)"
  unfolding registrations_def
  by (rule fold_invariant [where P = tables_ok])
    (use tables_db_run [of _ "CallCreateUser _ _" env] in \<open>auto split: prod.split\<close>)

context gateway_types
begin

lemma serve_typed:
  assumes "serve_request env app m path r gw = Some (out, gw')" "gateway_ok I gw"
    and "snappy_of (services env) = sn" "EncryptionKey (objectHandler app) = encKey"
    and "\<And>db. tables_ok db \<Longrightarrow> tables_ok (meanwhile env db)"
  shows "gateway_ok I gw'"
proof -
  obtain hnd vals where rt: "route m path = (hnd, vals)" by fastforce
  let ?r = "r\<lparr>pathValue := vals\<rparr>"
  have protected: "gateway_ok I gw'" if "protected env app f ?r gw = Some (out, gw')"
    "\<And>r'. f r' gw = Some (out, gw') \<Longrightarrow> gateway_ok I gw'" for f
    using that assms(2) by (auto simp: protected_def split: sum.splits)
  have answer: "gateway_ok I gw'" if "protected env app (answer f) ?r gw = Some (out, gw')"
    "\<And>r'. gateway_ok I (snd (f r' gw))" for f
  proof (rule protected [OF that(1)])
    fix r' assume "answer f r' gw = Some (out, gw')"
    then have "gw' = snd (f r' gw)" by (simp add: answer_def split_beta)
    with that(2) show "gateway_ok I gw'" by simp
  qed
  have db: "tables_ok (database_of_gw gw)" using assms(2) by (simp add: gateway_ok_def)
  note served = assms(1) [unfolded serve_request_def rt Let_def prod.case]
  show ?thesis
  proof (cases hnd)
    case AuthRegister
    with served Register_typed [OF db assms(5)] gateway_ok_db [OF assms(2)] show ?thesis
      by (auto simp: on_database_def Let_def split_beta)
  next
    case AuthLogin
    with served Login_typed [OF db] gateway_ok_db [OF assms(2)] show ?thesis
      by (auto simp: on_database_def Let_def split_beta)
  next
    case NodesRegister
    with served nodes_register_typed [OF db] gateway_ok_db [OF assms(2)] show ?thesis
      by (auto simp: on_database_def Let_def split_beta)
  next
    case ObjUpload
    then have "protected env app (Upload (services env) (uploading env) (objectHandler app)) ?r gw = Some (out, gw')"
      using served by simp
    then show ?thesis by (rule protected) (rule Upload_typed [OF _ assms(2-4)])
  next
    case ObjList
    with served show ?thesis by (intro answer [of "List (services env)"] List_typed assms(2)) simp
  next
    case ObjDownload
    with served show ?thesis
      by (intro answer [of "Download (services env) (objectHandler app)"] Download_typed assms(2)) simp
  next
    case ObjDelete
    with served show ?thesis
      by (intro answer [of "Delete (services env) (call_sched env)"] Delete_typed assms(2)) simp
  next
    case MultiInit
    with served show ?thesis by (intro answer [of "InitMultipart (services env)"] InitMultipart_typed assms(2)) simp
  next
    case MultiPart
    with served show ?thesis
      by (intro answer [of "UploadPart (services env) (call_sched env) (part_ring env) (part_rand env) (objectHandler app)"]
          UploadPart_typed assms(2-4)) simp
  next
    case MultiComplete
    with served show ?thesis
      by (intro answer [of "CompleteMultipart (services env)"] CompleteMultipart_typed assms(2)) simp
  qed (use served assms(2) in auto)
qed

end

text \<open>The types of the whole state, with a property \<open>I\<close> of the single storage nodes.\<close>

definition sys_typed :: "app \<Rightarrow> (address \<Rightarrow> NodeHandler option \<Rightarrow> bool) \<Rightarrow> system \<Rightarrow> bool" where
  "sys_typed app I s \<longleftrightarrow> gateway_ok I (sys_gateway s) \<and> (\<forall>ic \<in> set (sys_pass s). plain_name (ch_Hash (snd ic))) \<and>
     (\<exists>ns. sync_reachable (ClusterSecret (ringManager app)) (rm_quorumSize (ringManager app)) ns (sys_ring s))"

lemma sync_step_reachable:
  assumes "sync_reachable secret q ns rm"
  shows "\<exists>ns'. sync_reachable secret q ns' (fst (sync_step raftAPI env (rm, db)))"
proof -
  obtain v db' where "sync_nodes raftAPI env rm db = (v, db')" by fastforce
  with sync_reachable.skip [OF assms] sync_reachable.sync [OF assms] show ?thesis by (cases v) blast+
qed

lemma sync_step_tables: "same_tables db (snd (sync_step raftAPI env (rm, db)))"
proof -
  obtain v db1 where "GetAllNodes env db = (v, db1)" by fastforce
  with reads_same(5) [of db env] show ?thesis
    by (auto simp: sync_step_def sync_nodes_def Let_def same_tables_iff split: sum.split)
qed

context gateway_types
begin

lemma step_typed:
  assumes "sys_step app sn s s'" "sys_typed app I s" "EncryptionKey (objectHandler app) = encKey"
    and "\<And>a n. fresh_node n \<Longrightarrow> I a (storage_nodes (cluster_of_gw (sys_gateway s)) a) \<Longrightarrow>
      storage_nodes (cluster_of_gw (sys_gateway s)) a = None \<Longrightarrow> I a (Some n)"
  shows "sys_typed app I s'"
proof -
  obtain e where "sys_does app sn e s s'" using assms(1) unfolding sys_step_def by blast
  then show ?thesis
  proof cases
    case (serve env m path r out gw denv us)
    have "gateway_ok I gw"
      using serve_typed [OF serve(3) _ serve(4) assms(3)] assms(2) registrations_typed serve(5)
      by (simp add: sys_typed_def)
    with serve(2) assms(2) show ?thesis by (simp add: sys_typed_def)
  next
    case (scan rg env ics gw)
    with assms(2) rebalance_scan_typed [OF scan(5)] show ?thesis by (simp add: sys_typed_def)
  next
    case (rebalance ic ics rb env)
    with assms(2) rebalance_chunk_typed [of "sys_gateway s" "snd ic" env rb _ "fst ic"] show ?thesis by (simp add: sys_typed_def)
  next
    case (health net env sched order)
    with assms(2) health_round_typed show ?thesis by (simp add: sys_typed_def)
  next
    case (sync raftAPI env rm db)
    then have "same_tables (database_of_gw (sys_gateway s)) db" "rm = fst (sync_step raftAPI env (sys_ring s, database_of_gw (sys_gateway s)))"
      using sync_step_tables [of "database_of_gw (sys_gateway s)" raftAPI env "sys_ring s"] by simp_all
    with assms(2) sync(2) tables_same sync_step_reachable show ?thesis
      by (auto simp: sys_typed_def gateway_ok_def)
  next
    case (boot a n c)
    have inv: "client_inv (cluster_of_gw (sys_gateway s))" "\<And>b. I b (storage_nodes (cluster_of_gw (sys_gateway s)) b)"
      using assms(2) by (simp_all add: sys_typed_def gateway_ok_def nodes_all_def)
    have "client_inv c" using inv(1) boot(5) by (simp add: client_inv_def)
    moreover have "nodes_all I c"
      using inv(2) assms(4) [OF boot(4) inv(2) boot(3)] boot(5) by (simp add: nodes_all_def)
    ultimately show ?thesis using boot(2) assms(2) gateway_ok_cluster by (simp add: sys_typed_def)
  next
    case (tick c t)
    then have "client_inv c \<and> nodes_all I c"
      using assms(2) later_keeps by (simp add: sys_typed_def gateway_ok_def)
    with tick(2) assms(2) gateway_ok_cluster show ?thesis by (simp add: sys_typed_def)
  qed
qed

end

interpretation types: gateway_types "node_typed sn encKey" sn encKey for sn encKey
  by unfold_locales (simp add: node_typed_def disk_typed_def)

text \<open>The same, with the files outside the data directories as they were in the cluster \<open>c0\<close>.\<close>

interpretation typed_confined:
  gateway_types "\<lambda>a n. node_typed sn encKey a n \<and> confined_from c0 a n" sn encKey for sn encKey c0
proof
  show "node_typed sn encKey a (Some n) \<and> confined_from c0 a (Some n) \<Longrightarrow> request_typed sn encKey req \<Longrightarrow>
      node_typed sn encKey a (Some (snd (serve io req n))) \<and> confined_from c0 a (Some (snd (serve io req n)))" for a n req io
    by (simp add: typed.serve_keeps confine.serve_keeps request_typed_ok)
qed (auto simp: node_typed_def disk_typed_def)

abbreviation nodes_of :: "system \<Rightarrow> address \<rightharpoonup> NodeHandler" where
  "nodes_of s \<equiv> storage_nodes (cluster_of_gw (sys_gateway s))"

lemma fresh_typed: "fresh_node n \<Longrightarrow> node_typed sn encKey a (Some n)"
  by (simp add: fresh_node_def node_typed_def disk_typed_def)

lemma NewRouter_simps [simp]:
  "EncryptionKey (objectHandler (NewRouter cfg)) = cfg_EncryptionKey cfg"
  "ReplicationFactor (objectHandler (NewRouter cfg)) = cfg_ReplicationFactor cfg"
  "ringManager (NewRouter cfg) =
     NewRingManager 50 (cfg_ClusterSecret cfg) (go_div (cfg_ReplicationFactor cfg) 2 + 1)"
  by (simp_all add: NewRouter_def Let_def)

lemma init_typed:
  assumes "sys_init (NewRouter cfg) s" "\<And>a. I a None"
  shows "sys_typed (NewRouter cfg) I s"
proof -
  have "sync_reachable (cfg_ClusterSecret cfg) (go_div (cfg_ReplicationFactor cfg) 2 + 1) None (sys_ring s)"
    using assms sync_reachable.start by (simp add: sys_init_def)
  moreover have "ClusterSecret (ringManager (NewRouter cfg)) = cfg_ClusterSecret cfg"
    "rm_quorumSize (ringManager (NewRouter cfg)) = go_div (cfg_ReplicationFactor cfg) 2 + 1"
    by (simp_all add: NewRingManager_def)
  moreover have "tables_ok empty_db" by (simp add: tables_ok_def rows_ok_def inv_empty_db) (simp add: empty_db_def)
  ultimately show ?thesis
    using assms by (auto simp: sys_typed_def sys_init_def gateway_ok_def client_inv_new nodes_all_def)
qed

interpretation run: state_machine "sys_init (NewRouter cfg)" "sys_step (NewRouter cfg) sn"
    "sys_typed (NewRouter cfg) (node_typed sn (cfg_EncryptionKey cfg))" for cfg sn
  by unfold_locales (simp_all add: init_typed types.step_typed fresh_typed node_typed_def [of _ _ _ None])

text \<open>From a state that was reached, the other files stay what they are there.\<close>

interpretation later: state_machine
    "\<lambda>s. s = s1 \<and> sys_typed (NewRouter cfg) (node_typed sn (cfg_EncryptionKey cfg)) s"
    "sys_step (NewRouter cfg) sn"
    "sys_typed (NewRouter cfg) (\<lambda>a n. node_typed sn (cfg_EncryptionKey cfg) a n \<and>
       confined_from (cluster_of_gw (sys_gateway s1)) a n)" for cfg sn s1
proof
  fix s assume "s = s1 \<and> sys_typed (NewRouter cfg) (node_typed sn (cfg_EncryptionKey cfg)) s"
  then show "sys_typed (NewRouter cfg) (\<lambda>a n. node_typed sn (cfg_EncryptionKey cfg) a n \<and>
       confined_from (cluster_of_gw (sys_gateway s1)) a n) s"
    by (auto simp: sys_typed_def gateway_ok_def nodes_all_def confined_from_def confined_def)
next
  fix s s' assume "sys_step (NewRouter cfg) sn s s'"
    "sys_typed (NewRouter cfg) (\<lambda>a n. node_typed sn (cfg_EncryptionKey cfg) a n \<and>
       confined_from (cluster_of_gw (sys_gateway s1)) a n) s"
  then show "sys_typed (NewRouter cfg) (\<lambda>a n. node_typed sn (cfg_EncryptionKey cfg) a n \<and>
       confined_from (cluster_of_gw (sys_gateway s1)) a n) s'"
    by (rule typed_confined.step_typed) (simp_all add: fresh_typed confined_from_def)
qed

text \<open>The rings that handlers read are built by the sync loop.\<close>

lemma seen_ring_wf:
  assumes "sys_typed app I s" "ring_seen s rg"
  shows "ring_wf rg"
proof -
  obtain ns where ns: "sync_reachable (ClusterSecret (ringManager app)) (rm_quorumSize (ringManager app)) ns (sys_ring s)"
    using assms(1) by (auto simp: sys_typed_def)
  have "New vn = build vn []" for vn by (simp add: build_def)
  with sync_reachable_spec [OF ns] have "\<exists>vn ns. rm_Ring (sys_ring s) = build vn ns" by (auto split: option.splits)
  moreover have "\<exists>vn ns. rg = build vn ns" if "rg \<in> set (published_rings ns)" for ns
    using that by (auto simp: published_rings_def build_def)
  ultimately show ?thesis using assms(2) ring_wf_build by (auto simp: ring_seen_def)
qed

section \<open>Properties\<close>

text \<open>
  C12: every state that the gateway can reach is well typed. The tables satisfy their
  constraints, and every chunk row of an object or an upload gives the hash and the size of a
  non-empty chunk and an index that fits its column. The circuit breakers are consistent. Every
  file in the data directory of a storage node is an encryption under the gateway's key of a
  compressed chunk that has the hash it is named by, or the beginning of one: no plaintext ever
  reaches a disk. The ring manager is in a state of its sync loop.
\<close>

theorem system_types:
  assumes "sys_init (NewRouter cfg) s0" "(sys_step (NewRouter cfg) sn)\<^sup>*\<^sup>* s0 s"
  shows "tables_ok (database_of_gw (sys_gateway s)) \<and> client_inv (cluster_of_gw (sys_gateway s)) \<and>
    (\<forall>a n. nodes_of s a = Some n \<longrightarrow> disk_typed sn (cfg_EncryptionKey cfg) n) \<and>
    (\<exists>ns. sync_reachable (cfg_ClusterSecret cfg) (go_div (cfg_ReplicationFactor cfg) 2 + 1) ns (sys_ring s))"
  using run.reachable_inv [OF assms]
  by (simp add: sys_typed_def gateway_ok_def nodes_all_def node_typed_def NewRingManager_def)

text \<open>
  C13: the storage nodes' other files are safe. Once a storage node is part of the system, nothing that the
  gateway does or is asked to do removes the node, moves its data directory, or changes anything on
  its disk that is not directly in that directory or one of the directories leading to it, whatever
  the requests contain: the handlers of the nodes would follow a path, but the gateway never sends one.
\<close>

theorem files_confined:
  assumes "sys_init (NewRouter cfg) s0" "(sys_step (NewRouter cfg) sn)\<^sup>*\<^sup>* s0 s1"
    and "(sys_step (NewRouter cfg) sn)\<^sup>*\<^sup>* s1 s" "nodes_of s1 a = Some n0"
  shows "\<exists>n. nodes_of s a = Some n \<and> DataDir n = DataDir n0 \<and>
    (\<forall>p. outside n0 p \<longrightarrow> entry_at n p = entry_at n0 p)"
  using later.reachable_inv [OF _ assms(3), of s1] run.reachable_inv [OF assms(1,2)] assms(4)
  by (simp add: sys_typed_def gateway_ok_def nodes_all_def confined_from_def confined_def)

section \<open>Concrete instances\<close>

definition sys_start :: "Config \<Rightarrow> system" where
  "sys_start cfg = \<lparr>sys_gateway = \<lparr>cluster_of_gw = cluster_of Map.empty Map.empty 0, database_of_gw = empty_db\<rparr>,
     sys_ring = ringManager (NewRouter cfg), sys_pass = []\<rparr>"

definition sys_booted :: "Config \<Rightarrow> system" where
  "sys_booted cfg = \<lparr>sys_gateway = \<lparr>cluster_of_gw = cluster_of [''n'' \<mapsto> disk_example] Map.empty 0, database_of_gw = empty_db\<rparr>,
     sys_ring = ringManager (NewRouter cfg), sys_pass = []\<rparr>"

lemma fresh_example: "fresh_node disk_example"
proof -
  have "chunk_at disk_example h = None" if "plain_name h" for h
    using that by (simp add: chunk_at_def disk_example_def entry_at_def Join_plain Clean_def Let_def)
  then show ?thesis by (simp add: fresh_node_def node_ok_example)
qed

lemma booted: "sys_does (NewRouter cfg) sn Booted (sys_start cfg) (sys_booted cfg)"
proof -
  have "sys_booted cfg = sys_start cfg\<lparr>sys_gateway := (sys_gateway (sys_start cfg))\<lparr>cluster_of_gw :=
      (cluster_of_gw (sys_gateway (sys_start cfg)))\<lparr>storage_nodes :=
        (nodes_of (sys_start cfg))(''n'' \<mapsto> disk_example)\<rparr>\<rparr>\<rparr>"
    by (simp add: sys_booted_def sys_start_def cluster_of_def)
  then show ?thesis by (simp only:) (rule sys_does.boot [OF _ fresh_example refl], simp add: sys_start_def cluster_of_def)
qed

lemma sys_runs:
  "sys_init (NewRouter cfg) (sys_start cfg)"
  "(sys_step (NewRouter cfg) sn)\<^sup>*\<^sup>* (sys_start cfg) (sys_booted cfg)"
  "(sys_step (NewRouter cfg) sn)\<^sup>*\<^sup>* (sys_booted cfg) (sys_booted cfg\<lparr>sys_gateway :=
     rebalance_pass env_ok rb (cfg_ReplicationFactor cfg) (health_round net env sched order (sys_gateway (sys_booted cfg)))\<rparr>)"
  if "\<forall>i. rb_rings rb i = New 50" for net env sched order rb
proof -
  show "sys_init (NewRouter cfg) (sys_start cfg)"
    by (simp add: sys_init_def sys_start_def cluster_of_def)
  have "sys_step (NewRouter cfg) sn (sys_start cfg) (sys_booted cfg)" by (rule sys_stepI, rule booted)
  then show "(sys_step (NewRouter cfg) sn)\<^sup>*\<^sup>* (sys_start cfg) (sys_booted cfg)" by blast
  let ?h = "sys_booted cfg\<lparr>sys_gateway := health_round net env sched order (sys_gateway (sys_booted cfg))\<rparr>"
  have "sys_step (NewRouter cfg) sn (sys_booted cfg) ?h" by (rule sys_stepI, rule sys_does.health)
  moreover have "\<forall>i. ring_seen ?h (rb_rings rb i)" "sys_pass ?h = []"
    using that by (simp_all add: ring_seen_def sys_booted_def NewRingManager_def)
  then have "(sys_step (NewRouter cfg) sn)\<^sup>*\<^sup>* ?h (?h\<lparr>sys_gateway :=
      rebalance_pass env_ok rb (ReplicationFactor (objectHandler (NewRouter cfg))) (sys_gateway ?h)\<rparr>)"
    by (rule pass_steps)
  ultimately show "(sys_step (NewRouter cfg) sn)\<^sup>*\<^sup>* (sys_booted cfg) (sys_booted cfg\<lparr>sys_gateway :=
     rebalance_pass env_ok rb (cfg_ReplicationFactor cfg) (health_round net env sched order (sys_gateway (sys_booted cfg)))\<rparr>)"
    by (simp add: converse_rtranclp_into_rtranclp)
qed

definition config_plain :: Config where
  "config_plain = \<lparr>cfg_GatewayPort = ''8080'', cfg_StorageNodePort = ''9000'', cfg_DBHost = ''h'', cfg_DBPort = ''1'',
     cfg_DBUser = ''u'', cfg_DBPassword = ''p'', cfg_DBName = ''d'', cfg_DBDSN = '''', cfg_JWTSecret = ''s'',
     cfg_JWTExpiryHours = 1, cfg_ChunkSizeMB = 1, cfg_ReplicationFactor = 1, cfg_QuorumSize = 1,
     cfg_EncryptionKey = replicate 32 0, cfg_ClusterSecret = ''c''\<rparr>"

definition rb_plain :: rb_env where
  "rb_plain = \<lparr>rb_rings = (\<lambda>i. New 50), rb_expected = (\<lambda>i. []), rb_current = (\<lambda>i. []), rb_fetches = (\<lambda>i. []),
     rb_sched = (\<lambda>i. [])\<rparr>"

lemma rb_plain_rings: "\<forall>i. rb_rings rb_plain i = New 50"
  by (simp add: rb_plain_def)

lemma system_types_witness:
  "db_inv empty_db \<and> disk_typed (snappy_of env_ok) (replicate 32 0) disk_example"
proof -
  have "nodes_of (sys_booted config_plain) ''n'' = Some disk_example"
    "database_of_gw (sys_gateway (sys_booted config_plain)) = empty_db" "cfg_EncryptionKey config_plain = replicate 32 0"
    by (simp_all add: sys_booted_def cluster_of_def config_plain_def)
  with system_types [OF sys_runs(1,2) [OF rb_plain_rings], of config_plain "snappy_of env_ok"] show ?thesis
    by (auto simp: tables_ok_def)
qed

lemma files_confined_witness:
  "\<exists>n. nodes_of (sys_booted config_plain\<lparr>sys_gateway := rebalance_pass env_ok rb_plain (cfg_ReplicationFactor config_plain)
       (health_round net_ok (db_of env_ok) [] [] (sys_gateway (sys_booted config_plain)))\<rparr>) ''n'' = Some n \<and>
     DataDir n = ''./data'' \<and> entry_at n (True, [''etc'', ''passwd'']) = None"
proof -
  have b: "nodes_of (sys_booted config_plain) ''n'' = Some disk_example"
    by (simp add: sys_booted_def cluster_of_def)
  have "outside disk_example (True, [''etc'', ''passwd''])" "entry_at disk_example (True, [''etc'', ''passwd'']) = None"
    "DataDir disk_example = ''./data''"
    by (simp_all add: outside_def disk_example_def data_dirs_def ancestors_def Clean_def parent_def entry_at_def Let_def)
  with files_confined [OF sys_runs(1,2) [OF rb_plain_rings] sys_runs(3) [OF rb_plain_rings, of config_plain
      "snappy_of env_ok" net_ok "db_of env_ok" "[]" "[]"] b]
  show ?thesis by auto
qed

end
