(* ===== verification/Durability.thy ===== *)
theory Durability imports System begin

text \<open>
  What becomes of an object after its upload: the gateway serves other requests, its loops run, storage
  nodes appear. The file says what these must not do to the chunks of the object (delete them, save
  something else under their names, or move them), and shows that it then stays complete and can be
  downloaded.
\<close>

section \<open>What must not happen\<close>

text \<open>
  A chunk that is saved next to those of the object: it has another hash, or it is one of them and no
  disk cuts a write short.
\<close>

definition fits :: "net_env \<Rightarrow> bytes list \<Rightarrow> bytes \<Rightarrow> bool" where
  "fits net cs d \<longleftrightarrow> (\<forall>c \<in> set cs. sha256hex d = sha256hex c \<longrightarrow> d = c \<and> (\<forall>a. \<not> torn net a))"

definition named_by :: "bytes list \<Rightarrow> string \<Rightarrow> bool" where
  "named_by cs h \<longleftrightarrow> h \<in> sha256hex ` set cs"

text \<open>
  An event that respects the object \<open>oid\<close> with the chunks \<open>cs\<close>. Uploads and parts fit. A deletion is of
  another object, which has no chunk in common with it. The rebalancer has found the chunks of the object
  where the ring that it reads wants them; a chunk that it moves, which can be long gone, is another one.
  Identifiers are those of PostgreSQL.
\<close>

fun leaves_alone :: "app \<Rightarrow> uuid \<Rightarrow> bytes list \<Rightarrow> system \<Rightarrow> event \<Rightarrow> bool" where
  "leaves_alone app oid cs s (Served env m path r out) \<longleftrightarrow>
     (let (hnd, vals) = route m path; sv = services env; h = objectHandler app; db = database_of_gw (sys_gateway s)
      in uuids_ok (db_of sv) \<and>
         (hnd = ObjUpload \<longrightarrow> (\<forall>d \<in> set (blocks_of (nat (chunk_size h)) (reqBody r)). fits (net_of sv) cs d)) \<and>
         (hnd = MultiPart \<longrightarrow> fits (net_of sv) cs (snd (part_of h r))) \<and>
         (hnd = ObjDelete \<longrightarrow> uuid_in (db_of sv) (vals ''id'') \<noteq> Some oid \<and>
            (\<forall>c \<in> set (chunks db). uuid_in (db_of sv) (vals ''id'') = Some (ch_ObjectID c) \<longrightarrow> \<not> named_by cs (ch_Hash c))))"
| "leaves_alone app oid cs s (Rebalanced env rb) \<longleftrightarrow>
     (case sys_pass s of
        [] \<Rightarrow> True
      | (i, ch) # _ \<Rightarrow>
          if named_by cs (ch_Hash ch)
          then set (GetNodes (rb_rings rb (Suc i)) (ch_Hash ch) (ReplicationFactor (objectHandler app))) = set (ch_NodeAddresses ch)
          else uuid_in (db_of env) (ch_ID ch) = Some (ch_ID ch) \<and>
            (\<forall>c \<in> set (chunks (database_of_gw (sys_gateway s))). ch_ObjectID c = oid \<longrightarrow> ch_ID c \<noteq> ch_ID ch))"
| "leaves_alone app oid cs s _ \<longleftrightarrow> True"

definition undisturbed :: "app \<Rightarrow> snappy \<Rightarrow> uuid \<Rightarrow> bytes list \<Rightarrow> system \<Rightarrow> system \<Rightarrow> bool" where
  "undisturbed app sn oid cs s s' \<longleftrightarrow> (\<exists>e. sys_does app sn e s s' \<and> leaves_alone app oid cs s e)"

section \<open>The files\<close>

text \<open>What a node may hold under the name of a chunk, and the replicas that are to stay.\<close>

definition seals :: "snappy \<Rightarrow> bytes \<Rightarrow> bytes \<Rightarrow> bytes set" where
  "seals sn encKey d = {e. \<exists>rand. Encrypt rand (snappy_Encode sn d) encKey = Inr e}"

definition replicas_kept :: "snappy \<Rightarrow> bytes \<Rightarrow> (address \<times> bytes) set \<Rightarrow> cluster \<Rightarrow> bool" where
  "replicas_kept sn encKey K c \<longleftrightarrow> (\<forall>(a, d) \<in> K. holds_in c a (sha256hex d) (seals sn encKey d))"

definition request_kept :: "snappy \<Rightarrow> bytes \<Rightarrow> (address \<times> bytes) set \<Rightarrow> net_env \<Rightarrow> node_request \<Rightarrow> bool" where
  "request_kept sn encKey K net req \<longleftrightarrow> request_ok req \<and>
     (\<forall>(a, d) \<in> K. changes req (sha256hex d) \<longrightarrow>
        \<not> torn net a \<and> (\<exists>e \<in> seals sn encKey d. req = ReqSave (sha256hex d) e))"

interpretation replicas: cluster_invariant "replicas_kept sn encKey K" "request_kept sn encKey K" for sn encKey K
proof
  show "replicas_kept sn encKey K c \<Longrightarrow> request_kept sn encKey K net req \<Longrightarrow>
      replicas_kept sn encKey K (snd (call_step net (a, req) (p, c)))" for c net req a p
    unfolding replicas_kept_def request_kept_def
    by (auto simp: replaces_def intro!: holds_in_call_step sha256hex_plain)
qed (auto simp: replicas_kept_def request_kept_def holds_in_def node_holds_def)

lemma fits_saves:
  assumes "fits net cs d" "snd ` K \<subseteq> set cs"
  shows "saves_ok (request_kept sn encKey K net) sn encKey d"
  using assms by (fastforce simp: saves_ok_def request_kept_def fits_def seals_def sha256hex_plain)

lemma unnamed_delete:
  assumes "\<not> named_by cs h" "plain_name h" "snd ` K \<subseteq> set cs"
  shows "request_kept sn encKey K net (ReqDelete h)"
  using assms by (fastforce simp: request_kept_def named_by_def)

lemma rebalance_chunk_replicas:
  fixes ch :: Chunk
  assumes "replicas_kept sn encKey K (cluster_of_gw gw)" "\<not> named_by cs (ch_Hash ch)" "plain_name (ch_Hash ch)"
    and "snd ` K \<subseteq> set cs"
  shows "replicas_kept sn encKey K (cluster_of_gw (rebalance_chunk env rb rf (i, ch) gw))"
proof -
  have "node_holds (cluster_of_gw (rebalance_chunk env rb rf (i, ch) gw)) a (sha256hex d) e =
      node_holds (cluster_of_gw gw) a (sha256hex d) e" if "(a, d) \<in> K" for a d e
  proof (rule rebalance_chunk_frame [OF assms(3) sha256hex_plain])
    show "ch_Hash ch \<noteq> sha256hex d" using assms(2,4) that by (fastforce simp: named_by_def)
  qed
  with assms(1) show ?thesis by (fastforce simp: replicas_kept_def holds_in_def)
qed

section \<open>The rows\<close>

definition row_ids :: "rows \<Rightarrow> uuid set" where
  "row_ids V = (\<Union>p \<in> set V. (ch_ID \<circ> fst) ` set (snd p))"

lemma in_row_ids:
  "i \<in> row_ids (view Q db) \<longleftrightarrow>
     (\<exists>x \<in> set (objects db). Q x \<and> (\<exists>c \<in> set (chunks db). ch_ObjectID c = obj_ID x \<and> ch_ID c = i))"
  by (fastforce simp: row_ids_def view_def image_iff)

text \<open>The locations of other chunks can change.\<close>

lemma moved_sees:
  assumes "objects db' = objects db" "chunks db' = chunks db" "u \<notin> row_ids (view Q db)"
    and "\<And>j. j \<noteq> u \<Longrightarrow> locations_of db' j = locations_of db j"
  shows "view Q db' = view Q db"
  using assms(3,4) by (intro view_eq) (auto simp: assms(1,2) in_row_ids)

lemma locations_see:
  assumes "uuid_in env u = Some u" "u \<notin> row_ids V" "view Q db = V"
  shows "view Q (snd (AddChunkLocation env u n db)) = V" "view Q (snd (RemoveChunkLocation env u n db)) = V"
proof -
  have "keeps (sees Q V) (\<lambda>k db. case uuid_in env u of None \<Rightarrow> Inl bad_uuid | Some u \<Rightarrow>
      if \<not> text_ok env n then Inl (violation ''invalid byte sequence'')
      else if (u, n) \<in> set (chunk_locations db) then Inr ((), db)
      else if u \<notin> ch_ID ` set (chunks db) then Inl (violation ''chunk_locations_chunk_id_fkey'')
      else Inr ((), db\<lparr>chunk_locations := chunk_locations db @ [(u, n)]\<rparr>))"
    using assms(1,2) moved_sees [of _ _ u Q] by (auto simp: keeps_def sees_def locations_of_def)
  from exec_stmt_keeps [OF this on_tables_sees, of db env] assms(3)
  show "view Q (snd (AddChunkLocation env u n db)) = V" by (simp add: AddChunkLocation_def sees_def)
  have "locations_of (db\<lparr>chunk_locations := filter (\<lambda>l. l \<noteq> (u, n)) (chunk_locations db)\<rparr>) j = locations_of db j" if "j \<noteq> u" for j db
    using that by (auto simp: locations_of_def intro!: arg_cong [where f = "map snd"] filter_cong)
  then have "keeps (sees Q V) (\<lambda>k db. case uuid_in env u of None \<Rightarrow> Inl bad_uuid | Some u \<Rightarrow>
      Inr ((), db\<lparr>chunk_locations := filter (\<lambda>l. l \<noteq> (u, n)) (chunk_locations db)\<rparr>))"
    using assms(1,2) moved_sees [of _ _ u Q] by (auto simp: keeps_def sees_def)
  from exec_stmt_keeps [OF this on_tables_sees, of db env] assms(3)
  show "view Q (snd (RemoveChunkLocation env u n db)) = V" by (simp add: RemoveChunkLocation_def sees_def)
qed

lemma rebalance_chunk_sees:
  fixes ch :: Chunk
  assumes u: "uuid_in (db_of env) (ch_ID ch) = Some (ch_ID ch)" "ch_ID ch \<notin> row_ids V"
    and "view Q (database_of_gw gw) = V"
  shows "view Q (database_of_gw (rebalance_chunk env rb rf (i, ch) gw)) = V"
proof -
  have add: "view Q (add_locations (db_of env) (ch_ID ch) ns db) = V" if "view Q db = V" for ns db
    using that locations_see(1) [OF u] by (induction ns arbitrary: db) (simp_all add: Let_def split_beta)
  have drop: "view Q (database_of_gw (drop_obsolete env (ch_ID ch) h ns gw)) = V"
    if "view Q (database_of_gw gw) = V" for h ns gw
    using that locations_see(2) [OF u] by (induction ns arbitrary: gw) (simp_all add: Let_def split_beta)
  show ?thesis
    by (cases rule: rebalance_chunk_cases [of rb rf i ch env gw]) (simp_all add: assms(3) add drop)
qed

section \<open>Every step keeps the object\<close>

definition object_kept :: "app \<Rightarrow> snappy \<Rightarrow> uuid \<Rightarrow> (address \<times> bytes) set \<Rightarrow> rows \<Rightarrow> system \<Rightarrow> bool" where
  "object_kept app sn oid K V s \<longleftrightarrow> object_view oid (database_of_gw (sys_gateway s)) = V \<and>
     replicas_kept sn (EncryptionKey (objectHandler app)) K (cluster_of_gw (sys_gateway s))"

text \<open>Rows and replicas that belong to the chunks \<open>cs\<close>.\<close>

definition belongs :: "bytes list \<Rightarrow> (address \<times> bytes) set \<Rightarrow> rows \<Rightarrow> bool" where
  "belongs cs K V \<longleftrightarrow> snd ` K \<subseteq> set cs \<and> V \<noteq> [] \<and> (\<forall>p \<in> set V. \<forall>(c, l) \<in> set (snd p). named_by cs (ch_Hash c))"

lemma registrations_see: "view Q (registrations env us db) = view Q db"
  unfolding registrations_def
  by (rule fold_invariant [where P = "\<lambda>d. view Q d = view Q db"]) (simp_all add: aside_users split: prod.split)

lemma health_sees: "view Q (database_of_gw (health_round net env sched order gw)) = view Q (database_of_gw gw)"
proof -
  have "view Q (snd (UpdateNodeStatus env a b db)) = view Q db" for a b db
    unfolding UpdateNodeStatus_def by (rule exec_sees) (auto simp: aside_def split: if_splits)
  then have "view Q (fold (health_update env ns ps) js db) = view Q db" for ns ps js db
    by (intro fold_invariant [where P = "\<lambda>d. view Q d = view Q db"]) (simp_all add: health_update_def Let_def)
  moreover have "view Q (snd (GetAllNodes env db)) = view Q db" for db by (rule view_tables [OF reads_same(5)])
  ultimately show ?thesis by (simp add: health_round_def Let_def split_beta split: sum.split)
qed

lemma served_kept:
  assumes "serve_request env app m path r (sys_gateway s) = Some (out, gw)" "leaves_alone app oid cs s (Served env m path r out)"
    and "snappy_of (services env) = sn" "meanwhile env = registrations denv us"
    and kept: "object_kept app sn oid K V s" and "belongs cs K V" "tables_ok (database_of_gw (sys_gateway s))"
  shows "object_kept app sn oid K V (s\<lparr>sys_gateway := gw\<rparr>)"
proof -
  let ?db = "database_of_gw (sys_gateway s)" and ?net = "net_of (services env)" and ?env = "db_of (services env)"
  have K: "snd ` K \<subseteq> set cs" and V: "V \<noteq> []" "object_view oid ?db = V"
    using assms(5,6) by (simp_all add: belongs_def object_kept_def)
  have alone: "uuids_ok ?env"
    "fst (route m path) = ObjUpload \<Longrightarrow>
      \<forall>d \<in> set (blocks_of (nat (chunk_size (objectHandler app))) (reqBody r)). fits ?net cs d"
    "fst (route m path) = MultiPart \<Longrightarrow> fits ?net cs (snd (part_of (objectHandler app) r))"
    "fst (route m path) = ObjDelete \<Longrightarrow> uuid_in ?env (snd (route m path) ''id'') \<noteq> Some oid \<and>
      (\<forall>c \<in> set (chunks ?db). uuid_in ?env (snd (route m path) ''id'') = Some (ch_ObjectID c) \<longrightarrow> \<not> named_by cs (ch_Hash c))"
    using assms(2) by (simp_all add: Let_def split_beta)
  have "spares V ?env (snd (route m path) ''id'') u" if "fst (route m path) = ObjDelete" for u
    using alone(4) [OF that] V(2) [symmetric] view_objects [of "\<lambda>x. obj_ID x = oid" ?db] by (auto simp: spares_def)
  then have "object_view oid (database_of_gw gw) = object_view oid ?db"
    using assms(4,7) alone(1) foreign_object [OF V(1)] V(2) registrations_see
    by (intro serve_sees [OF assms(1)]) (auto simp: tables_ok_def)
  moreover have "replicas_kept sn (EncryptionKey (objectHandler app)) K (cluster_of_gw gw)"
  proof (rule replicas.request_keeps [OF assms(1)])
    show "replicas_kept sn (EncryptionKey (objectHandler app)) K (cluster_of_gw (sys_gateway s))"
      using kept by (simp add: object_kept_def)
    fix cs' db ch
    assume d: "fst (route m path) = ObjDelete" and g: "GetChunksByObjectID ?env (snd (route m path) ''id'') ?db = (Inr cs', db)"
      and ch: "ch \<in> set cs'"
    from GetChunks_rows [OF g ch] obtain c where "c \<in> set (chunks ?db)" "chunk_fields c = chunk_fields ch"
      "uuid_in ?env (snd (route m path) ''id'') = Some (ch_ObjectID c)" by metis
    with alone(4) [OF d] have "\<not> named_by cs (ch_Hash ch)" by (auto simp: chunk_fields_def)
    with GetChunks_typed [OF assms(7) g ch] show "request_kept sn (EncryptionKey (objectHandler app)) K ?net (ReqDelete (ch_Hash ch))"
      using unnamed_delete K describes_plain by blast
  qed (use alone assms(3) fits_saves [OF _ K] in auto)
  ultimately show ?thesis using V(2) by (simp add: object_kept_def)
qed

lemma scanned_kept:
  assumes "object_kept app sn oid K V s" "rebalance_scan env rg (sys_gateway s) = (ics, gw)"
  shows "object_kept app sn oid K V (s\<lparr>sys_gateway := gw, sys_pass := ics\<rparr>)"
proof -
  obtain v db where g: "GetAllChunks (db_of env) (database_of_gw (sys_gateway s)) = (v, db)" by fastforce
  then have "gw = (sys_gateway s)\<lparr>database_of_gw := db\<rparr>"
    using assms(2) by (auto simp: rebalance_scan_def Let_def split: sum.splits if_splits)
  moreover have "view Q db = view Q (database_of_gw (sys_gateway s))" for Q
    using view_tables [OF reads_same(4), where env1 = "db_of env"] g by (metis snd_conv)
  ultimately show ?thesis using assms(1) by (simp add: object_kept_def)
qed

lemma rebalanced_kept:
  assumes "leaves_alone app oid cs s (Rebalanced env rb)" "object_kept app sn oid K V s" "belongs cs K V"
    and "sys_pass s = (i, ch) # ics" "plain_name (ch_Hash ch)"
  shows "object_kept app sn oid K V (s\<lparr>sys_gateway :=
    rebalance_chunk env rb (ReplicationFactor (objectHandler app)) (i, ch) (sys_gateway s), sys_pass := ics\<rparr>)"
proof -
  let ?rf = "ReplicationFactor (objectHandler app)" and ?gw = "sys_gateway s"
  have gw: "replicas_kept sn (EncryptionKey (objectHandler app)) K (cluster_of_gw ?gw)" "object_view oid (database_of_gw ?gw) = V"
    using assms(2) by (simp_all add: object_kept_def)
  show ?thesis
  proof (cases "named_by cs (ch_Hash ch)")
    case True
    with assms(1,4) have "set (GetNodes (rb_rings rb (Suc i)) (ch_Hash ch) ?rf) = set (ch_NodeAddresses ch)" by simp
    then have "missing_nodes p (GetNodes (rb_rings rb (Suc i)) (ch_Hash ch) ?rf) (ch_NodeAddresses ch) = []"
      "missing_nodes p (ch_NodeAddresses ch) (GetNodes (rb_rings rb (Suc i)) (ch_Hash ch) ?rf) = []" for p
      using set_missing by (metis Diff_cancel set_empty)+
    then have "rebalance_chunk env rb ?rf (i, ch) ?gw = ?gw" by (simp add: rebalance_chunk_def Let_def)
    with gw show ?thesis by (simp add: object_kept_def)
  next
    case False
    with assms(1,4) have u: "uuid_in (db_of env) (ch_ID ch) = Some (ch_ID ch)"
      "\<forall>c \<in> set (chunks (database_of_gw ?gw)). ch_ObjectID c = oid \<longrightarrow> ch_ID c \<noteq> ch_ID ch" by simp_all
    have "ch_ID ch \<notin> row_ids V" using u(2) gw(2) [symmetric] by (auto simp: in_row_ids)
    with False u(1) gw assms(3,5) show ?thesis
      by (simp add: object_kept_def belongs_def rebalance_chunk_replicas rebalance_chunk_sees)
  qed
qed

lemma undisturbed_kept:
  assumes "undisturbed app sn oid cs s s'" "object_kept app sn oid K V s" "belongs cs K V"
    and "tables_ok (database_of_gw (sys_gateway s))" "\<forall>ic \<in> set (sys_pass s). plain_name (ch_Hash (snd ic))"
  shows "object_kept app sn oid K V s'"
proof -
  obtain e where e: "sys_does app sn e s s'" "leaves_alone app oid cs s e" using assms(1) unfolding undisturbed_def by blast
  from e(1) show ?thesis
  proof cases
    case (serve env m path r out gw denv us)
    with e(2) served_kept [OF serve(3) _ serve(4,5) assms(2,3,4)] show ?thesis by simp
  next
    case (scan rg env ics gw)
    with scanned_kept [OF assms(2)] show ?thesis by simp
  next
    case (rebalance ic ics rb env)
    obtain i ch where ic: "ic = (i, ch)" by fastforce
    with rebalance(3) assms(5) have "plain_name (ch_Hash ch)" by simp
    with e(2) rebalance rebalanced_kept [OF _ assms(2,3)] ic show ?thesis by simp
  next
    case (health net env sched order)
    with assms(2) replicas.health_round_keeps health_sees show ?thesis by (simp add: object_kept_def)
  next
    case (sync raftAPI env rm db)
    with view_tables [OF sync_step_tables [of "database_of_gw (sys_gateway s)" raftAPI env "sys_ring s"]] assms(2)
    show ?thesis by (simp add: object_kept_def)
  next
    case (boot a n c)
    have "b \<noteq> a" if "holds_in (cluster_of_gw (sys_gateway s)) b h D" for b h D
      using that boot(3) by (auto simp: holds_in_def node_holds_def)
    then have "holds_in c b h D" if "holds_in (cluster_of_gw (sys_gateway s)) b h D" for b h D
      using that boot(5) by (auto simp: holds_in_def node_holds_def)
    with boot(2) assms(2) show ?thesis by (auto simp: object_kept_def replicas_kept_def)
  next
    case (tick c t)
    then have "holds_in c b h D = holds_in (cluster_of_gw (sys_gateway s)) b h D" for b h D by (intro holds_in_cong) simp
    with tick(2) assms(2) show ?thesis by (simp add: object_kept_def replicas_kept_def)
  qed
qed

interpretation kept: state_machine
    "\<lambda>s. sys_typed (NewRouter cfg) (node_typed sn (cfg_EncryptionKey cfg)) s \<and> belongs cs K V \<and>
       object_kept (NewRouter cfg) sn oid K V s"
    "undisturbed (NewRouter cfg) sn oid cs"
    "\<lambda>s. sys_typed (NewRouter cfg) (node_typed sn (cfg_EncryptionKey cfg)) s \<and> belongs cs K V \<and>
       object_kept (NewRouter cfg) sn oid K V s" for cfg sn oid cs K V
proof
  fix s s' assume u: "undisturbed (NewRouter cfg) sn oid cs s s'"
    and inv: "sys_typed (NewRouter cfg) (node_typed sn (cfg_EncryptionKey cfg)) s \<and> belongs cs K V \<and>
       object_kept (NewRouter cfg) sn oid K V s"
  from u have "sys_step (NewRouter cfg) sn s s'" unfolding undisturbed_def sys_step_def by blast
  with inv have "sys_typed (NewRouter cfg) (node_typed sn (cfg_EncryptionKey cfg)) s'" using run.keeps_inv by blast
  moreover have "object_kept (NewRouter cfg) sn oid K V s'"
    using undisturbed_kept [OF u] inv by (simp add: sys_typed_def gateway_ok_def)
  ultimately show "sys_typed (NewRouter cfg) (node_typed sn (cfg_EncryptionKey cfg)) s' \<and> belongs cs K V \<and>
       object_kept (NewRouter cfg) sn oid K V s'" using inv by simp
qed

section \<open>What was stored\<close>

definition stored_replicas :: "uuid \<Rightarrow> bytes list \<Rightarrow> database \<Rightarrow> (address \<times> bytes) set" where
  "stored_replicas oid cs db =
     {(a, cs ! i) | a i. i < length cs \<and> a \<in> set (locations_of db (ch_ID (object_chunks db oid ! i)))}"

lemma replica_ok_seals:
  "replica_ok env h c d a \<longleftrightarrow> holds_in c a (sha256hex d) (seals (snappy_of env) (EncryptionKey h) d)"
  by (simp add: replica_ok_holds_in seals_def)

lemma object_view_rows:
  assumes "object_view oid db = V" "V \<noteq> []"
  shows "map (\<lambda>c. (c, locations_of db (ch_ID c))) (filter (\<lambda>c. ch_ObjectID c = oid) (chunks db)) = snd (hd V)"
proof -
  from assms obtain x xs where "filter (\<lambda>x. obj_ID x = oid) (objects db) = x # xs"
    by (cases "filter (\<lambda>x. obj_ID x = oid) (objects db)") (auto simp: view_def)
  moreover from this have "x \<in> set (filter (\<lambda>x. obj_ID x = oid) (objects db))" by simp
  then have "obj_ID x = oid" by simp
  ultimately show ?thesis using assms(1) by (auto simp: view_def)
qed

lemma stored_is_kept:
  assumes "chunks_stored env h oid cs (sys_gateway s)" "ob \<in> set (objects (database_of_gw (sys_gateway s)))" "obj_ID ob = oid"
    and "snappy_of env = sn" "objectHandler app = h"
  defines "db \<equiv> database_of_gw (sys_gateway s)"
  shows "belongs cs (stored_replicas oid cs db) (object_view oid db)"
    "object_kept app sn oid (stored_replicas oid cs db) (object_view oid db) s"
proof -
  have st: "length (object_chunks db oid) = length cs"
    "\<And>i. i < length cs \<Longrightarrow> ch_Hash (object_chunks db oid ! i) = sha256hex (cs ! i) \<and>
      (\<forall>a \<in> set (locations_of db (ch_ID (object_chunks db oid ! i))). replica_ok env h (cluster_of_gw (sys_gateway s)) (cs ! i) a)"
    using assms(1) by (simp_all add: chunks_stored_def Let_def db_def)
  have "named_by cs (ch_Hash c)" if "c \<in> set (chunks db)" "ch_ObjectID c = oid" for c
  proof -
    have "c \<in> set (object_chunks db oid)" using that by (simp add: object_chunks_def)
    then obtain i where "i < length cs" "c = object_chunks db oid ! i" using st(1) by (metis in_set_conv_nth)
    with st(2) show ?thesis by (simp add: named_by_def)
  qed
  moreover have "object_view oid db \<noteq> []" using assms(2,3) by (auto simp: view_def filter_empty_conv db_def)
  ultimately show "belongs cs (stored_replicas oid cs db) (object_view oid db)"
    by (auto simp: belongs_def stored_replicas_def view_def)
  show "object_kept app sn oid (stored_replicas oid cs db) (object_view oid db) s"
    using st(2) assms(4,5) by (auto simp: object_kept_def replicas_kept_def stored_replicas_def db_def replica_ok_seals)
qed

lemma kept_is_stored:
  assumes "chunks_stored env h oid cs gw" "ob \<in> set (objects (database_of_gw gw))" "obj_ID ob = oid"
    and "snappy_of env = sn" "objectHandler app = h"
    and kept: "object_kept app sn oid (stored_replicas oid cs (database_of_gw gw)) (object_view oid (database_of_gw gw)) s"
  shows "chunks_stored env h oid cs (sys_gateway s)" "ob \<in> set (objects (database_of_gw (sys_gateway s)))"
proof -
  let ?db = "database_of_gw gw" and ?db' = "database_of_gw (sys_gateway s)"
  have V: "object_view oid ?db' = object_view oid ?db" using kept by (simp add: object_kept_def)
  have ne: "object_view oid ?db \<noteq> []" using assms(2,3) by (auto simp: view_def filter_empty_conv)
  have "{x \<in> set (objects ?db'). obj_ID x = oid} = {x \<in> set (objects ?db). obj_ID x = oid}"
    unfolding view_objects [symmetric] by (simp only: V)
  with assms(2,3) show "ob \<in> set (objects ?db')" by blast
  have rows: "map (\<lambda>c. (c, locations_of ?db' (ch_ID c))) (filter (\<lambda>c. ch_ObjectID c = oid) (chunks ?db')) =
      map (\<lambda>c. (c, locations_of ?db (ch_ID c))) (filter (\<lambda>c. ch_ObjectID c = oid) (chunks ?db))"
    using object_view_rows [OF V ne] object_view_rows [OF refl ne] by simp
  from arg_cong [OF rows, of "map fst"] have same: "object_chunks ?db' oid = object_chunks ?db oid"
    by (simp add: object_chunks_def comp_def)
  have locs: "locations_of ?db' (ch_ID c) = locations_of ?db (ch_ID c)" if "c \<in> set (object_chunks ?db oid)" for c
  proof -
    have c: "c \<in> set (filter (\<lambda>c. ch_ObjectID c = oid) (chunks ?db))" using that by (simp add: object_chunks_def)
    then have "(c, locations_of ?db (ch_ID c)) \<in> set (map (\<lambda>c. (c, locations_of ?db' (ch_ID c))) (filter (\<lambda>c. ch_ObjectID c = oid) (chunks ?db')))"
      unfolding rows by (simp only: set_map) (rule imageI)
    then show ?thesis by auto
  qed
  have st: "length (object_chunks ?db oid) = length cs"
    using assms(1) by (simp add: chunks_stored_def Let_def)
  have "replica_ok env h (cluster_of_gw (sys_gateway s)) (cs ! i) a"
    if "i < length cs" "a \<in> set (locations_of ?db (ch_ID (object_chunks ?db oid ! i)))" for i a
    using kept that assms(4,5) by (auto simp: object_kept_def replicas_kept_def stored_replicas_def replica_ok_seals)
  with assms(1) st show "chunks_stored env h oid cs (sys_gateway s)"
    by (simp add: chunks_stored_def Let_def same locs)
qed

section \<open>Properties\<close>

lemma uploaded_survives:
  assumes "sys_typed (NewRouter cfg) (node_typed sn (cfg_EncryptionKey cfg)) s"
    and "chunks_stored env (objectHandler (NewRouter cfg)) (obj_ID ob) cs (sys_gateway s)"
    and "ob \<in> set (objects (database_of_gw (sys_gateway s)))" "snappy_of env = sn"
    and "(undisturbed (NewRouter cfg) sn (obj_ID ob) cs)\<^sup>*\<^sup>* s s'"
  shows "chunks_stored env (objectHandler (NewRouter cfg)) (obj_ID ob) cs (sys_gateway s') \<and>
    ob \<in> set (objects (database_of_gw (sys_gateway s')))"
proof -
  note st = assms(2,3) refl assms(4) refl
  from kept.reachable_inv [OF conjI [OF assms(1) conjI [OF stored_is_kept [OF st]]] assms(5)]
  have "object_kept (NewRouter cfg) sn (obj_ID ob)
      (stored_replicas (obj_ID ob) cs (database_of_gw (sys_gateway s))) (object_view (obj_ID ob) (database_of_gw (sys_gateway s))) s'"
    by simp
  from kept_is_stored [OF st this] show ?thesis by simp
qed

text \<open>
  C2: an uploaded object stays. In every state that the gateway can reach, after an acknowledged upload whose chunks
  do not overwrite each other, let requests of any user be served, nodes start, time pass, and the rounds of the health
  checker and the sync loop and the moves of the rebalancer take place, in any order and number and with any faults of the
  network and the database, as long as none of them deletes the object or one that shares a chunk with it, none saves one of
  its chunks again onto a disk that cuts the write short, and the rebalancer, when it comes to one of its chunks, has found it
  on the nodes that the ring wants. If then fewer nodes than a quorum fail, the owner's download is answered with 200 and exactly the
  body that was uploaded.
\<close>

theorem upload_survives:
  fixes cfg :: Config
  defines "h \<equiv> objectHandler (NewRouter cfg)"
  assumes "sys_init (NewRouter cfg) s0" "(sys_step (NewRouter cfg) sn)\<^sup>*\<^sup>* s0 s"
    and "Upload env up h r (sys_gateway s) = Some (Response w, gw')" "status_code w = 201" "0 < chunk_size h"
    and "uuids_ok (db_of env)" "\<forall>i. ring_seen s (up_rings up i)"
    and "separable (net_of env) (blocks_of (nat (chunk_size h)) (reqBody r))" "0 \<le> ReplicationFactor h"
    and "snappy_ok sn" "snappy_of env = sn" "snappy_of env2 = sn"
    and "(undisturbed (NewRouter cfg) sn (obj_ID (last_object gw')) (blocks_of (nat (chunk_size h)) (reqBody r)))\<^sup>*\<^sup>*
      (s\<lparr>sys_gateway := gw'\<rparr>) s'"
    and "uuid_in (db_of env2) (pathValue r2 ''id'') = Some (obj_ID (last_object gw'))"
    and "uuid_in (db_of env2) (userID r2) = Some (obj_UserID (last_object gw'))"
    and "finite F" "int (card F) < quorum h" "dom (nodes_of s') \<subseteq> A \<union> F"
    and "net_calm (net_of env2) A" "cluster_calm (cluster_of_gw (sys_gateway s')) A"
    and "db_calm (db_of env2)" "clientGone r2 = None"
  shows "raw_bytes (body (fst (Download env2 h r2 (sys_gateway s')))) = reqBody r \<and>
    status_code (fst (Download env2 h r2 (sys_gateway s'))) = 200"
proof -
  let ?cs = "blocks_of (nat (chunk_size h)) (reqBody r)"
  have typed: "sys_typed (NewRouter cfg) (node_typed sn (cfg_EncryptionKey cfg)) s" by (rule run.reachable_inv [OF assms(2,3)])
  then have db: "db_inv (database_of_gw (sys_gateway s))" "gateway_ok (node_typed sn (cfg_EncryptionKey cfg)) (sys_gateway s)"
    by (simp_all add: sys_typed_def gateway_ok_def tables_ok_def)
  have "\<forall>i. ring_wf (up_rings up i)" using typed assms(8) seen_ring_wf by blast
  from upload_result [OF assms(4-6) db(1) assms(7) this assms(9)]
  have st: "object_stored env h (obj_ID (last_object gw')) ?cs gw'" "last_object gw' \<in> set (objects (database_of_gw gw'))"
    by (auto simp: last_object_def)
  have "gateway_ok (node_typed sn (cfg_EncryptionKey cfg)) gw'"
    using types.Upload_typed [OF assms(4) db(2) assms(12)] by (simp add: h_def)
  with typed have "sys_typed (NewRouter cfg) (node_typed sn (cfg_EncryptionKey cfg)) (s\<lparr>sys_gateway := gw'\<rparr>)"
    by (simp add: sys_typed_def)
  from uploaded_survives [OF this _ _ assms(12,14)] object_stored_chunks [OF st(1)] st(2)
  have later: "chunks_stored env h (obj_ID (last_object gw')) ?cs (sys_gateway s')"
    "last_object gw' \<in> set (objects (database_of_gw (sys_gateway s')))" by (simp_all add: h_def)
  have "same_store (sys_gateway s') (sys_gateway s')" "snappy_ok (snappy_of env2)" "snappy_of env2 = snappy_of env"
    using assms(11-13) by (simp_all add: same_store_def)
  from download_calm [OF later(1) assms(10) this(2,3,1) later(2) assms(15-18,20,21,19,22,23)]
  show ?thesis using assms(6) by (simp add: concat_blocks_of)
qed

section \<open>A concrete run\<close>

text \<open>
  One storage node, a user who registers, an upload by that user, and then a round of the health checker and some time.
\<close>

definition config_one :: Config where
  "config_one = config_plain\<lparr>cfg_JWTSecret := ''k''\<rparr>"

definition sys_account :: system where
  "sys_account = (sys_booted config_one)\<lparr>sys_gateway := (sys_gateway (sys_booted config_one))\<lparr>database_of_gw :=
     empty_db\<lparr>users := [\<lparr>usr_ID = ''u'', usr_Email = ''e'', usr_Password = ''p'', usr_CreatedAt = 1\<rparr>], stmt_no := 2\<rparr>\<rparr>\<rparr>"

definition up_one :: upload_env where
  "up_one = \<lparr>up_sched = [(0, 1)], up_rings = (\<lambda>i. build 50 [''n'']), up_rand = (\<lambda>i. replicate 12 7), up_order = []\<rparr>"

definition serve_env_one :: serve_env where
  "serve_env_one = \<lparr>services = env_ok, accounts = auth_plain, parse_clock = 0, meanwhile = id, uploading = up_one,
     call_sched = [], part_ring = build 50 [''n''], part_rand = [], static_page = (\<lambda>r. new_response None)\<rparr>"

lemma seen_one: "ring_seen s (build 50 [''n''])"
proof -
  have "build 50 [''n''] \<in> set (published_rings [''n''])" by (simp add: published_rings_def build_def)
  then show ?thesis by (auto simp: ring_seen_def)
qed

lemma route_register: "route ''POST'' [''auth'', ''register''] = (AuthRegister, map_get '''' Map.empty)"
  by (simp add: route_def routes_def matches_def method_matches_def at_least_as_specific_def)

lemma registered:
  "\<exists>w. sys_does (NewRouter config_one) plain_snappy (Served serve_env_one ''POST'' [''auth'', ''register''] (auth_request ''p'') w)
     (sys_booted config_one) sys_account"
proof -
  let ?db = "empty_db\<lparr>users := [\<lparr>usr_ID = ''u'', usr_Email = ''e'', usr_Password = ''p'', usr_CreatedAt = 1\<rparr>], stmt_no := 2\<rparr>"
  have h: "authHandler (NewRouter config_one) = auth_plain_handler"
    by (simp add: NewRouter_def config_one_def config_plain_def auth_plain_handler_def Let_def)
  have "Register auth_plain auth_plain_handler id (auth_request ''p''\<lparr>pathValue := p\<rparr>) =
      Register auth_plain auth_plain_handler id (auth_request ''p'')" for p
    by (simp add: Register_def fun_eq_iff)
  then have "\<exists>w. serve_request serve_env_one (NewRouter config_one) ''POST'' [''auth'', ''register''] (auth_request ''p'')
      (sys_gateway (sys_booted config_one)) = Some (w, (sys_gateway (sys_booted config_one))\<lparr>database_of_gw := ?db\<rparr>)"
    by (simp add: serve_request_def route_register on_database_def serve_env_one_def h plain_account sys_booted_def)
  then obtain w where "serve_request serve_env_one (NewRouter config_one) ''POST'' [''auth'', ''register''] (auth_request ''p'')
      (sys_gateway (sys_booted config_one)) = Some (w, (sys_gateway (sys_booted config_one))\<lparr>database_of_gw := ?db\<rparr>)" ..
  from sys_does.serve [OF this, of plain_snappy _ "[]"] show ?thesis
    by (intro exI [of _ w]) (simp add: sys_account_def serve_env_one_def up_one_def env3_simps registrations_def seen_one id_def)
qed

lemma account_run:
  "sys_init (NewRouter config_one) (sys_start config_one)"
  "(sys_step (NewRouter config_one) plain_snappy)\<^sup>*\<^sup>* (sys_start config_one) sys_account"
proof -
  show "sys_init (NewRouter config_one) (sys_start config_one)" by (rule sys_runs(1) [OF rb_plain_rings])
  have "sys_step (NewRouter config_one) plain_snappy (sys_booted config_one) sys_account" using registered sys_stepI by blast
  with sys_runs(2) [OF rb_plain_rings, of config_one plain_snappy]
  show "(sys_step (NewRouter config_one) plain_snappy)\<^sup>*\<^sup>* (sys_start config_one) sys_account" by (rule rtranclp.rtrancl_into_rtrancl)
qed

lemma ring_one: "ring_wf (build 50 [''n''])" "ran (ring (build 50 [''n''])) = {''n''}"
proof -
  show wf: "ring_wf (build 50 [''n''])" by (rule ring_wf_build)
  then have "keys (build 50 [''n'']) \<noteq> []" "ran (ring (build 50 [''n''])) \<subseteq> {''n''}" "set (keys (build 50 [''n''])) = dom (ring (build 50 [''n'']))"
    by (simp_all add: ring_wf_def)
  then show "ran (ring (build 50 [''n''])) = {''n''}" by (force simp: neq_Nil_conv ran_def)
qed

lemma handler_one:
  defines "h \<equiv> objectHandler (NewRouter config_one)"
  shows "chunk_size h = 1048576" "quorum h = 1" "cfg_ReplicationFactor config_one = 1" "aes_key_ok (cfg_EncryptionKey config_one)"
  by (simp_all add: h_def NewRouter_def config_one_def config_plain_def chunk_size_def wrap64_def quorum_def go_div_def aes_key_ok_def Let_def)

lemma account_store:
  "db_inv (database_of_gw (sys_gateway sys_account))" "''u'' \<in> usr_ID ` set (users (database_of_gw (sys_gateway sys_account)))"
  "uuids_fresh db_ok (database_of_gw (sys_gateway sys_account))" "cluster_calm (cluster_of_gw (sys_gateway sys_account)) {''n''}"
  "dom (nodes_of sys_account) = {''n''}"
  using plain_account_ok(1) by (auto simp: sys_account_def sys_booted_def uuids_fresh_def db_ok_def inj_def empty_db_def
      cluster_calm_def cluster_of_def breaker_of_def new_breaker_def node_live_def node_ok_example)

lemma upload_one:
  assumes "userID r = ''u''" "reqBody r = [1, 2, 3]" "reqEnd r = EndEOF"
  shows "\<exists>w gw'. Upload env_ok up_one (objectHandler (NewRouter config_one)) r (sys_gateway sys_account) = Some (Response w, gw') \<and>
    status_code w = 201 \<and> cluster_calm (cluster_of_gw gw') {''n''} \<and>
    dom (storage_nodes (cluster_of_gw gw')) = {''n''}"
proof -
  have [simp]: "blocks_of 1048576 [1, 2, 3 :: byte] = [[1, 2, 3]]" using handler3_ok(4) by (simp add: req_ok_def)
  have "\<exists>w gw'. Upload env_ok up_one (objectHandler (NewRouter config_one)) r (sys_gateway sys_account) = Some (Response w, gw') \<and>
    status_code w = 201 \<and> cluster_calm (cluster_of_gw gw') {''n''} \<and>
    dom (storage_nodes (cluster_of_gw gw')) = dom (nodes_of sys_account)"
    by (rule Upload_live [where F = "{}" and uid = "''u''"])
      (use ring_one account_store assms in \<open>simp_all add: handler_one env3_simps up_one_def\<close>)
  then show ?thesis by (simp only: account_store(5))
qed

text \<open>What comes after the upload: a round of the sync loop, and an hour.\<close>

definition after_sync :: "system \<Rightarrow> system" where
  "after_sync s = (let (rm, db) = sync_step (\<lambda>r. HttpErr conn_err) db_ok (sys_ring s, database_of_gw (sys_gateway s))
     in s\<lparr>sys_gateway := (sys_gateway s)\<lparr>database_of_gw := db\<rparr>, sys_ring := rm\<rparr>)"

definition an_hour_later :: "system \<Rightarrow> system" where
  "an_hour_later s = s\<lparr>sys_gateway := (sys_gateway s)\<lparr>cluster_of_gw :=
     (cluster_of_gw (sys_gateway s))\<lparr>now := now (cluster_of_gw (sys_gateway s)) + int 3600\<rparr>\<rparr>\<rparr>"

lemma synced: "sys_does app sn (Synced (\<lambda>r. HttpErr conn_err) db_ok) s (after_sync s)"
  using sys_does.sync [OF surjective_pairing] by (simp add: after_sync_def split_beta)

lemma an_hour: "sys_does app sn Ticked s (an_hour_later s)"
  unfolding an_hour_later_def by (rule sys_does.tick [OF refl])

lemma quiet_hour: "(undisturbed app sn oid cs)\<^sup>*\<^sup>* s (an_hour_later (after_sync s))"
proof -
  have "undisturbed app sn oid cs s (after_sync s)"
    unfolding undisturbed_def by (intro exI [of _ "Synced (\<lambda>r. HttpErr conn_err) db_ok"]) (simp add: synced)
  moreover have "undisturbed app sn oid cs (after_sync s) (an_hour_later (after_sync s))"
    unfolding undisturbed_def by (intro exI [of _ Ticked]) (simp add: an_hour)
  ultimately show ?thesis by (meson r_into_rtranclp rtranclp.rtrancl_into_rtrancl)
qed

lemma upload_survives_witness:
  "\<exists>w gw'. Upload env_ok up_one (objectHandler (NewRouter config_one)) (req_ok\<lparr>userID := ''u''\<rparr>) (sys_gateway sys_account) =
       Some (Response w, gw') \<and>
     raw_bytes (body (fst (Download env_ok (objectHandler (NewRouter config_one))
       (req_ok\<lparr>userID := ''u'', pathValue := (\<lambda>x. obj_ID (last_object gw'))\<rparr>)
       (sys_gateway (an_hour_later (after_sync (sys_account\<lparr>sys_gateway := gw'\<rparr>))))))) = [1, 2, 3]"
proof -
  let ?h = "objectHandler (NewRouter config_one)" and ?r = "req_ok\<lparr>userID := ''u''\<rparr>"
  obtain w gw' where u: "Upload env_ok up_one ?h ?r (sys_gateway sys_account) = Some (Response w, gw')" "status_code w = 201"
    and c: "cluster_calm (cluster_of_gw gw') {''n''}" "dom (storage_nodes (cluster_of_gw gw')) = {''n''}"
    using upload_one [of ?r] by (auto simp: req_ok_def)
  let ?s = "an_hour_later (after_sync (sys_account\<lparr>sys_gateway := gw'\<rparr>))" and ?r2 = "?r\<lparr>pathValue := (\<lambda>x. obj_ID (last_object gw'))\<rparr>"
  have r: "reqBody ?r = [1, 2, 3]" "blocks_of (nat (chunk_size ?h)) (reqBody ?r) = [[1, 2, 3]]"
    using handler3_ok(4) by (simp_all add: handler_one) (simp add: req_ok_def)
  have sep: "separable (net_of env_ok) (blocks_of (nat (chunk_size ?h)) (reqBody ?r))"
    unfolding r(2) by (simp add: separable_def)
  have ready: "0 < chunk_size ?h" "uuids_ok (db_of env_ok)" "\<forall>i. ring_seen sys_account (up_rings up_one i)"
    "separable (net_of env_ok) (blocks_of (nat (chunk_size ?h)) (reqBody ?r))" "0 \<le> ReplicationFactor ?h"
    "snappy_ok plain_snappy" "snappy_of env_ok = plain_snappy" "\<forall>i. ring_wf (up_rings up_one i)"
    using sep by (simp_all add: handler_one env3_simps up_one_def seen_one ring_one ready3)
  have own: "obj_UserID (last_object gw') = ''u''"
    using upload_result [OF u ready(1) account_store(1) ready(2,8,4)] by (auto simp: env3_simps last_object_def)
  have s: "cluster_calm (cluster_of_gw (sys_gateway ?s)) {''n''}" "dom (nodes_of ?s) \<subseteq> {''n''} \<union> {}"
    using c by (simp_all add: an_hour_later_def after_sync_def split_beta cluster_calm_def breaker_of_def)
  have "raw_bytes (body (fst (Download env_ok ?h ?r2 (sys_gateway ?s)))) = reqBody ?r"
    using upload_survives [OF account_run u ready(1-7) ready(7) quiet_hour, of ?r2 "{}" "{''n''}"] s own
    by (simp add: handler_one env3_simps)
  with u(1) r(1) show ?thesis by auto
qed

end
