(* ===== verification/Catalog.thy ===== *)
theory Catalog imports Durability begin

text \<open>
  What the gateway is for its users, without chunks, nodes and tables: a catalogue of objects, in which a
  user creates and removes entries of their own and nothing else ever happens. The file states it as a
  small state machine and shows that the system implements it, with the answers that the users get.
\<close>

section \<open>The specification\<close>

record entry =
  en_owner :: uuid
  en_name :: string
  en_type :: string
  en_size :: int
  en_created :: int
  en_chunks :: "string list"

type_synonym catalog = "uuid \<rightharpoonup> entry"

text \<open>
  What a request asks for, by which user, and whether it was acknowledged: an operation that was not
  acknowledged may have happened or not.
\<close>

datatype label = Nothing | Creates uuid bool | Removes uuid uuid bool

inductive catalog_does :: "label \<Rightarrow> catalog \<Rightarrow> catalog \<Rightarrow> bool" where
  idle: "catalog_does Nothing m m"
| not_created: "catalog_does (Creates u False) m m"
| created: "m i = None \<Longrightarrow> en_owner x = u \<Longrightarrow> catalog_does (Creates u ack) m (m(i \<mapsto> x))"
| not_removed: "catalog_does (Removes u i False) m m"
| removed: "m i = Some x \<Longrightarrow> en_owner x = u \<Longrightarrow> catalog_does (Removes u i ack) m (m(i := None))"

inductive_cases catalog_doesE [elim!]:
  "catalog_does Nothing m m'"
  "catalog_does (Creates u ack) m m'"
  "catalog_does (Removes u i ack) m m'"

text \<open>In the catalogue, an entry stays as it is until its owner asks for its removal.\<close>

lemma entry_stays:
  assumes "trace catalog_does ls m m'" "m i = Some x" "\<forall>ack. Removes (en_owner x) i ack \<notin> set ls"
  shows "m' i = Some x"
  using assms
proof (induction rule: trace.induct)
  case (trace_snoc ls m m' l m'')
  then have "m' i = Some x" "\<forall>ack. l \<noteq> Removes (en_owner x) i ack" by auto
  with trace_snoc.hyps(2) show ?case by (cases l) auto
qed simp

section \<open>The catalogue of a database\<close>

definition entry_of :: "database \<Rightarrow> Object \<Rightarrow> entry" where
  "entry_of db x = \<lparr>en_owner = obj_UserID x, en_name = obj_Name x, en_type = obj_ContentType x, en_size = obj_SizeBytes x,
     en_created = obj_CreatedAt x, en_chunks = map ch_Hash (object_chunks db (obj_ID x))\<rparr>"

definition catalog_of :: "database \<Rightarrow> catalog" where
  "catalog_of db i = map_option (entry_of db) (List.find (\<lambda>x. obj_ID x = i) (objects db))"

lemma catalog_cong: "objects db' = objects db \<Longrightarrow> chunks db' = chunks db \<Longrightarrow> catalog_of db' = catalog_of db"
  by (rule ext) (simp add: catalog_of_def entry_of_def [abs_def] object_chunks_def)

lemma catalog_None: "catalog_of db i = None \<longleftrightarrow> i \<notin> obj_ID ` set (objects db)"
  by (auto simp: catalog_of_def find_None_iff)

lemma find_filter: "List.find P xs = (case filter P xs of [] \<Rightarrow> None | x # _ \<Rightarrow> Some x)"
  by (induction xs) auto

lemma catalog_Some:
  assumes "catalog_of db i = Some e"
  shows "\<exists>x \<in> set (objects db). obj_ID x = i \<and> e = entry_of db x"
  using assms by (auto simp: catalog_of_def find_Some_iff)

lemma catalog_at:
  assumes "distinct (map obj_ID (objects db))" "x \<in> set (objects db)"
  shows "catalog_of db (obj_ID x) = Some (entry_of db x)"
proof -
  have "catalog_of db (obj_ID x) \<noteq> None" using assms(2) by (simp add: catalog_None)
  then obtain e where e: "catalog_of db (obj_ID x) = Some e" by blast
  from catalog_Some [OF this] assms have "e = entry_of db x" by (auto simp: distinct_map inj_on_def)
  with e show ?thesis by simp
qed

lemma catalog_view:
  assumes "object_view i db' = object_view i db"
  shows "catalog_of db' i = catalog_of db i"
proof -
  have find: "List.find (\<lambda>x. obj_ID x = i) (objects d) = (case object_view i d of [] \<Rightarrow> None | p # _ \<Rightarrow> Some (fst p))" for d
    by (simp add: find_filter view_def split: list.split)
  show ?thesis
  proof (cases "object_view i db")
    case Nil
    with assms find [of db] find [of db'] show ?thesis by (simp add: catalog_of_def)
  next
    case (Cons p ps)
    then have "filter (\<lambda>c. ch_ObjectID c = i) (chunks db') = filter (\<lambda>c. ch_ObjectID c = i) (chunks db)"
      using arg_cong [OF object_view_rows [of i db' "p # ps"], of "map fst"]
        arg_cong [OF object_view_rows [of i db "p # ps"], of "map fst"] assms by (simp add: comp_def)
    moreover have "obj_ID (fst p) = i"
      using Cons view_objects [of "\<lambda>x. obj_ID x = i" db] by (auto simp: set_eq_iff image_iff)
    ultimately show ?thesis using find [of db] find [of db'] assms Cons
      by (simp add: catalog_of_def entry_of_def object_chunks_def)
  qed
qed

lemma catalog_views: "\<forall>Q. view Q db' = view Q db \<Longrightarrow> catalog_of db' = catalog_of db"
  using catalog_view by blast

lemma in_catalog: "i \<in> obj_ID ` set (objects db) \<longleftrightarrow> object_view i db \<noteq> []"
  by (auto simp: view_def filter_empty_conv)

section \<open>Entries are created\<close>

text \<open>The table of the objects, as it was or with one new object of the user.\<close>

definition grown :: "db_env \<Rightarrow> string \<Rightarrow> Object list \<Rightarrow> database \<Rightarrow> bool" where
  "grown env u xs db \<longleftrightarrow> objects db = xs \<or>
     (\<exists>x. obj_ID x \<notin> obj_ID ` set xs \<and> uuid_in env u = Some (obj_UserID x) \<and> objects db = xs @ [x])"

interpretation grown_kept: chunk_invariant "grown env u xs" "\<lambda>_ _. True" for env u xs
proof
  show "on_tables (grown env u xs)" by (simp add: on_tables_def grown_def)
qed (auto simp: keeps_def grown_def insert_chunk_def insert_location_def insert_mp_chunk_def insert_mp_location_def
    move_chunks_def delete_upload_def Let_def split: option.splits if_splits)

lemma insert_grown: "insert_object env u n c s k db = Inr (v, db') \<Longrightarrow> objects db = xs \<Longrightarrow> grown env u xs db'"
  using insert_object_ok [of env u n c s k db v db'] by (auto simp: grown_def)

lemma CreateObject_grown: "grown env u (objects db) (snd (CreateObject env u n c s db))"
proof -
  obtain v db' where e: "exec_stmt env (insert_object env u n c s) db = (v, db')" by fastforce
  have "grown env u (objects db) db'"
    using e insert_grown [of env u n c s "stmt_no db" "db\<lparr>stmt_no := Suc (stmt_no db)\<rparr>"]
    by (auto simp: exec_stmt_def Let_def grown_def split: fault.splits sum.splits)
  with e show ?thesis by (simp add: CreateObject_def Let_def split: sum.split)
qed

lemma store_chunks_grown: "grown env u xs db \<Longrightarrow> grown env u xs (snd (store_chunks denv r ms db))"
proof (induction ms arbitrary: db)
  case (Cons m ms)
  from grown_kept.CreateChunk_kept [OF TrueI Cons.prems, of denv r "int (cm_index m)" "cm_hash m" "cm_size m" "cm_nodes m"]
    Cons.IH show ?case by (auto split: prod.split sum.split)
qed simp

lemma upload_metadata_grown:
  assumes "upload_metadata env r ms (new_response g) db = (w, db')" "uuids_ok (db_of env)"
  shows "grown (db_of env) (userID r) (objects db) db'" "status_code w = 201 \<Longrightarrow> objects db' \<noteq> objects db"
proof -
  have "grown (db_of env) (userID r) (objects db) (snd (upload_metadata env r ms (new_response g) db))"
  proof -
    obtain v db1 where c: "CreateObject (db_of env) (userID r) (upload_name r) (upload_type r) (sum_list (map cm_size ms)) db = (v, db1)"
      by fastforce
    with CreateObject_grown [of "db_of env" "userID r" db] have "grown (db_of env) (userID r) (objects db) db1" by (metis snd_conv)
    from store_chunks_grown [OF this] this c show ?thesis
      by (auto simp: upload_metadata_def Let_def split_beta split: sum.split bool.split)
  qed
  with assms(1) show "grown (db_of env) (userID r) (objects db) db'" by simp
  assume "status_code w = 201"
  from upload_metadata_201 [OF assms(1) _ this] obtain oid db1 where
    c: "CreateObject (db_of env) (userID r) (upload_name r) (upload_type r) (sum_list (map cm_size ms)) db = (Inr oid, db1)"
    and st: "store_chunks (db_of env) oid ms db1 = (True, db')" by (auto simp: new_response_def)
  from CreateObject_ok [OF c assms(2)] store_chunks_ok [OF st assms(2)] show "objects db' \<noteq> objects db" by auto
qed

lemma Upload_grown:
  assumes "Upload env up h r gw = Some (out, gw')" "uuids_ok (db_of env)"
  shows "grown (db_of env) (userID r) (objects (database_of_gw gw)) (database_of_gw gw')"
    "out = Response w \<Longrightarrow> status_code w = 201 \<Longrightarrow> objects (database_of_gw gw') \<noteq> objects (database_of_gw gw)"
proof -
  have "database_of_gw gw' = database_of_gw gw \<and> (\<forall>w. out = Response w \<longrightarrow> status_code w \<noteq> 201) \<or>
      (\<exists>ms w. out = Response w \<and> upload_metadata env r ms (new_response (clientGone r)) (database_of_gw gw) = (w, database_of_gw gw'))"
    using assms(1) by (auto simp: Upload_def Let_def new_response_def split: if_splits option.splits prod.splits)
  moreover have "grown (db_of env) (userID r) (objects (database_of_gw gw)) (database_of_gw gw)" by (simp add: grown_def)
  ultimately show "grown (db_of env) (userID r) (objects (database_of_gw gw)) (database_of_gw gw')"
    "out = Response w \<Longrightarrow> status_code w = 201 \<Longrightarrow> objects (database_of_gw gw') \<noteq> objects (database_of_gw gw)"
    using upload_metadata_grown [OF _ assms(2)] by auto
qed

lemma CompleteMultipart_grown:
  assumes "CompleteMultipart env r gw = (w, gw')" "uuids_ok (db_of env)"
  shows "grown (db_of env) (userID r) (objects (database_of_gw gw)) (database_of_gw gw')"
    "status_code w = 200 \<Longrightarrow> objects (database_of_gw gw') \<noteq> objects (database_of_gw gw)"
proof -
  let ?db = "database_of_gw gw" and ?i = "pathValue r ''upload_id''"
  obtain v db' where c: "CompleteMultipartUpload (db_of env) ?i (userID r) ?db = (v, db')" by fastforce
  have gw: "database_of_gw gw' = db'" using assms(1) c by (auto simp: CompleteMultipart_def Let_def split: sum.splits)
  have "grown (db_of env) (userID r) (objects ?db) (snd (CompleteMultipartUpload (db_of env) ?i (userID r) ?db))"
    by (rule grown_kept.CompleteMultipartUpload_inserts [where B = "\<lambda>d. objects d = objects ?db"])
      (auto simp: on_tables_def grown_def dest: insert_grown [unfolded grown_def])
  with c gw show "grown (db_of env) (userID r) (objects ?db) (database_of_gw gw')" by simp
  assume "status_code w = 200"
  with assms(1) c obtain i where "v = Inr i" by (cases v) (auto simp: CompleteMultipart_def Let_def new_response_def)
  with CompleteMultipartUpload_ok [OF _ assms(2)] c gw show "objects (database_of_gw gw') \<noteq> objects ?db" by fastforce
qed

text \<open>A new object, while the others stay.\<close>

lemma grown_catalog:
  assumes "grown env u (objects db) db'" "uuid_in env u = Some uid" "ack \<longrightarrow> objects db' \<noteq> objects db"
    and "distinct (map obj_ID (objects db))"
    and same: "\<And>i. object_view i db \<noteq> [] \<Longrightarrow> object_view i db' = object_view i db"
  shows "catalog_does (Creates uid ack) (catalog_of db) (catalog_of db')"
proof (cases "objects db' = objects db")
  case True
  have "catalog_of db' i = catalog_of db i" for i
  proof (cases "object_view i db = []")
    case True
    with \<open>objects db' = objects db\<close> have "i \<notin> obj_ID ` set (objects db')" "i \<notin> obj_ID ` set (objects db)" by (simp_all add: in_catalog)
    then show ?thesis using catalog_None by metis
  next
    case False
    with same show ?thesis by (intro catalog_view)
  qed
  then have "catalog_of db' = catalog_of db" by blast
  with True assms(3) not_created show ?thesis by simp
next
  case False
  with assms(1,2) obtain x where x: "obj_ID x \<notin> obj_ID ` set (objects db)" "obj_UserID x = uid" "objects db' = objects db @ [x]"
    by (auto simp: grown_def)
  have new: "catalog_of db' (obj_ID x) = Some (entry_of db' x)" using x assms(4) by (intro catalog_at) auto
  have "catalog_of db' i = ((catalog_of db)(obj_ID x \<mapsto> entry_of db' x)) i" for i
  proof (cases "i = obj_ID x")
    case True
    with new show ?thesis by simp
  next
    case other: False
    show ?thesis
    proof (cases "object_view i db = []")
      case True
      then have "i \<notin> obj_ID ` set (objects db)" by (simp add: in_catalog)
      moreover from this have "i \<notin> obj_ID ` set (objects db')" using x(3) other by auto
      ultimately show ?thesis using catalog_None other by (metis fun_upd_other)
    next
      case False
      with same other catalog_view [of i db' db] show ?thesis by simp
    qed
  qed
  then have "catalog_of db' = (catalog_of db)(obj_ID x \<mapsto> entry_of db' x)" by blast
  with created [of "catalog_of db" "obj_ID x" "entry_of db' x" uid ack] x show ?thesis
    by (simp add: catalog_None entry_of_def)
qed

section \<open>Entries are removed\<close>

lemma delete_catalog:
  assumes "db_inv db"
  shows "catalog_of (delete_objects (\<lambda>x. obj_ID x = i \<and> obj_UserID x = u) db) =
    (if \<exists>x \<in> set (objects db). obj_ID x = i \<and> obj_UserID x = u then (catalog_of db)(i := None) else catalog_of db)"
proof -
  let ?db = "delete_objects (\<lambda>x. obj_ID x = i \<and> obj_UserID x = u) db"
  have dist: "distinct (map obj_ID (objects db))" using assms by (simp add: db_inv_def objects_inv_def)
  have same: "catalog_of ?db j = catalog_of db j" if "\<forall>x \<in> set (objects db). obj_ID x = j \<longrightarrow> \<not> (obj_ID x = i \<and> obj_UserID x = u)" for j
    by (rule catalog_view [OF delete_objects_sees [OF assms that]])
  show ?thesis
  proof (cases "\<exists>x \<in> set (objects db). obj_ID x = i \<and> obj_UserID x = u")
    case True
    with dist have "i \<notin> obj_ID ` set (objects ?db)" by (auto simp: delete_objects_def Let_def distinct_map inj_on_def)
    then have "catalog_of ?db i = None" by (simp add: catalog_None)
    moreover have "catalog_of ?db j = catalog_of db j" if "j \<noteq> i" for j using that by (intro same) auto
    ultimately show ?thesis using True by (simp add: fun_eq_iff)
  next
    case False
    then have "catalog_of ?db j = catalog_of db j" for j by (intro same) auto
    then show ?thesis unfolding if_not_P [OF False] by blast
  qed
qed

lemma Delete_catalog:
  assumes "Delete env sched r gw = (w, gw')" "tables_ok (database_of_gw gw)"
    and "uuid_in (db_of env) (pathValue r ''id'') = Some i" "uuid_in (db_of env) (userID r) = Some u"
  shows "catalog_does (Removes u i (status_code w = 204)) (catalog_of (database_of_gw gw)) (catalog_of (database_of_gw gw'))"
proof -
  let ?db = "database_of_gw gw" and ?P = "\<lambda>x. obj_ID x = i \<and> obj_UserID x = u"
  obtain v db1 where g: "GetChunksByObjectID (db_of env) (pathValue r ''id'') ?db = (v, db1)" by fastforce
  have db1: "same_tables ?db db1" using reads_same(1) [of ?db "db_of env" "pathValue r ''id''"] g by simp
  then have cat: "catalog_of db1 = catalog_of ?db" by (intro catalog_cong) (simp_all add: tables_eq)
  have inv: "db_inv db1" using tables_same [OF db1 assms(2)] by (simp add: tables_ok_def)
  then have dist: "distinct (map obj_ID (objects db1))" by (simp add: db_inv_def objects_inv_def)
  obtain err db2 where d: "DeleteObject (db_of env) (pathValue r ''id'') (userID r) db1 = (err, db2)" by fastforce
  let ?D = "delete_objects ?P db1"
  have "objects db2 = objects db1 \<and> chunks db2 = chunks db1 \<and> err \<noteq> None \<or>
      objects db2 = objects ?D \<and> chunks db2 = chunks ?D \<and> (err = None \<longrightarrow> (\<exists>x \<in> set (objects db1). ?P x))"
    using d assms(3,4) by (auto simp: DeleteObject_def exec_stmt_def delete_objects_def Let_def filter_empty_conv
        split: fault.splits if_splits)
  then have "catalog_of db2 = catalog_of db1 \<and> err \<noteq> None \<or>
      catalog_of db2 = catalog_of ?D \<and> (err = None \<longrightarrow> (\<exists>x \<in> set (objects db1). ?P x))"
    using catalog_cong by blast
  moreover have "catalog_does (Removes u i ack) (catalog_of db1) (catalog_of ?D)" if "ack \<longrightarrow> (\<exists>x \<in> set (objects db1). ?P x)" for ack
  proof (cases "\<exists>x \<in> set (objects db1). ?P x")
    case True
    then obtain x where x: "x \<in> set (objects db1)" "obj_ID x = i" "obj_UserID x = u" by blast
    with removed [of "catalog_of db1" i "entry_of db1 x" u ack] catalog_at [OF dist x(1)] delete_catalog [OF inv, of i u] True
    show ?thesis by (simp add: entry_of_def)
  next
    case False
    with that not_removed show ?thesis unfolding delete_catalog [OF inv] if_not_P [OF False] by auto
  qed
  ultimately have "catalog_does (Removes u i (err = None)) (catalog_of db1) (catalog_of db2)"
    using not_removed by (elim disjE conjE) (cases err, simp_all)
  then have removal: "catalog_does (Removes u i (err = None)) (catalog_of ?db) (catalog_of db2)" by (simp only: cat)
  show ?thesis
  proof (cases v)
    case (Inl e)
    with assms(1) g cat not_removed show ?thesis by (auto simp: Delete_def Let_def new_response_def)
  next
    case (Inr cs)
    with assms(1) g d have "database_of_gw gw' = db2" "status_code w = (if err = None then 204 else 500)"
      by (auto simp: Delete_def Let_def new_response_def split: option.splits prod.splits)
    with removal show ?thesis by (cases "err = None") simp_all
  qed
qed

section \<open>The steps of the system\<close>

definition has_status :: "outcome \<Rightarrow> nat \<Rightarrow> bool" where
  "has_status out st \<longleftrightarrow> (\<exists>w. out = Response w \<and> status_code w = st)"

text \<open>The user of a request, if it has a valid token and the identifier in it is one.\<close>

definition caller :: "app \<Rightarrow> serve_env \<Rightarrow> request \<Rightarrow> uuid option" where
  "caller app env r =
     (case RequireAuth (jwt_of (accounts env)) (JWTSecret (authHandler app)) (parse_clock env) r of
        Inl w \<Rightarrow> None
      | Inr r' \<Rightarrow> uuid_in (db_of (services env)) (userID r'))"

fun asks :: "app \<Rightarrow> event \<Rightarrow> label" where
  "asks app (Served env m path r out) =
     (case (caller app env r, route m path) of
        (Some u, (ObjUpload, vals)) \<Rightarrow> Creates u (has_status out 201)
      | (Some u, (MultiComplete, vals)) \<Rightarrow> Creates u (has_status out 200)
      | (Some u, (ObjDelete, vals)) \<Rightarrow>
          (case uuid_in (db_of (services env)) (vals ''id'') of
             None \<Rightarrow> Nothing
           | Some i \<Rightarrow> Removes u i (has_status out 204))
      | _ \<Rightarrow> Nothing)"
| "asks app _ = Nothing"

fun fair :: "event \<Rightarrow> bool" where
  "fair (Served env m path r out) \<longleftrightarrow> uuids_ok (db_of (services env))"
| "fair _ \<longleftrightarrow> True"

lemma foreign_nobody: "uuid_in env u = None \<Longrightarrow> foreign Q V env u"
  by (auto simp: foreign_def dest!: insert_object_ok)

lemma served_catalog:
  assumes "serve_request env app m path r gw = Some (out, gw')" "tables_ok (database_of_gw gw)"
    and "uuids_ok (db_of (services env))" "meanwhile env = registrations denv us"
  shows "catalog_does (asks app (Served env m path r out)) (catalog_of (database_of_gw gw)) (catalog_of (database_of_gw gw'))"
proof -
  let ?db = "database_of_gw gw" and ?db' = "database_of_gw gw'" and ?env = "db_of (services env)"
  let ?auth = "RequireAuth (jwt_of (accounts env)) (JWTSecret (authHandler app)) (parse_clock env) r"
  obtain hnd vals where rt: "route m path = (hnd, vals)" by fastforce
  have inv: "db_inv ?db" "distinct (map obj_ID (objects ?db))" using assms(2) by (simp_all add: tables_ok_def db_inv_def objects_inv_def)
  note sees = serve_sees [OF assms(1) inv(1) assms(3), unfolded assms(4) registrations_see rt fst_conv snd_conv]
  have same: "object_view i ?db' = object_view i ?db" if "object_view i ?db \<noteq> []" "hnd \<noteq> ObjDelete" for i
    using that foreign_object by (intro sees) auto
  note serve = serve_request_def rt Let_def protected_def RequireAuth_pathValue answer_def split_beta
  show ?thesis
  proof (cases "asks app (Served env m path r out)")
    case Nothing
    have "view Q ?db' = view Q ?db" for Q
    proof (rule sees)
      show "\<forall>r'. ?auth = Inr r' \<longrightarrow> (hnd \<in> {ObjUpload, MultiComplete} \<longrightarrow> foreign Q (view Q ?db) ?env (userID r')) \<and>
          (hnd = ObjDelete \<longrightarrow> spares (view Q ?db) ?env (vals ''id'') (userID r'))"
        using Nothing foreign_nobody by (auto simp: caller_def rt spares_def split: option.splits)
    qed simp
    then show ?thesis unfolding Nothing using catalog_views idle by metis
  next
    case (Creates u ack)
    then obtain r' where r': "?auth = Inr r'" "uuid_in ?env (userID r') = Some u"
      and hnd: "hnd = ObjUpload \<and> ack = has_status out 201 \<or> hnd = MultiComplete \<and> ack = has_status out 200"
      by (auto simp: caller_def rt split: sum.splits option.splits handler.splits)
    have "grown ?env (userID r') (objects ?db) ?db' \<and> (ack \<longrightarrow> objects ?db' \<noteq> objects ?db)"
      using hnd
    proof (elim disjE conjE)
      assume h: "hnd = ObjUpload" "ack = has_status out 201"
      then have "Upload (services env) (uploading env) (objectHandler app) (r'\<lparr>pathValue := vals\<rparr>) gw = Some (out, gw')"
        using assms(1) r'(1) by (simp add: serve)
      from Upload_grown [OF this assms(3)] h(2) show ?thesis by (auto simp: has_status_def)
    next
      assume h: "hnd = MultiComplete" "ack = has_status out 200"
      obtain w gw1 where c: "CompleteMultipart (services env) (r'\<lparr>pathValue := vals\<rparr>) gw = (w, gw1)" by fastforce
      then have "out = Response w" "gw1 = gw'" using assms(1) r'(1) h(1) by (simp_all add: serve)
      with CompleteMultipart_grown [OF c assms(3)] h(2) show ?thesis by (auto simp: has_status_def)
    qed
    with grown_catalog [OF _ r'(2) _ inv(2) same] hnd show ?thesis unfolding Creates by auto
  next
    case (Removes u i ack)
    then obtain r' where r': "?auth = Inr r'" "uuid_in ?env (userID r') = Some u" "uuid_in ?env (vals ''id'') = Some i"
      and hnd: "hnd = ObjDelete" "ack = has_status out 204"
      by (auto simp: caller_def rt split: sum.splits option.splits handler.splits)
    obtain w gw1 where c: "Delete (services env) (call_sched env) (r'\<lparr>pathValue := vals\<rparr>) gw = (w, gw1)" by fastforce
    then have "out = Response w" "gw1 = gw'" using assms(1) r'(1) hnd(1) by (simp_all add: serve)
    with Delete_catalog [OF c assms(2), of i u] r' hnd(2) show ?thesis unfolding Removes by (simp add: has_status_def)
  qed
qed

text \<open>The rebalancer changes locations only.\<close>

lemma rebalance_catalog:
  "rebalance_scan env rg gw = (ics, gw') \<Longrightarrow> catalog_of (database_of_gw gw') = catalog_of (database_of_gw gw)"
  "catalog_of (database_of_gw (rebalance_chunk env rb rf ic gw)) = catalog_of (database_of_gw gw)"
proof -
  let ?same = "\<lambda>db db'. objects db' = objects db \<and> chunks db' = chunks db"
  have loc: "?same db (snd (AddChunkLocation e u n db))" "?same db (snd (RemoveChunkLocation e u n db))" for e u n db
    by (auto simp: AddChunkLocation_def RemoveChunkLocation_def exec_stmt_def Let_def split: fault.split option.split)
  have add: "?same db (add_locations e u ns db)" for e u ns db
    using loc(1) by (induction ns arbitrary: db) (simp_all add: split_beta)
  have drop: "?same (database_of_gw gw) (database_of_gw (drop_obsolete env u h ns gw))" for u h ns gw
    using loc(2) by (induction ns arbitrary: gw) (simp_all add: split_beta)
  have "?same (database_of_gw gw) (database_of_gw (rebalance_chunk env rb rf (fst ic, snd ic) gw))"
    by (cases rule: rebalance_chunk_cases [of rb rf "fst ic" "snd ic" env gw]) (simp_all add: add drop)
  then show "catalog_of (database_of_gw (rebalance_chunk env rb rf ic gw)) = catalog_of (database_of_gw gw)"
    by (intro catalog_cong) simp_all
  have "?same db (snd (GetAllChunks e db))" for e db using tables_eq [OF reads_same(4)] by metis
  then have "?same (database_of_gw gw) (database_of_gw (snd (rebalance_scan env rg gw)))"
    by (simp add: rebalance_scan_def Let_def split_beta split: sum.split)
  then show "rebalance_scan env rg gw = (ics, gw') \<Longrightarrow> catalog_of (database_of_gw gw') = catalog_of (database_of_gw gw)"
    using catalog_cong by (metis snd_conv)
qed

abbreviation sys_catalog :: "system \<Rightarrow> catalog" where
  "sys_catalog s \<equiv> catalog_of (database_of_gw (sys_gateway s))"

lemma does_catalog:
  assumes "sys_does app sn e s s'" "tables_ok (database_of_gw (sys_gateway s))" "fair e"
  shows "catalog_does (asks app e) (sys_catalog s) (sys_catalog s')"
  using assms(1)
proof cases
  case (serve env m path r out gw denv us)
  with served_catalog [OF serve(3) assms(2) _ serve(5)] assms(3) show ?thesis by simp
next
  case (scan rg env ics gw)
  then show ?thesis by (simp add: rebalance_catalog(1) idle)
next
  case (rebalance ic ics rb env)
  then show ?thesis by (simp add: rebalance_catalog(2) idle)
next
  case (health net env sched order)
  have "sys_catalog s' = sys_catalog s" using health(2) health_sees by (intro catalog_views) simp
  with health(1) show ?thesis by (simp add: idle)
next
  case (sync raftAPI env rm db)
  have "sys_catalog s' = sys_catalog s"
    using sync view_tables [OF sync_step_tables [of "database_of_gw (sys_gateway s)" raftAPI env "sys_ring s"]] by (intro catalog_views) simp
  with sync(1) show ?thesis by (simp add: idle)
qed (simp_all add: idle)

interpretation catalogue: simulation "sys_does (NewRouter cfg) sn" catalog_does
    "sys_typed (NewRouter cfg) (node_typed sn (cfg_EncryptionKey cfg))" fair "asks (NewRouter cfg)" sys_catalog for cfg sn
proof
  fix e s s' assume e: "sys_does (NewRouter cfg) sn e s s'" and typed: "sys_typed (NewRouter cfg) (node_typed sn (cfg_EncryptionKey cfg)) s"
  from run.keeps_inv [OF sys_stepI [OF e] typed] show "sys_typed (NewRouter cfg) (node_typed sn (cfg_EncryptionKey cfg)) s'" .
  assume "fair e"
  with does_catalog [OF e] typed show "catalog_does (asks (NewRouter cfg) e) (sys_catalog s) (sys_catalog s')"
    by (simp add: sys_typed_def gateway_ok_def)
qed

section \<open>Lists\<close>

lemma ListObjects_rows:
  assumes "ListObjects env u db = (Inr xs, db')"
  shows "\<exists>uid. uuid_in env u = Some uid \<and> db' = db\<lparr>stmt_no := Suc (stmt_no db)\<rparr> \<and>
    xs = fetch_rows env (stmt_no db) (sort_key (\<lambda>x. - obj_CreatedAt x)
      (shuffle (row_order env (stmt_no db)) (filter (\<lambda>x. obj_UserID x = uid) (objects db))))"
  using assms by (auto simp: ListObjects_def exec_stmt_ok Let_def split: prod.splits sum.splits option.splits)

section \<open>Properties\<close>

text \<open>
  C3: the whole system implements the catalogue. However requests, the rounds of the three loops, new storage nodes and
  time follow each other from the start of the gateway on, and whatever the network, the disks and the database lose, the run
  is one of the catalogue: a request creates at most one object, of its own user, by an upload or the completion of one; it
  removes at most the one object that it names, and only if its user owns it; an acknowledged creation or removal has happened; and
  nothing else ever changes an object's name, type, size, owner or the hashes of its chunks.
\<close>

theorem system_refines_catalog:
  assumes "sys_init (NewRouter cfg) s0" "trace (sys_does (NewRouter cfg) sn) es s0 s" "\<forall>e \<in> set es. fair e"
  shows "trace catalog_does (map (asks (NewRouter cfg)) es) Map.empty (sys_catalog s)"
proof -
  have "sys_catalog s0 = Map.empty" using assms(1) by (simp add: sys_init_def catalog_of_def empty_db_def fun_eq_iff)
  with catalogue.trace_simulates [OF assms(2) run.starts [OF assms(1)] assms(3)] show ?thesis by simp
qed

text \<open>
  C7: objects are immutable. Whatever the gateway serves and does, an object keeps its name, type, size, owner, time of creation and
  the hashes of its chunks in their order, until a request of its owner asks for its deletion.
\<close>

theorem object_immutable:
  assumes "sys_init (NewRouter cfg) s0" "trace (sys_does (NewRouter cfg) sn) es s0 s" "sys_catalog s i = Some x"
    and "trace (sys_does (NewRouter cfg) sn) es' s s'" "\<forall>e \<in> set es'. fair e"
    and "\<forall>ack. Removes (en_owner x) i ack \<notin> asks (NewRouter cfg) ` set es'"
  shows "sys_catalog s' i = Some x"
proof -
  have "sys_typed (NewRouter cfg) (node_typed sn (cfg_EncryptionKey cfg)) s"
    using assms(2) run.starts [OF assms(1)] by (induction rule: trace.induct) (auto intro: run.keeps_inv sys_stepI)
  from catalogue.trace_simulates [OF assms(4) this assms(5)]
  have "trace catalog_does (map (asks (NewRouter cfg)) es') (sys_catalog s) (sys_catalog s')" by simp
  from entry_stays [OF this assms(3)] assms(6) show ?thesis by simp
qed

text \<open>
  C9: a list shows the caller's objects. \<open>List\<close> answers with 200 and objects of the caller only, each at most once, the newest
  first, all of them unless the connection to the database breaks off while the rows are read, which nobody notices; or with 500 and no data.
\<close>

theorem List_exact:
  assumes "List env r gw = (w, gw')" "db_inv (database_of_gw gw)" "clientGone r = None"
  shows "(\<exists>uid xs. uuid_in (db_of env) (userID r) = Some uid \<and> status_code w = 200 \<and> body w = [Json (JArr (map list_item xs))] \<and>
      sorted (map (\<lambda>x. - obj_CreatedAt x) xs) \<and> distinct (map obj_ID xs) \<and>
      set xs \<subseteq> {x \<in> set (objects (database_of_gw gw)). obj_UserID x = uid} \<and>
      (rows_cut (db_of env) (stmt_no (database_of_gw gw)) \<noteq> None \<or>
        set xs = {x \<in> set (objects (database_of_gw gw)). obj_UserID x = uid})) \<or>
    status_code w = 500 \<and> body w = [ErrorText ''internal server error'']"
proof -
  let ?db = "database_of_gw gw"
  obtain v db where l: "ListObjects (db_of env) (userID r) ?db = (v, db)" by fastforce
  show ?thesis
  proof (cases v)
    case (Inl err)
    with assms(1,3) l show ?thesis by (auto simp: List_def new_response_def http_Error_def set_header_def WriteHeader_def response_Write_def status_code_def)
  next
    case (Inr xs)
    with ListObjects_rows l obtain uid where uid: "uuid_in (db_of env) (userID r) = Some uid"
      and xs: "xs = fetch_rows (db_of env) (stmt_no ?db) (sort_key (\<lambda>x. - obj_CreatedAt x)
        (shuffle (row_order (db_of env) (stmt_no ?db)) (filter (\<lambda>x. obj_UserID x = uid) (objects ?db))))" (is "_ = fetch_rows _ _ ?ys") by blast
    have ys: "set ?ys = {x \<in> set (objects ?db). obj_UserID x = uid}" "sorted (map (\<lambda>x. - obj_CreatedAt x) ?ys)" by simp_all
    have "distinct (map obj_ID (objects ?db))" using assms(2) by (simp add: db_inv_def objects_inv_def)
    then have "distinct (map obj_ID (filter (\<lambda>x. obj_UserID x = uid) (objects ?db)))" by (simp add: distinct_map_filter)
    moreover have "mset (map obj_ID ?ys) = mset (map obj_ID (filter (\<lambda>x. obj_UserID x = uid) (objects ?db)))" by simp
    ultimately have "distinct (map obj_ID ?ys)" using mset_eq_imp_distinct_iff by blast
    with ys have "set xs \<subseteq> set ?ys" "distinct (map obj_ID xs)" "sorted (map (\<lambda>x. - obj_CreatedAt x) xs)"
      "rows_cut (db_of env) (stmt_no ?db) = None \<longrightarrow> xs = ?ys"
      unfolding xs fetch_rows_def by (auto split: option.splits dest: in_set_takeD simp: take_map [symmetric] sorted_wrt_take)
    moreover have "status_code w = 200" "body w = [Json (JArr (map list_item xs))]"
      using assms(1,3) l Inr by (auto simp: List_def new_response_def write_json_def set_header_def WriteHeader_def response_Write_def status_code_def)
    ultimately show ?thesis using uid ys(1) by auto
  qed
qed

section \<open>Concrete instances\<close>

definition upload_request :: request where
  "upload_request = (auth_request ''p'')\<lparr>reqBody := [1, 2, 3]\<rparr>"

lemma route_upload: "route ''POST'' [''objects''] = (ObjUpload, map_get '''' Map.empty)"
  by (simp add: route_def routes_def matches_def method_matches_def at_least_as_specific_def)

lemma upload_auth:
  "RequireAuth (jwt_of (accounts serve_env_one)) (JWTSecret (authHandler (NewRouter config_one))) (parse_clock serve_env_one)
     upload_request = Inr (upload_request\<lparr>userID := ''u''\<rparr>)"
  by (simp add: RequireAuth_def upload_request_def auth_request_def SplitN_2_def jwt_plain_def key_func_def serve_env_one_def
      auth_plain_def NewRouter_def config_one_def config_plain_def Let_def)

lemma uploaded:
  "\<exists>w gw'. sys_does (NewRouter config_one) plain_snappy (Served serve_env_one ''POST'' [''objects''] upload_request (Response w))
       sys_account (sys_account\<lparr>sys_gateway := gw'\<rparr>) \<and> status_code w = 201 \<and>
     Upload env_ok up_one (objectHandler (NewRouter config_one)) (upload_request\<lparr>userID := ''u'', pathValue := map_get '''' Map.empty\<rparr>)
       (sys_gateway sys_account) = Some (Response w, gw')"
proof -
  let ?r = "upload_request\<lparr>userID := ''u'', pathValue := map_get '''' Map.empty\<rparr>"
  have "userID ?r = ''u''" "reqBody ?r = [1, 2, 3]" "reqEnd ?r = EndEOF" by (simp_all add: upload_request_def auth_request_def)
  from upload_one [OF this] obtain w gw' where
    u: "Upload env_ok up_one (objectHandler (NewRouter config_one)) ?r (sys_gateway sys_account) = Some (Response w, gw')"
    and w: "status_code w = 201" by (elim exE conjE) (rule that)
  have "serve_request serve_env_one (NewRouter config_one) ''POST'' [''objects''] upload_request (sys_gateway sys_account) =
      Some (Response w, gw')"
    using u upload_auth by (simp add: serve_request_def route_upload protected_def RequireAuth_pathValue Let_def serve_env_one_def)
  from sys_does.serve [OF this, of plain_snappy _ "[]"]
  have "sys_does (NewRouter config_one) plain_snappy (Served serve_env_one ''POST'' [''objects''] upload_request (Response w))
      sys_account (sys_account\<lparr>sys_gateway := gw'\<rparr>)"
    by (simp add: serve_env_one_def up_one_def env3_simps registrations_def seen_one id_def)
  with u w show ?thesis by blast
qed

lemma upload_asks: "status_code w = 201 \<Longrightarrow>
  asks (NewRouter config_one) (Served serve_env_one ''POST'' [''objects''] upload_request (Response w)) = Creates ''u'' True"
  using upload_auth by (simp add: caller_def route_upload) (simp add: has_status_def serve_env_one_def env3_simps)

lemma register_asks:
  "asks (NewRouter config_one) (Served serve_env_one ''POST'' [''auth'', ''register''] r out) = Nothing"
  by (simp add: route_register split: option.split)

lemma fair_one: "fair (Served serve_env_one m path r out)"
  by (simp add: serve_env_one_def ready3)

text \<open>A node starts, a user registers and uploads an object; and what is left of it.\<close>

lemma catalog_run:
  obtains gw' es x where
    "trace (sys_does (NewRouter config_one) plain_snappy) es (sys_start config_one) (sys_account\<lparr>sys_gateway := gw'\<rparr>)"
    "\<forall>e \<in> set es. fair e" "map (asks (NewRouter config_one)) es = [Nothing, Nothing, Creates ''u'' True]"
    "db_inv (database_of_gw gw')" "objects (database_of_gw gw') = [x]" "obj_UserID x = ''u''" "obj_SizeBytes x = 3"
proof -
  let ?app = "NewRouter config_one"
  obtain v where reg: "sys_does ?app plain_snappy (Served serve_env_one ''POST'' [''auth'', ''register''] (auth_request ''p'') v)
      (sys_booted config_one) sys_account" using registered by blast
  let ?r = "upload_request\<lparr>userID := ''u'', pathValue := map_get '''' Map.empty\<rparr>"
  obtain w gw' where up: "sys_does ?app plain_snappy (Served serve_env_one ''POST'' [''objects''] upload_request (Response w))
      sys_account (sys_account\<lparr>sys_gateway := gw'\<rparr>)" and w: "status_code w = 201"
    and u: "Upload env_ok up_one (objectHandler ?app) ?r (sys_gateway sys_account) = Some (Response w, gw')"
    using uploaded by (elim exE conjE) (rule that)
  from trace_snoc [where does = "sys_does ?app plain_snappy", OF trace_two [where does = "sys_does ?app plain_snappy", OF booted reg] up]
  have "trace (sys_does ?app plain_snappy) [Booted, Served serve_env_one ''POST'' [''auth'', ''register''] (auth_request ''p'') v,
      Served serve_env_one ''POST'' [''objects''] upload_request (Response w)] (sys_start config_one) (sys_account\<lparr>sys_gateway := gw'\<rparr>)"
    by simp
  moreover have "sys_typed ?app (node_typed plain_snappy (cfg_EncryptionKey config_one)) (sys_account\<lparr>sys_gateway := gw'\<rparr>)"
    by (rule run.reachable_inv [OF account_run(1) rtranclp.rtrancl_into_rtrancl [OF account_run(2) sys_stepI [OF up]]])
  then have "db_inv (database_of_gw gw')" by (simp add: sys_typed_def gateway_ok_def tables_ok_def)
  moreover have r: "reqBody ?r = [1, 2, 3]" "userID ?r = ''u''" by (simp_all add: upload_request_def auth_request_def)
  have blocks: "blocks_of (nat (chunk_size (objectHandler ?app))) (reqBody ?r) = [[1, 2, 3]]"
    unfolding r using handler3_ok(4) by (simp add: handler_one req_ok_def)
  then have "separable (net_of env_ok) (blocks_of (nat (chunk_size (objectHandler ?app))) (reqBody ?r))"
    unfolding blocks by (simp add: separable_def)
  from upload_result [OF u w _ account_store(1) _ _ this] r ring_one
  obtain ob where "objects (database_of_gw gw') = objects (database_of_gw (sys_gateway sys_account)) @ [ob]" "obj_UserID ob = ''u''"
    "obj_SizeBytes ob = 3" by (auto simp: handler_one ready3 up_one_def env3_simps)
  moreover have "objects (database_of_gw (sys_gateway sys_account)) = []" by (simp add: sys_account_def empty_db_def)
  ultimately show ?thesis
    using w upload_asks register_asks fair_one by (intro that) auto
qed

lemma system_refines_catalog_witness:
  "\<exists>m. trace catalog_does [Nothing, Nothing, Creates ''u'' True] Map.empty m \<and> (\<exists>i x. m i = Some x \<and> en_size x = 3)"
proof -
  obtain gw' es x where run: "trace (sys_does (NewRouter config_one) plain_snappy) es (sys_start config_one) (sys_account\<lparr>sys_gateway := gw'\<rparr>)"
    "\<forall>e \<in> set es. fair e" "map (asks (NewRouter config_one)) es = [Nothing, Nothing, Creates ''u'' True]"
    and db: "db_inv (database_of_gw gw')" "objects (database_of_gw gw') = [x]" "obj_SizeBytes x = 3" by (rule catalog_run)
  have "catalog_of (database_of_gw gw') (obj_ID x) = Some (entry_of (database_of_gw gw') x)" using db by (intro catalog_at) simp_all
  then have "catalog_of (database_of_gw gw') (obj_ID x) = Some (entry_of (database_of_gw gw') x) \<and>
      en_size (entry_of (database_of_gw gw') x) = 3" using db(3) by (simp add: entry_of_def)
  moreover have "trace catalog_does [Nothing, Nothing, Creates ''u'' True] Map.empty (catalog_of (database_of_gw gw'))"
    using system_refines_catalog [OF account_run(1) run(1,2)] by (simp add: run(3))
  ultimately show ?thesis by blast
qed

text \<open>The object of that run, after a round of the sync loop and an hour.\<close>

lemma object_immutable_witness:
  "\<exists>gw' i x. sys_catalog (sys_account\<lparr>sys_gateway := gw'\<rparr>) i = Some x \<and> en_size x = 3 \<and>
     sys_catalog (an_hour_later (after_sync (sys_account\<lparr>sys_gateway := gw'\<rparr>))) i = Some x"
proof -
  obtain gw' es x where run: "trace (sys_does (NewRouter config_one) plain_snappy) es (sys_start config_one) (sys_account\<lparr>sys_gateway := gw'\<rparr>)"
    and db: "db_inv (database_of_gw gw')" "objects (database_of_gw gw') = [x]" "obj_SizeBytes x = 3" by (rule catalog_run)
  have "catalog_of (database_of_gw gw') (obj_ID x) = Some (entry_of (database_of_gw gw') x)" using db by (intro catalog_at) simp_all
  then have c: "sys_catalog (sys_account\<lparr>sys_gateway := gw'\<rparr>) (obj_ID x) = Some (entry_of (database_of_gw gw') x)" by simp
  note run' = trace_two [where does = "sys_does (NewRouter config_one) plain_snappy", OF synced an_hour]
  have "sys_catalog (an_hour_later (after_sync (sys_account\<lparr>sys_gateway := gw'\<rparr>))) (obj_ID x) = Some (entry_of (database_of_gw gw') x)"
    by (rule object_immutable [OF account_run(1) run c run']) simp_all
  with c db(3) show ?thesis
    by (intro exI [of _ gw'] exI [of _ "obj_ID x"] exI [of _ "entry_of (database_of_gw gw') x"]) (simp add: entry_of_def)
qed

lemma List_exact_witness:
  "\<exists>gw' x. objects (database_of_gw gw') = [x] \<and> obj_SizeBytes x = 3 \<and>
     (body (fst (List env_ok (upload_request\<lparr>userID := ''u''\<rparr>) gw')) = [Json (JArr [list_item x])] \<or>
      status_code (fst (List env_ok (upload_request\<lparr>userID := ''u''\<rparr>) gw')) = 500)"
proof -
  obtain gw' es x where run: "trace (sys_does (NewRouter config_one) plain_snappy) es (sys_start config_one) (sys_account\<lparr>sys_gateway := gw'\<rparr>)"
    and db: "db_inv (database_of_gw gw')" "objects (database_of_gw gw') = [x]" "obj_UserID x = ''u''" "obj_SizeBytes x = 3"
    by (rule catalog_run)
  have "clientGone (upload_request\<lparr>userID := ''u''\<rparr>) = None" by (simp add: upload_request_def auth_request_def)
  note l = List_exact [OF surjective_pairing db(1) this, of env_ok]
  have "map list_item xs = [list_item x]" if "distinct (map obj_ID xs)" "set xs = {y. y = x \<and> obj_UserID y = ''u''}" for xs
  proof -
    have "set xs = {x}" using that(2) db(3) by auto
    with that(1) show ?thesis by (cases xs; cases "tl xs") auto
  qed
  with l db show ?thesis
    by (intro exI [of _ gw'] exI [of _ x]) (auto simp: env3_simps db_ok_def)
qed

end
