(* ===== verification/Metrics.thy ===== *)
theory Metrics imports Catalog begin

text \<open>
  The metrics that the gateway exports (\<open>internal/metrics/metrics.go\<close>), with the statements of the handlers and of
  the sync loop that count: two counters and a gauge beside the state of the system. The file shows what the
  numbers mean.
\<close>

section \<open>The collectors\<close>

record Metrics =
  UploadsTotal :: nat
  DownloadsTotal :: nat
  ActiveNodes :: int

definition metrics_new :: Metrics where
  "metrics_new = \<lparr>UploadsTotal = 0, DownloadsTotal = 0, ActiveNodes = 0\<rparr>"

text \<open>The last line of \<open>Upload\<close>, which only the branch reaches that answers 201.\<close>

definition count_upload :: "outcome \<Rightarrow> Metrics \<Rightarrow> Metrics" where
  "count_upload out mt = (if has_status out 201 then mt\<lparr>UploadsTotal := UploadsTotal mt + 1\<rparr> else mt)"

text \<open>The last line of \<open>Download\<close>, after the loop over the chunks has ended without a return.\<close>

fun sends_all :: "gw_env \<Rightarrow> ObjectHandler \<Rightarrow> Chunk list \<Rightarrow> http_response \<Rightarrow> cluster \<Rightarrow> bool" where
  "sends_all env h [] w c \<longleftrightarrow> True"
| "sends_all env h (chunk # cs) w c \<longleftrightarrow>
     (case fetch_chunk env h (ch_Hash chunk) (ch_NodeAddresses chunk) c of
        (None, c) \<Rightarrow> False
      | (Some data, c) \<Rightarrow>
          (case response_Write (Raw data) w of
             (False, w) \<Rightarrow> False
           | (True, w) \<Rightarrow> sends_all env h cs w c))"

definition count_download :: "gw_env \<Rightarrow> ObjectHandler \<Rightarrow> request \<Rightarrow> gateway \<Rightarrow> Metrics \<Rightarrow> Metrics" where
  "count_download env h r gw mt =
     (let w = new_response (clientGone r);
          objectID = pathValue r ''id'';
          (obj, db) = GetObjectByID (db_of env) objectID (userID r) (database_of_gw gw)
      in case obj of
           Inl err \<Rightarrow> mt
         | Inr None \<Rightarrow> mt
         | Inr (Some obj) \<Rightarrow>
             (let (cs, db) = GetChunksByObjectID (db_of env) objectID db
              in case cs of
                   Inl err \<Rightarrow> mt
                 | Inr cs \<Rightarrow>
                     (let w = set_header ''Content-Type'' (obj_ContentType obj) w;
                          w = set_header ''Content-Disposition''
                                (''attachment; filename=\"'' @ obj_Name obj @ ''\"'') w
                      in if sends_all env h cs w (cluster_of_gw gw)
                         then mt\<lparr>DownloadsTotal := DownloadsTotal mt + 1\<rparr> else mt)))"

text \<open>The end of a round of the sync loop that got a list of nodes.\<close>

definition count_round ::
  "(api_request \<Rightarrow> http_reply) \<Rightarrow> db_env \<Rightarrow> RingManager \<Rightarrow> database \<Rightarrow> Metrics \<Rightarrow> Metrics" where
  "count_round raftAPI env rm db mt =
     (case sync_nodes raftAPI env rm db of
        (None, db) \<Rightarrow> mt
      | (Some activeNodes, db) \<Rightarrow> mt\<lparr>ActiveNodes := int (length activeNodes)\<rparr>)"

section \<open>The system with its metrics\<close>

fun measured :: "app \<Rightarrow> system \<Rightarrow> event \<Rightarrow> Metrics \<Rightarrow> Metrics" where
  "measured app s (Served env m path r out) mt =
     (case RequireAuth (jwt_of (accounts env)) (JWTSecret (authHandler app)) (parse_clock env) r of
        Inl w \<Rightarrow> mt
      | Inr r' \<Rightarrow>
          (let (hnd, vals) = route m path
           in case hnd of
                ObjUpload \<Rightarrow> count_upload out mt
              | ObjDownload \<Rightarrow> count_download (services env) (objectHandler app) (r'\<lparr>pathValue := vals\<rparr>) (sys_gateway s) mt
              | _ \<Rightarrow> mt))"
| "measured app s (Synced raftAPI env) mt =
     count_round raftAPI env (sys_ring s) (database_of_gw (sys_gateway s)) mt"
| "measured app s _ mt = mt"

definition metered :: "app \<Rightarrow> snappy \<Rightarrow> event \<Rightarrow> system \<times> Metrics \<Rightarrow> system \<times> Metrics \<Rightarrow> bool" where
  "metered app sn e x x' \<longleftrightarrow> sys_does app sn e (fst x) (fst x') \<and> snd x' = measured app (fst x) e (snd x)"

section \<open>What the numbers mean\<close>

text \<open>A download is counted exactly when all chunks of the object were sent, and nothing else.\<close>

lemma sends_all_body:
  assumes "sends_all env h cs w c" "status_code w = 200"
  shows "\<exists>ds. body (fst (send_chunks env h cs w c)) = body w @ map Raw ds \<and> length ds = length cs \<and>
    status_code (fst (send_chunks env h cs w c)) = 200"
  using assms
proof (induction cs arbitrary: w c)
  case (Cons chunk cs)
  obtain v c1 where v: "fetch_chunk env h (ch_Hash chunk) (ch_NodeAddresses chunk) c = (v, c1)" by fastforce
  with Cons.prems(1) obtain d where f: "fetch_chunk env h (ch_Hash chunk) (ch_NodeAddresses chunk) c = (Some d, c1)" by (cases v) simp_all
  obtain ok w1 where "response_Write (Raw d) w = (ok, w1)" by fastforce
  with Cons.prems(1) f have w: "response_Write (Raw d) w = (True, w1)" and all: "sends_all env h cs w1 c1" by (cases ok; simp)+
  have "body w1 = body w @ [Raw d]" "status_code w1 = 200"
    using w Cons.prems(2) by (auto simp: response_Write_def WriteHeader_def status_code_def Let_def split: option.splits nat.splits)
  with Cons.IH [OF all] obtain ds where "body (fst (send_chunks env h cs w1 c1)) = body w @ map Raw (d # ds)" "length ds = length cs"
    "status_code (fst (send_chunks env h cs w1 c1)) = 200" by auto
  with f w show ?case by (intro exI [of _ "d # ds"]) simp
qed simp

lemma count_download_complete:
  assumes "count_download env h r gw mt \<noteq> mt"
  shows "\<exists>ds ob cs db1 db2. body (fst (Download env h r gw)) = map Raw ds \<and> status_code (fst (Download env h r gw)) = 200 \<and>
    length ds = length cs \<and>
    GetObjectByID (db_of env) (pathValue r ''id'') (userID r) (database_of_gw gw) = (Inr (Some ob), db1) \<and>
    GetChunksByObjectID (db_of env) (pathValue r ''id'') db1 = (Inr cs, db2)"
proof -
  obtain o1 db1 where g: "GetObjectByID (db_of env) (pathValue r ''id'') (userID r) (database_of_gw gw) = (o1, db1)" by fastforce
  obtain o2 db2 where g2: "GetChunksByObjectID (db_of env) (pathValue r ''id'') db1 = (o2, db2)" by fastforce
  from assms g g2 obtain ob cs where o: "o1 = Inr (Some ob)" "o2 = Inr cs"
    by (auto simp: count_download_def Let_def split: sum.splits option.splits)
  let ?w = "set_header ''Content-Disposition'' (''attachment; filename=\"'' @ obj_Name ob @ ''\"'')
       (set_header ''Content-Type'' (obj_ContentType ob) (new_response (clientGone r)))"
  from assms g g2 o have all: "sends_all env h cs ?w (cluster_of_gw gw)"
    by (auto simp: count_download_def Let_def split: if_splits)
  have w: "status_code ?w = 200" "body ?w = []" by (simp_all add: new_response_def status_code_def)
  from sends_all_body [OF all w(1)] obtain ds where "body (fst (send_chunks env h cs ?w (cluster_of_gw gw))) = map Raw ds"
    "length ds = length cs" "status_code (fst (send_chunks env h cs ?w (cluster_of_gw gw))) = 200" using w(2) by auto
  moreover have "fst (Download env h r gw) = fst (send_chunks env h cs ?w (cluster_of_gw gw))"
    using g g2 o by (simp add: Download_def Let_def split_beta)
  ultimately show ?thesis using g g2 o by auto
qed

text \<open>
  The gauge is the number of nodes that the ring manager has counted, and the counter of the uploads is
  the number of the single uploads that were acknowledged: those in parts are not counted.
\<close>

fun acknowledged :: "label \<Rightarrow> bool" where
  "acknowledged (Creates u ack) \<longleftrightarrow> ack"
| "acknowledged _ \<longleftrightarrow> False"

fun is_upload :: "event \<Rightarrow> bool" where
  "is_upload (Served env m path r out) \<longleftrightarrow> fst (route m path) = ObjUpload"
| "is_upload _ \<longleftrightarrow> False"

lemma measured_download [simp]:
  "UploadsTotal (count_download env h r gw mt) = UploadsTotal mt" "ActiveNodes (count_download env h r gw mt) = ActiveNodes mt"
  by (simp_all add: count_download_def Let_def split: prod.split sum.split option.split)

lemma measured_round:
  assumes "sync_step raftAPI env (rm, db) = (rm', db')" "ActiveNodes mt = activeCount rm"
  shows "ActiveNodes (count_round raftAPI env rm db mt) = activeCount rm'"
  using assms by (auto simp: sync_step_def count_round_def rebuild_eq Let_def split: prod.splits option.splits)

lemma measured_gauge:
  assumes "sys_does app sn e s s'" "ActiveNodes mt = activeCount (sys_ring s)"
  shows "ActiveNodes (measured app s e mt) = activeCount (sys_ring s')"
  using assms(1)
proof cases
  case (serve env m path r out gw denv us)
  with assms(2) show ?thesis by (auto simp: count_upload_def split: sum.split prod.split handler.split)
next
  case (sync raftAPI env rm db)
  with assms(2) measured_round [OF sync(3)] show ?thesis by simp
qed (use assms(2) in simp_all)

lemma measured_uploads:
  assumes "sys_does app sn e s s'" "fair e"
  shows "UploadsTotal (measured app s e mt) = UploadsTotal mt + (if is_upload e \<and> acknowledged (asks app e) then 1 else 0)"
  using assms(1)
proof cases
  case (serve env m path r out gw denv us)
  let ?auth = "RequireAuth (jwt_of (accounts env)) (JWTSecret (authHandler app)) (parse_clock env) r"
  obtain hnd vals where rt: "route m path = (hnd, vals)" by fastforce
  have "caller app env r \<noteq> None" if "?auth = Inr r'" "hnd = ObjUpload" "has_status out 201" for r'
  proof -
    have "Upload (services env) (uploading env) (objectHandler app) (r'\<lparr>pathValue := vals\<rparr>) (sys_gateway s) = Some (out, gw)"
      using serve(3) that(1,2) by (simp add: serve_request_def rt Let_def protected_def RequireAuth_pathValue)
    from Upload_grown [OF this] assms(2) serve(1) that(3) show ?thesis using that(1) by (auto simp: grown_def has_status_def caller_def)
  qed
  with serve(1) rt show ?thesis
    by (cases ?auth; cases hnd) (auto simp: count_upload_def caller_def split: option.split)
next
  case (sync raftAPI env rm db)
  then show ?thesis by (simp add: count_round_def split: prod.split option.split)
qed simp_all

lemma metrics_exact:
  assumes "trace (metered (NewRouter cfg) sn) es x x'" "sys_init (NewRouter cfg) (fst x)" "snd x = metrics_new" "\<forall>e \<in> set es. fair e"
  shows "UploadsTotal (snd x') = length (filter (\<lambda>e. is_upload e \<and> acknowledged (asks (NewRouter cfg) e)) es) \<and>
    ActiveNodes (snd x') = activeCount (sys_ring (fst x'))"
  using assms
proof (induction rule: trace.induct)
  case (trace_nil x)
  then show ?case by (simp add: metrics_new_def sys_init_def NewRingManager_def)
next
  case (trace_snoc es x x1 e x2)
  then have "sys_does (NewRouter cfg) sn e (fst x1) (fst x2)" "snd x2 = measured (NewRouter cfg) (fst x1) e (snd x1)" "fair e"
    by (simp_all add: metered_def)
  with trace_snoc measured_uploads [OF this(1)] measured_gauge [OF this(1)] show ?case by simp
qed

end
