(* ===== verification/Startup.thy ===== *)
theory Startup imports Router begin

text \<open>
  The two programs: \<open>main\<close> of the gateway (\<open>cmd/gateway/main.go\<close>) with \<open>telemetry.Init\<close>
  (\<open>internal/telemetry/tracing.go\<close>), \<open>db.Connect\<close> (\<open>internal/db/db.go\<close>) and \<open>db.RunMigrations\<close>
  (\<open>internal/db/migrate.go\<close>), and \<open>main\<close> of the storage node (\<open>cmd/storagenode/main.go\<close>) with the
  goroutine that joins a raft cluster. A run is the list of its visible effects and how it ends;
  what the libraries report is an argument. The file shows when the programs serve, what a failed
  start leaves behind, and when the join loop ends.
\<close>

section \<open>How a program ends\<close>

text \<open>
  \<open>log.Fatalf\<close> ends the process without running what was deferred; a \<open>main\<close> that returns runs
  it; a server that listens goes on.
\<close>

datatype process_end = Exited string | Returned | Serving

definition log_Fatalf :: "string \<Rightarrow> go_error \<Rightarrow> process_end" where
  "log_Fatalf msg err = Exited (msg @ '': '' @ error_text err)"

text \<open>A call that serves until it fails, with what it returns once it has.\<close>

datatype served = Serves | Ended "go_error option"

definition after_serving :: "string \<Rightarrow> served \<Rightarrow> process_end" where
  "after_serving msg sv =
     (case sv of Serves \<Rightarrow> Serving | Ended (Some err) \<Rightarrow> log_Fatalf msg err | Ended None \<Rightarrow> Returned)"

section \<open>Tracing and the database\<close>

record telemetry_env =
  exporter_error :: "go_error option"
  resource_error :: "go_error option"

definition telemetry_Init :: "telemetry_env \<Rightarrow> string \<Rightarrow> go_error + string" where
  "telemetry_Init env serviceName =
     (case exporter_error env of
        Some err \<Rightarrow> Inl (Wrapf ''create otlp exporter'' err)
      | None \<Rightarrow>
          (case resource_error env of
             Some err \<Rightarrow> Inl (Wrapf ''create resource'' err)
           | None \<Rightarrow> Inr serviceName))"

text \<open>The wrapper for handlers, which the program does not use; what it wraps them with is not its own.\<close>

definition telemetry_HTTP :: "('h \<Rightarrow> string \<Rightarrow> 'h) \<Rightarrow> string \<Rightarrow> 'h \<Rightarrow> 'h" where
  "telemetry_HTTP otelhttp_NewHandler service hnd = otelhttp_NewHandler hnd service"

record sql_pool =
  pool_dsn :: string
  MaxOpenConns :: nat
  MaxIdleConns :: nat

record sql_env =
  open_error :: "string \<Rightarrow> go_error option"
  ping_error :: "string \<Rightarrow> go_error option"

definition Connect :: "sql_env \<Rightarrow> string \<Rightarrow> go_error + sql_pool" where
  "Connect env dsn =
     (case open_error env dsn of
        Some err \<Rightarrow> Inl (Wrapf ''failed to open db'' err)
      | None \<Rightarrow>
          (case ping_error env dsn of
             Some err \<Rightarrow> Inl (Errorf (''failed to pingdb '' @ error_text err))
           | None \<Rightarrow> Inr \<lparr>pool_dsn = dsn, MaxOpenConns = 25, MaxIdleConns = 10\<rparr>))"

text \<open>What \<open>m.Up()\<close> returns: nothing, the sentinel \<open>migrate.ErrNoChange\<close>, or another error.\<close>

datatype up_error = UpNil | UpNoChange | UpFailed go_error

record migrate_env =
  driver_error :: "go_error option"
  migrator_error :: "string \<Rightarrow> go_error option"
  up_error :: "string \<Rightarrow> up_error"

definition RunMigrations :: "migrate_env \<Rightarrow> string \<Rightarrow> go_error option" where
  "RunMigrations env migrationsPath =
     (case driver_error env of
        Some err \<Rightarrow> Some (Wrapf ''could not create friver for migration'' err)
      | None \<Rightarrow>
          (case migrator_error env migrationsPath of
             Some err \<Rightarrow> Some (Wrapf ''could not crete migrator '' err)
           | None \<Rightarrow>
               (case up_error env migrationsPath of
                  UpFailed err \<Rightarrow> Some (Errorf (''migration failed '' @ error_text err))
                | _ \<Rightarrow> None)))"

section \<open>The gateway\<close>

datatype gateway_event =
    ConnectedTo sql_pool
  | MigratedFrom string
  | ListensOn string app
  | DatabaseClosed
  | TracingShutDown

record gateway_world =
  gw_tracing :: telemetry_env
  gw_environ :: "string \<rightharpoonup> string"
  gw_sql :: sql_env
  gw_migrate :: migrate_env
  gw_listen :: "string \<Rightarrow> served"

text \<open>The deferred calls run in reverse order, and only when \<open>main\<close> returns.\<close>

definition gateway_main :: "gateway_world \<Rightarrow> gateway_event list \<times> process_end" where
  "gateway_main w =
     (case telemetry_Init (gw_tracing w) ''atlasstore-gateway'' of
        Inl err \<Rightarrow> ([], log_Fatalf ''failed to initialize tracing'' err)
      | Inr _ \<Rightarrow>
     (case Load (gw_environ w) of
        Fatal msg \<Rightarrow> ([], Exited msg)
      | LoadErr err \<Rightarrow> ([], Exited ('' failed to load config '' @ error_text err))
      | Loaded cfg \<Rightarrow>
     (case Connect (gw_sql w) (cfg_DBDSN cfg) of
        Inl err \<Rightarrow> ([], log_Fatalf ''failed to connect to database'' err)
      | Inr database \<Rightarrow>
     (case RunMigrations (gw_migrate w) ''file://./migrations'' of
        Some err \<Rightarrow> ([ConnectedTo database], log_Fatalf ''migrations failed'' err)
      | None \<Rightarrow>
          (let router = NewRouter cfg;
               addr = '':'' @ cfg_GatewayPort cfg;
               pend = after_serving ''server error'' (gw_listen w addr)
           in ([ConnectedTo database, MigratedFrom ''file://./migrations'', ListensOn addr router] @
                 (if pend = Returned then [DatabaseClosed, TracingShutDown] else []),
               pend))))))"

section \<open>The goroutine that joins a cluster\<close>

text \<open>
  The error of \<open>http.NewRequest\<close> is ignored: for a URL that does not parse the request is nil, and
  setting its header panics, which ends the process. The \<open>k\<close>-th request has the answer \<open>replies k\<close>.
\<close>

datatype join_end = JoinedVia string | JoinPanic

fun join_round ::
  "(string \<Rightarrow> bool) \<Rightarrow> (nat \<Rightarrow> http_reply) \<Rightarrow> node_settings \<Rightarrow> nat \<Rightarrow> string list \<Rightarrow> join_end option \<times> nat" where
  "join_round url_ok replies s k [] = (None, k)"
| "join_round url_ok replies s k (peerAPIAddr # ps) =
     (if \<not> url_ok (joinURL peerAPIAddr s) then (Some JoinPanic, k)
      else if accepted (replies k) then (Some (JoinedVia peerAPIAddr), Suc k)
      else join_round url_ok replies s (Suc k) ps)"

partial_function (option) join_loop ::
  "(string \<Rightarrow> bool) \<Rightarrow> (nat \<Rightarrow> http_reply) \<Rightarrow> node_settings \<Rightarrow> nat \<Rightarrow> string list \<Rightarrow> (join_end \<times> nat) option" where
  "join_loop url_ok replies s k ps =
     (case join_round url_ok replies s k ps of
        (Some e, k) \<Rightarrow> Some (e, k)
      | (None, k) \<Rightarrow> join_loop url_ok replies s k ps)"

declare join_loop.simps [code]

section \<open>The storage node\<close>

datatype node_event =
    RaftAPIOn string string
  | JoinsVia "string list"
  | Announces
  | ListensGRPC string
  | RegistrationTried bool
  | ServesGRPC string
  | NodeTracingShutDown

record node_world =
  nw_tracing :: telemetry_env
  nw_environ :: "string \<rightharpoonup> string"
  nw_start :: start_env
  nw_listen :: "string \<Rightarrow> go_error option"
  nw_gateway :: "http_request \<Rightarrow> http_reply"
  nw_serve :: served

definition os_Getenv :: "(string \<rightharpoonup> string) \<Rightarrow> string \<Rightarrow> string" where
  "os_Getenv env k = (case env k of None \<Rightarrow> '''' | Some v \<Rightarrow> v)"

text \<open>
  The error of \<open>startRaft\<close> is looked at only after the raft API and the join goroutine have been
  started.
\<close>

definition storagenode_main :: "node_world \<Rightarrow> node_event list \<times> process_end" where
  "storagenode_main w =
     (case telemetry_Init (nw_tracing w) ''atlasstore-storagenode'' of
        Inl err \<Rightarrow> ([], log_Fatalf ''failed to initialise tracing'' err)
      | Inr _ \<Rightarrow>
     (case Load (nw_environ w) of
        Fatal msg \<Rightarrow> ([], Exited msg)
      | LoadErr err \<Rightarrow> ([], log_Fatalf ''failed to load config'' err)
      | Loaded cfg \<Rightarrow>
          (let s = settings_of (os_Getenv (nw_environ w)) (cfg_StorageNodePort cfg);
               raftNode = startRaft (nw_start w) (raftAddr s) (peers s);
               evs = RaftAPIOn (raftAPIPort s) (cfg_ClusterSecret cfg) #
                       (if 0 < length (peers s) then [JoinsVia (peers s)] else [])
           in case raftNode of
                Inl err \<Rightarrow> (evs, log_Fatalf ''raft start failed'' err)
              | Inr servers \<Rightarrow>
                  (let evs = evs @ [Announces]
                   in case nw_listen w (grpcAddr s) of
                        Some err \<Rightarrow> (evs, log_Fatalf ''failed to listen'' err)
                      | None \<Rightarrow>
                          (let ok = registerWithGateway (nw_gateway w) ''http://localhost:8000'' (nodeAddress s)
                                      (cfg_ClusterSecret cfg);
                               pend = after_serving ''gRPC server crashed'' (nw_serve w)
                           in (evs @ [ListensGRPC (grpcAddr s), RegistrationTried ok, ServesGRPC (dataDir s)] @
                                 (if pend = Returned then [NodeTracingShutDown] else []),
                               pend))))))"

section \<open>Lemmas\<close>

subsection \<open>The libraries' calls\<close>

lemma telemetry_result:
  "telemetry_Init env s = Inr n \<Longrightarrow> exporter_error env = None \<and> resource_error env = None"
  "telemetry_Init env s = Inl e \<Longrightarrow> \<not> (exporter_error env = None \<and> resource_error env = None)"
  by (auto simp: telemetry_Init_def split: option.splits)

lemma Connect_ok:
  "Connect env dsn = Inr pool \<longleftrightarrow> open_error env dsn = None \<and> ping_error env dsn = None \<and>
     pool = \<lparr>pool_dsn = dsn, MaxOpenConns = 25, MaxIdleConns = 10\<rparr>"
  by (auto simp: Connect_def split: option.split)

lemma RunMigrations_ok:
  "RunMigrations env path = None \<longleftrightarrow>
     driver_error env = None \<and> migrator_error env path = None \<and> (\<forall>err. up_error env path \<noteq> UpFailed err)"
  by (auto simp: RunMigrations_def split: option.split up_error.split)

lemma startRaft_ok:
  "(\<exists>servers. startRaft env a ps = Inr servers) \<longleftrightarrow> mkdir_error env = None \<and> bolt_error env = None \<and>
     snapshot_error env = None \<and> resolve_error env = None \<and> transport_error env = None \<and> newraft_error env = None"
  by (simp add: startRaft_def split: option.split)

lemma after_serving_returns [simp]:
  "after_serving msg sv = Returned \<longleftrightarrow> sv = Ended None" "after_serving msg sv = Serving \<longleftrightarrow> sv = Serves"
  by (auto simp: after_serving_def log_Fatalf_def split: served.split option.split)

subsection \<open>The join loop\<close>

text \<open>A round in which all URLs parse sends its requests in order until one is accepted.\<close>

lemma join_round_tries:
  assumes "\<forall>p \<in> set ps. url_ok (joinURL p s)"
  shows "join_round url_ok replies s k ps =
    (case List.find (\<lambda>i. accepted (replies (k + i))) [0..<length ps] of
       Some i \<Rightarrow> (Some (JoinedVia (ps ! i)), Suc (k + i))
     | None \<Rightarrow> (None, k + length ps))"
  using assms
proof (induction ps arbitrary: k)
  case (Cons p ps)
  have shift: "List.find P (map Suc xs) = map_option Suc (List.find (\<lambda>i. P (Suc i)) xs)" for P xs
    by (induction xs) auto
  have "[0..<length (p # ps)] = 0 # map Suc [0..<length ps]"
    by (simp add: upt_conv_Cons map_Suc_upt del: upt_Suc)
  with Cons show ?case by (auto simp: shift split: option.split)
qed simp

lemma find_first:
  "List.find P [0..<n] = Some i \<longleftrightarrow> i < n \<and> P i \<and> (\<forall>j < i. \<not> P j)"
  by (auto simp: find_Some_iff)

lemma find_none: "List.find P [0..<n] = None \<longleftrightarrow> (\<forall>i < n. \<not> P i)"
  by (simp add: find_None_iff)

text \<open>After \<open>r\<close> rounds without an accepted request the loop goes on with the next one.\<close>

lemma join_loop_rounds:
  assumes "\<forall>p \<in> set ps. url_ok (joinURL p s)" "\<forall>j < r * length ps. \<not> accepted (replies (k + j))"
  shows "join_loop url_ok replies s k ps = join_loop url_ok replies s (k + r * length ps) ps"
  using assms(2)
proof (induction r)
  case (Suc r)
  have "\<forall>i < length ps. \<not> accepted (replies (k + r * length ps + i))"
    using Suc.prems by (simp add: add.assoc)
  then have "join_round url_ok replies s (k + r * length ps) ps = (None, k + r * length ps + length ps)"
    using join_round_tries [OF assms(1)] by (simp add: find_none [THEN iffD2])
  then have "join_loop url_ok replies s (k + r * length ps) ps = join_loop url_ok replies s (k + Suc r * length ps) ps"
    by (subst join_loop.simps) (simp add: add.commute add.left_commute)
  with Suc show ?case by simp
qed simp

lemma join_loop_accepted:
  assumes "ps \<noteq> []" "\<forall>p \<in> set ps. url_ok (joinURL p s)"
    and "accepted (replies j)" "\<forall>i < j. \<not> accepted (replies i)"
  shows "join_loop url_ok replies s 0 ps = Some (JoinedVia (ps ! (j mod length ps)), Suc j)"
proof -
  let ?n = "length ps" and ?r = "j div length ps"
  have j: "j = ?r * ?n + j mod ?n" "j mod ?n < ?n" using assms(1) by simp_all
  have "join_loop url_ok replies s 0 ps = join_loop url_ok replies s (?r * ?n) ps"
    using join_loop_rounds [OF assms(2), of ?r replies 0] assms(4) j(1) by (metis add_0 le_add1 less_le_trans)
  moreover have "List.find (\<lambda>i. accepted (replies (?r * ?n + i))) [0..<?n] = Some (j mod ?n)"
  proof -
    have "\<not> accepted (replies (?r * ?n + i))" if "i < j mod ?n" for i
      using assms(4) that j(1) by (metis nat_add_left_cancel_less)
    with j assms(3) show ?thesis by (simp only: find_first) simp
  qed
  then have "join_round url_ok replies s (?r * ?n) ps = (Some (JoinedVia (ps ! (j mod ?n))), Suc j)"
    using join_round_tries [OF assms(2)] j(1) by simp
  ultimately show ?thesis by (subst (asm) (2) join_loop.simps) simp
qed

lemma join_loop_silent:
  assumes "\<forall>p \<in> set ps. url_ok (joinURL p s)" "\<forall>i. \<not> accepted (replies i)"
  shows "join_loop url_ok replies s k ps = None"
proof -
  have "\<not> ((\<forall>p \<in> set ps. url_ok (joinURL p s)) \<and> (\<forall>i. \<not> accepted (replies i)))"
    if "join_loop url_ok replies s k ps = Some e" for e
    using that
  proof (rule join_loop.raw_induct [rotated, where P = "\<lambda>url_ok replies s k ps e.
      \<not> ((\<forall>p \<in> set ps. url_ok (joinURL p s)) \<and> (\<forall>i. \<not> accepted (replies i)))"])
    fix jl url_ok and replies :: "nat \<Rightarrow> http_reply" and s k ps and e :: "join_end \<times> nat"
    assume IH: "\<And>url_ok replies s k ps e. jl url_ok replies s k ps = Some e \<Longrightarrow>
        \<not> ((\<forall>p \<in> set ps. url_ok (joinURL p s)) \<and> (\<forall>i. \<not> accepted (replies i)))"
      and round: "(case join_round url_ok replies s k ps of (Some e, k) \<Rightarrow> Some (e, k)
        | (None, k) \<Rightarrow> jl url_ok replies s k ps) = Some e"
    show "\<not> ((\<forall>p \<in> set ps. url_ok (joinURL p s)) \<and> (\<forall>i. \<not> accepted (replies i)))"
    proof
      assume silent: "(\<forall>p \<in> set ps. url_ok (joinURL p s)) \<and> (\<forall>i. \<not> accepted (replies i))"
      then have "join_round url_ok replies s k ps = (None, k + length ps)"
        using join_round_tries [of ps url_ok s replies k] by (simp add: find_none [THEN iffD2])
      with round have "jl url_ok replies s (k + length ps) ps = Some e" by simp
      from IH [OF this] silent show False by blast
    qed
  qed
  with assms show ?thesis by (cases "join_loop url_ok replies s k ps") auto
qed

section \<open>Properties\<close>

text \<open>
  C39: the gateway serves exactly when its tracing is set up, its configuration is accepted, the
  database can be opened and reached, and the migrations are done or there were none to do; it then serves what
  \<open>NewRouter\<close> builds from that configuration, on the configured port, after it has connected and migrated.
  Its deferred clean-up runs only if \<open>ListenAndServe\<close> returns without an error, which its
  documentation excludes.
\<close>

theorem gateway_starts:
  "(ListensOn addr router \<in> set (fst (gateway_main w)) \<longleftrightarrow>
      exporter_error (gw_tracing w) = None \<and> resource_error (gw_tracing w) = None \<and>
      (\<exists>cfg. Load (gw_environ w) = Loaded cfg \<and> open_error (gw_sql w) (cfg_DBDSN cfg) = None \<and>
         ping_error (gw_sql w) (cfg_DBDSN cfg) = None \<and> RunMigrations (gw_migrate w) ''file://./migrations'' = None \<and>
         addr = '':'' @ cfg_GatewayPort cfg \<and> router = NewRouter cfg)) \<and>
    (\<exists>pool a rt. prefix (fst (gateway_main w))
       [ConnectedTo pool, MigratedFrom ''file://./migrations'', ListensOn a rt, DatabaseClosed, TracingShutDown]) \<and>
    (DatabaseClosed \<in> set (fst (gateway_main w)) \<longleftrightarrow>
      (\<exists>a rt. ListensOn a rt \<in> set (fst (gateway_main w)) \<and> gw_listen w a = Ended None))"
proof (cases "telemetry_Init (gw_tracing w) ''atlasstore-gateway''")
  case (Inl e)
  with telemetry_result(2) [OF Inl] show ?thesis by (simp add: gateway_main_def) blast
next
  case t: (Inr n)
  note tracing = telemetry_result(1) [OF t]
  show ?thesis
  proof (cases "Load (gw_environ w)")
    case (Loaded cfg)
    let ?addr = "'':'' @ cfg_GatewayPort cfg"
    show ?thesis
    proof (cases "Connect (gw_sql w) (cfg_DBDSN cfg)")
      case (Inl e)
      then have "\<not> (open_error (gw_sql w) (cfg_DBDSN cfg) = None \<and> ping_error (gw_sql w) (cfg_DBDSN cfg) = None)"
        by (auto simp: Connect_def split: option.splits)
      with Inl Loaded t show ?thesis by (auto simp: gateway_main_def)
    next
      case (Inr pool)
      note conn = Inr [unfolded Connect_ok]
      show ?thesis
      proof (cases "RunMigrations (gw_migrate w) ''file://./migrations''")
        case None
        then have "fst (gateway_main w) = [ConnectedTo pool, MigratedFrom ''file://./migrations'',
            ListensOn ?addr (NewRouter cfg)] @ (if gw_listen w ?addr = Ended None then [DatabaseClosed, TracingShutDown] else [])"
          using Inr Loaded t by (simp add: gateway_main_def Let_def)
        with None Loaded tracing conn show ?thesis by auto
      next
        case (Some e)
        then have "fst (gateway_main w) = [ConnectedTo pool]" using Inr Loaded t by (simp add: gateway_main_def)
        with Some Loaded show ?thesis by auto
      qed
    qed
  qed (use t in \<open>simp_all add: gateway_main_def\<close>)
qed

text \<open>
  The storage node serves exactly when its tracing is set up, its configuration is accepted, raft starts and the
  port can be listened on, whether or not the gateway accepted its registration; it serves the
  configured data directory. The raft API is up much earlier: as soon as the configuration is
  accepted, also when raft cannot be started, and then there is no raft node behind it.
\<close>

theorem storagenode_starts:
  "(ServesGRPC dir \<in> set (fst (storagenode_main w)) \<longleftrightarrow>
      exporter_error (nw_tracing w) = None \<and> resource_error (nw_tracing w) = None \<and>
      (\<exists>cfg. Load (nw_environ w) = Loaded cfg \<and>
         (let s = settings_of (os_Getenv (nw_environ w)) (cfg_StorageNodePort cfg)
          in (\<exists>servers. startRaft (nw_start w) (raftAddr s) (peers s) = Inr servers) \<and>
             nw_listen w (grpcAddr s) = None \<and> dir = dataDir s))) \<and>
    ((\<exists>port secret. RaftAPIOn port secret \<in> set (fst (storagenode_main w))) \<longleftrightarrow>
      exporter_error (nw_tracing w) = None \<and> resource_error (nw_tracing w) = None \<and>
      (\<exists>cfg. Load (nw_environ w) = Loaded cfg))"
proof (cases "telemetry_Init (nw_tracing w) ''atlasstore-storagenode''")
  case (Inl e)
  with telemetry_result(2) [OF Inl] show ?thesis by (simp add: storagenode_main_def) blast
next
  case t: (Inr n)
  note tracing = telemetry_result(1) [OF t]
  show ?thesis
  proof (cases "Load (nw_environ w)")
    case (Loaded cfg)
    let ?s = "settings_of (os_Getenv (nw_environ w)) (cfg_StorageNodePort cfg)"
    from Loaded t tracing show ?thesis
      by (cases "startRaft (nw_start w) (raftAddr ?s) (peers ?s)"; cases "nw_listen w (grpcAddr ?s)")
        (auto simp: storagenode_main_def Let_def)
  qed (use t in \<open>simp_all add: storagenode_main_def\<close>)
qed

text \<open>
  C40: the join loop asks its peers in turn, one request after the other, for as long as it takes. When every
  peer makes a proper URL, it ends with the first request that is accepted, and reports the peer that request was sent
  to; when none ever is, it never ends.
\<close>

theorem join_loop_ends:
  assumes "ps \<noteq> []" "\<forall>p \<in> set ps. url_ok (joinURL p s)"
  shows "join_loop url_ok replies s 0 ps =
    (if \<exists>j. accepted (replies j)
     then let j = LEAST j. accepted (replies j) in Some (JoinedVia (ps ! (j mod length ps)), Suc j)
     else None)"
proof (cases "\<exists>j. accepted (replies j)")
  case True
  let ?j = "LEAST j. accepted (replies j)"
  have "accepted (replies ?j)" using True by (metis LeastI)
  moreover have "\<forall>i < ?j. \<not> accepted (replies i)" using not_less_Least by blast
  ultimately show ?thesis
    unfolding if_P [OF True] Let_def by (rule join_loop_accepted [OF assms])
next
  case False
  with join_loop_silent [OF assms(2)] show ?thesis by simp
qed

text \<open>
  A peer that does not make a proper URL, such as the second one of \<open>RAFT_PEERS="a:1, b:2"\<close>, takes the
  process down: the goroutine panics as soon as its turn comes and no peer before it has accepted.
\<close>

theorem join_loop_panics:
  assumes "i < length ps" "\<not> url_ok (joinURL (ps ! i) s)"
    and "\<forall>j < i. url_ok (joinURL (ps ! j) s) \<and> \<not> accepted (replies (k + j))"
  shows "join_loop url_ok replies s k ps = Some (JoinPanic, k + i)"
proof -
  have "join_round url_ok replies s k ps = (Some JoinPanic, k + i)"
    using assms
  proof (induction ps arbitrary: i k)
    case (Cons p ps)
    show ?case
    proof (cases i)
      case 0
      with Cons.prems show ?thesis by simp
    next
      case (Suc m)
      have "url_ok (joinURL p s)" "\<not> accepted (replies k)" using Cons.prems(3) Suc by force+
      moreover have "join_round url_ok replies s (Suc k) ps = (Some JoinPanic, Suc k + m)"
        by (rule Cons.IH) (use Cons.prems Suc in \<open>auto simp: nth_Cons'\<close>)
      ultimately show ?thesis using Suc by simp
    qed
  qed simp
  then show ?thesis by (subst join_loop.simps) simp
qed

section \<open>Concrete instances\<close>

text \<open>Two peers; the first answer is a refusal, the second an acceptance.\<close>

definition settings_plain :: node_settings where
  "settings_plain = settings_of (\<lambda>k. if k = ''RAFT_PEERS'' then ''a:1, b:2'' else '''') ''9001''"

definition no_blanks :: "string \<Rightarrow> bool" where
  "no_blanks url \<longleftrightarrow> CHR '' '' \<notin> set url"

lemma join_loop_ends_witness:
  "join_loop no_blanks (\<lambda>k. HttpReply (if k = 1 then 200 else 502) None) settings_plain 0 [''a:1'', ''b:2''] =
     Some (JoinedVia ''b:2'', 2)"
proof -
  let ?r = "\<lambda>k :: nat. HttpReply (if k = 1 then 200 else 502) None"
  have least: "(LEAST j. accepted (?r j)) = 1" by (rule Least_equality) (auto split: if_splits)
  have ex: "\<exists>j. accepted (?r j)" by (rule exI [of _ 1]) simp
  have "\<forall>p \<in> set [''a:1'', ''b:2'']. no_blanks (joinURL p settings_plain)"
    by (simp add: no_blanks_def joinURL_def settings_plain_def settings_of_def Let_def)
  from join_loop_ends [OF _ this, of ?r] show ?thesis unfolding if_P [OF ex] least by (simp add: Let_def)
qed

text \<open>A blank after the comma of \<open>RAFT_PEERS\<close>.\<close>

lemma join_loop_panics_witness:
  "peers settings_plain = [''a:1'', '' b:2''] \<and>
   join_loop no_blanks (\<lambda>k. HttpReply 502 None) settings_plain 0 (peers settings_plain) = Some (JoinPanic, 1)"
proof -
  have p: "peers settings_plain = [''a:1'', '' b:2'']" by (simp add: settings_plain_def settings_of_def Let_def)
  have "join_loop no_blanks (\<lambda>k. HttpReply 502 None) settings_plain 0 (peers settings_plain) = Some (JoinPanic, 0 + 1)"
    by (rule join_loop_panics)
      (simp_all add: p no_blanks_def joinURL_def, simp_all add: settings_plain_def settings_of_def Let_def)
  with p show ?thesis by simp
qed

end
