(* ===== verification/LoadTest.thy ===== *)
theory LoadTest imports Multipart Router begin

text \<open>
  The load test (\<open>scripts/loadtest.go\<close>) against the gateway: how it gets a token, and its workers, which
  upload small objects in parts at the same time and count. The gateway is the model of
  \<open>Router\<close>, the network between them loses requests and answers. The file shows that every upload that the
  test counts as a success is an object of its user, whatever is interleaved, and that the workers end.
\<close>

section \<open>Requests\<close>

text \<open>
  A request of the client: it is lost, or served and its answer is lost, or the answer arrives. A handler
  that panics drops the connection, and the client does not wait for one that never ends.
\<close>

definition client_Do ::
  "app \<Rightarrow> serve_env \<Rightarrow> fault \<Rightarrow> string list \<Rightarrow> request \<Rightarrow> gateway \<Rightarrow> http_response option \<times> gateway" where
  "client_Do app env flt path r gw =
     (if flt = DropRequest then (None, gw)
      else case serve_request env app ''POST'' path r gw of
             None \<Rightarrow> (None, gw)
           | Some (Panicked, gw) \<Rightarrow> (None, gw)
           | Some (Response w, gw) \<Rightarrow> (if flt = DropReply then None else Some w, gw))"

definition load_request :: "(string \<rightharpoonup> string) \<Rightarrow> bytes \<Rightarrow> json_text \<Rightarrow> request" where
  "load_request hs b j = \<lparr>userID = '''', pathValue = (\<lambda>_. ''''), reqHeader = map_get '''' hs, reqBody = b, reqEnd = EndEOF,
     reqJson = j, clientGone = None\<rparr>"

text \<open>\<open>Decode\<close> with its error ignored, into a struct with one field: what was stored before the error stays.\<close>

definition decoded_field :: "string \<Rightarrow> http_response \<Rightarrow> string" where
  "decoded_field f w =
     (case body w of
        Json (JObj ms) # _ \<Rightarrow> map_get '''' (fst (fold (decode_field [f]) ms (Map.empty, True))) f
      | _ \<Rightarrow> '''')"

section \<open>Getting a token\<close>

datatype setup_end = GatewayDown | NilResponse | NoToken | Authenticated string

text \<open>
  The error of the second \<open>http.Post\<close> is ignored, and its response is used: a login that gets no
  answer is a nil pointer.
\<close>

definition load_setup ::
  "app \<Rightarrow> serve_env \<times> fault \<Rightarrow> serve_env \<times> fault \<Rightarrow> nat \<Rightarrow> gateway \<Rightarrow> setup_end \<times> gateway" where
  "load_setup app e1 e2 unix gw =
     (let email = ''loadtest_'' @ dec unix @ ''@test.com'';
          b = load_request [''Content-Type'' \<mapsto> ''application/json''] []
            (Some (JObj [(''email'', JStr email), (''password'', JStr ''password'')]));
          finish = (\<lambda>w. let token = decoded_field ''Token'' w in if token = '''' then NoToken else Authenticated token)
      in case client_Do app (fst e1) (snd e1) [''auth'', ''register''] b gw of
           (None, gw) \<Rightarrow> (GatewayDown, gw)
         | (Some resp, gw) \<Rightarrow>
             if 400 \<le> status_code resp then
               (case client_Do app (fst e2) (snd e2) [''auth'', ''login''] b gw of
                  (None, gw) \<Rightarrow> (NilResponse, gw)
                | (Some resp, gw) \<Rightarrow> (finish resp, gw))
             else (finish resp, gw))"

section \<open>A worker\<close>

text \<open>Where a worker is: at the head of its loop, or before one of its three requests.\<close>

datatype worker = AtTop | AtInit | AtPart string | AtComplete string | Finished

definition bearer :: "string \<Rightarrow> string \<rightharpoonup> string" where
  "bearer token = [''Authorization'' \<mapsto> ''Bearer '' @ token]"

definition init_request :: "string \<Rightarrow> request" where
  "init_request token = load_request ((bearer token)(''Content-Type'' \<mapsto> ''application/json'')) []
     (Some (JObj [(''filename'', JStr ''load.txt''), (''content_type'', JStr ''text/plain'')]))"

definition part_request :: "string \<Rightarrow> request" where
  "part_request token = load_request (bearer token) (str_bytes ''load test chunk data'') None"

definition complete_request :: "string \<Rightarrow> request" where
  "complete_request token = load_request (bearer token) [] None"

definition failed :: "http_response option \<Rightarrow> bool" where
  "failed res \<longleftrightarrow> (case res of None \<Rightarrow> True | Some w \<Rightarrow> 400 \<le> status_code w)"

record counters =
  totalRequests :: int
  totalErrors :: int

definition count_error :: "counters \<Rightarrow> counters" where
  "count_error n = n\<lparr>totalErrors := totalErrors n + 1\<rparr>"

text \<open>One step of a worker; \<open>running\<close> says whether the duration of the test is not over.\<close>

fun worker_step ::
  "app \<Rightarrow> string \<Rightarrow> bool \<Rightarrow> serve_env \<Rightarrow> fault \<Rightarrow> worker \<times> counters \<times> gateway \<Rightarrow> worker \<times> counters \<times> gateway" where
  "worker_step app token running env flt (AtTop, n, gw) =
     (if running then (AtInit, n\<lparr>totalRequests := totalRequests n + 1\<rparr>, gw) else (Finished, n, gw))"
| "worker_step app token running env flt (AtInit, n, gw) =
     (let (res, gw) = client_Do app env flt [''multipart''] (init_request token) gw
      in case res of
           None \<Rightarrow> (AtTop, count_error n, gw)
         | Some w \<Rightarrow> if failed res then (AtTop, count_error n, gw) else (AtPart (decoded_field ''upload_id'' w), n, gw))"
| "worker_step app token running env flt (AtPart uploadID, n, gw) =
     (let (res, gw) = client_Do app env flt [''multipart'', uploadID, ''0''] (part_request token) gw
      in if failed res then (AtTop, count_error n, gw) else (AtComplete uploadID, n, gw))"
| "worker_step app token running env flt (AtComplete uploadID, n, gw) =
     (let (res, gw) = client_Do app env flt [''multipart'', uploadID, ''complete''] (complete_request token) gw
      in (AtTop, if failed res then count_error n else n, gw))"
| "worker_step app token running env flt (Finished, n, gw) = (Finished, n, gw)"

section \<open>A run\<close>

record load_run =
  workers :: "worker list"
  counts :: counters
  served_by :: gateway
  elapsed :: nat

definition load_start :: "nat \<Rightarrow> gateway \<Rightarrow> load_run" where
  "load_start concurrency gw = \<lparr>workers = replicate concurrency AtTop, counts = \<lparr>totalRequests = 0, totalErrors = 0\<rparr>,
     served_by = gw, elapsed = 0\<rparr>"

definition duration :: nat where
  "duration = 15 * 1000000000"

definition owned :: "uuid \<Rightarrow> database \<Rightarrow> nat" where
  "owned uid db = length (filter (\<lambda>x. obj_UserID x = uid) (objects db))"

text \<open>
  What is assumed of a request's surroundings: generated identifiers are UUIDs, the token is one of the user,
  and the file server has no page for the paths of the test.
\<close>

definition token_of :: "app \<Rightarrow> string \<Rightarrow> uuid \<Rightarrow> serve_env \<Rightarrow> bool" where
  "token_of app token uid env \<longleftrightarrow> uuids_ok (db_of (services env)) \<and>
     (\<forall>r. 400 \<le> status_code (static_page env r)) \<and>
     (\<forall>cl. jwt_Parse (jwt_of (accounts env)) (parse_clock env) (key_func (JWTSecret (authHandler app))) token = Inr (True, cl) \<longrightarrow>
        uuid_in (db_of (services env)) (claim_string (cl ''sub'')) = Some uid)"

text \<open>
  The workers take their steps in any order, time passes, and the rest of the system does
  anything that does not remove objects of the test's user.
\<close>

inductive load_step :: "app \<Rightarrow> string \<Rightarrow> uuid \<Rightarrow> load_run \<Rightarrow> load_run \<Rightarrow> bool" for app token uid where
  work: "i < length (workers s) \<Longrightarrow> token_of app token uid env \<Longrightarrow>
    worker_step app token (elapsed s < duration) env flt (workers s ! i, counts s, served_by s) = (w, n, gw) \<Longrightarrow>
    load_step app token uid s (s\<lparr>workers := (workers s)[i := w], counts := n, served_by := gw\<rparr>)"
| pass: "load_step app token uid s (s\<lparr>elapsed := elapsed s + t\<rparr>)"
| other: "db_inv (database_of_gw gw) \<Longrightarrow> owned uid (database_of_gw (served_by s)) \<le> owned uid (database_of_gw gw) \<Longrightarrow>
    load_step app token uid s (s\<lparr>served_by := gw\<rparr>)"

section \<open>Lemmas\<close>

subsection \<open>The objects of the user\<close>

lemma owned_frame [simp]:
  "owned uid (db\<lparr>stmt_no := k\<rparr>) = owned uid db"
  "owned uid (db\<lparr>chunks := cs\<rparr>) = owned uid db"
  "owned uid (db\<lparr>chunk_locations := ls\<rparr>) = owned uid db"
  "owned uid (db\<lparr>multipart_uploads := mus\<rparr>) = owned uid db"
  "owned uid (db\<lparr>multipart_chunks := mcs\<rparr>) = owned uid db"
  "owned uid (db\<lparr>multipart_chunk_locations := mls\<rparr>) = owned uid db"
  by (simp_all add: owned_def)

lemma owned_tables: "tenant_view uid db' = tenant_view uid db \<Longrightarrow> owned uid db' = owned uid db"
  by (drule arg_cong [of _ _ length]) (simp add: view_def owned_def)

text \<open>No query of an upload takes an object away.\<close>

interpretation grow: table_invariant "\<lambda>db. k \<le> owned uid db" "\<lambda>_ _. True" for k uid
proof
  show "on_tables (\<lambda>db. k \<le> owned uid db)" by (simp add: on_tables_def)
  show "keeps (\<lambda>db. k \<le> owned uid db) (insert_object env u n c s)" for env u n c s
    by (auto simp: keeps_def insert_object_def Let_def owned_def split: option.splits if_splits)
qed (auto simp: keeps_def insert_chunk_def insert_location_def insert_mp_chunk_def insert_mp_location_def
    move_chunks_def delete_upload_def Let_def split: option.splits if_splits)

lemmas owned_complete = grow.CompleteMultipartUpload_kept [OF order_refl]

subsection \<open>The requests of a worker\<close>

lemma load_routes:
  "fst (route ''POST'' [''multipart'']) = MultiInit"
  "uploadID \<noteq> '''' \<Longrightarrow> fst (route ''POST'' [''multipart'', uploadID, ''0'']) = MultiPart"
  "uploadID \<noteq> '''' \<Longrightarrow> fst (route ''POST'' [''multipart'', uploadID, ''complete'']) = MultiComplete"
  "fst (route ''POST'' [''multipart'', '''', x]) = FileServer"
  by (simp_all add: route_def routes_def matches_def method_matches_def at_least_as_specific_def)

text \<open>A request with the user's token is refused, or handled as the user's.\<close>

lemma protected_token:
  assumes "protected env app (answer h) r gw = Some (out, gw')" "reqHeader r ''Authorization'' = ''Bearer '' @ token"
    and "token_of app token uid env"
  shows "\<exists>w. out = Response w \<and> (400 \<le> status_code w \<and> gw' = gw \<or>
    (\<exists>u. uuid_in (db_of (services env)) u = Some uid \<and> h (r\<lparr>userID := u\<rparr>) gw = (w, gw')))"
proof (cases "RequireAuth (jwt_of (accounts env)) (JWTSecret (authHandler app)) (parse_clock env) r")
  case (Inl w)
  then have "400 \<le> status_code w"
    by (auto simp: RequireAuth_def Let_def new_response_def split: if_splits sum.splits prod.splits)
  with Inl assms(1) show ?thesis by (auto simp: protected_def)
next
  case (Inr r')
  have "SplitN_2 (CHR '' '') (''Bearer '' @ token) ! 1 = token"
    using SplitN_2_Bearer [of "''Bearer '' @ token" token] by simp
  with Inr assms(2) obtain cl where
    "jwt_Parse (jwt_of (accounts env)) (parse_clock env) (key_func (JWTSecret (authHandler app))) token = Inr (True, cl)"
    "r' = r\<lparr>userID := claim_string (cl ''sub'')\<rparr>"
    by (auto simp: RequireAuth_def Let_def split: if_splits sum.splits prod.splits)
  moreover from this(1) assms(3) have "uuid_in (db_of (services env)) (claim_string (cl ''sub'')) = Some uid"
    by (simp add: token_of_def)
  ultimately show ?thesis
    using Inr assms(1) by (auto simp: protected_def answer_def split: prod.splits)
qed

lemma client_Do_cases:
  assumes "client_Do app env flt path r gw = (res, gw')"
  shows "res = None \<and> gw' = gw \<or>
    (\<exists>out. serve_request env app ''POST'' path r gw = Some (out, gw') \<and> (\<forall>w. res = Some w \<longrightarrow> out = Response w))"
  using assms by (auto simp: client_Do_def split: if_splits option.splits outcome.splits prod.splits)

text \<open>What every request of a worker keeps, and what a successful last one adds.\<close>

lemma request_kept:
  assumes "client_Do app env flt path r gw = (res, gw')" "token_of app token uid env"
    and "reqHeader r ''Authorization'' = ''Bearer '' @ token" "db_inv (database_of_gw gw)"
    and path: "fst (route ''POST'' path) \<in> {MultiInit, MultiPart, MultiComplete, FileServer}"
  shows "db_inv (database_of_gw gw') \<and> owned uid (database_of_gw gw) \<le> owned uid (database_of_gw gw')"
  using client_Do_cases [OF assms(1)]
proof
  assume "\<exists>out. serve_request env app ''POST'' path r gw = Some (out, gw') \<and> (\<forall>w. res = Some w \<longrightarrow> out = Response w)"
  then obtain out where served: "serve_request env app ''POST'' path r gw = Some (out, gw')" by blast
  let ?K = "\<lambda>h. \<forall>r. db_inv (database_of_gw (snd (h r gw))) \<and>
    owned uid (database_of_gw gw) \<le> owned uid (database_of_gw (snd (h r gw)))"
  let ?r = "r\<lparr>pathValue := snd (route ''POST'' path)\<rparr>"
  have kept: ?thesis if "protected env app (answer h) ?r gw = Some (out, gw')" "?K h" for h
    using protected_token [OF that(1) _ assms(2)] assms(3,4) that(2) by (auto dest: sndI)
  have "?K (InitMultipart (services env))"
    using owned_tables [OF handlers_see(3)] inv_CreateMultipartUpload [OF assms(4)]
    by (simp add: InitMultipart_def Let_def split_beta assms(4) split: sum.split option.split)
  moreover have "?K (UploadPart (services env) sched rg rand h)" for sched rg rand h
    using owned_tables [OF handlers_see(4)] inv_CreateMultipartChunk [OF assms(4)]
    by (auto simp: UploadPart_def Let_def split_beta assms(4) split: sum.split)
  moreover have "?K (CompleteMultipart (services env))"
    using owned_complete inv_CompleteMultipartUpload [OF assms(4)]
    by (auto simp: CompleteMultipart_def Let_def split_beta split: sum.split)
  ultimately show ?thesis
    using path served kept assms(4) by (auto simp: serve_request_def Let_def split_beta)
qed (use assms(4) in simp)

lemma complete_counts:
  assumes "client_Do app env flt [''multipart'', uploadID, ''complete''] r gw = (res, gw')" "token_of app token uid env"
    and "reqHeader r ''Authorization'' = ''Bearer '' @ token" "db_inv (database_of_gw gw)" "\<not> failed res"
  shows "owned uid (database_of_gw gw) < owned uid (database_of_gw gw')"
proof -
  let ?path = "[''multipart'', uploadID, ''complete'']"
  obtain w where res: "res = Some w" "status_code w < 400"
    using assms(5) by (cases res) (auto simp: failed_def)
  with client_Do_cases [OF assms(1)] have served: "serve_request env app ''POST'' ?path r gw = Some (Response w, gw')" by auto
  have "\<not> status_code (static_page env r) < 400" for r using assms(2) by (simp add: token_of_def not_less)
  then have id: "uploadID \<noteq> ''''"
    using served res(2) load_routes(4) by (auto simp: serve_request_def Let_def split_beta)
  let ?r = "r\<lparr>pathValue := snd (route ''POST'' ?path)\<rparr>"
  have "protected env app (answer (CompleteMultipart (services env))) ?r gw = Some (Response w, gw')"
    using served by (simp add: serve_request_def load_routes(3) [OF id] Let_def split_beta)
  from protected_token [OF this _ assms(2)] assms(3) res(2) obtain u
    where u: "uuid_in (db_of (services env)) u = Some uid"
      "CompleteMultipart (services env) (?r\<lparr>userID := u\<rparr>) gw = (w, gw')" by auto
  have "status (new_response x) = None" "status_code (new_response x) = 200" for x
    by (simp_all add: new_response_def status_code_def)
  then have "status_code w = 200"
    using u(2) res(2) by (auto simp: CompleteMultipart_def Let_def split: prod.splits sum.splits)
  from CompleteMultipart_200 [OF u(2) this] obtain oid where
    "CompleteMultipartUpload (db_of (services env)) (pathValue ?r ''upload_id'') u (database_of_gw gw)
      = (Inr oid, database_of_gw gw')" by auto
  from complete_moves [OF assms(4) _ this] assms(2) u(1) show ?thesis
    by (auto simp: token_of_def owned_def)
qed

subsection \<open>Counting\<close>

definition busy :: "worker \<Rightarrow> nat" where
  "busy w = (if w = AtTop \<or> w = Finished then 0 else 1)"

definition in_flight :: "worker list \<Rightarrow> nat" where
  "in_flight ws = sum_list (map busy ws)"

lemma in_flight_update:
  "i < length ws \<Longrightarrow> in_flight (ws[i := w]) + busy (ws ! i) = in_flight ws + busy w"
  by (induction ws arbitrary: i) (auto simp: in_flight_def split: nat.split)

text \<open>The uploads that count as successes.\<close>

definition successes :: "counters \<Rightarrow> nat \<Rightarrow> int" where
  "successes n k = totalRequests n - totalErrors n - int k"

lemma worker_step_counts:
  assumes "worker_step app token running env flt (w, n, gw) = (w', n', gw')" "token_of app token uid env"
    and "db_inv (database_of_gw gw)"
  shows "db_inv (database_of_gw gw') \<and> owned uid (database_of_gw gw) \<le> owned uid (database_of_gw gw') \<and>
    successes n (busy w) \<le> successes n' (busy w') \<and>
    successes n' (busy w') - successes n (busy w) \<le> int (owned uid (database_of_gw gw')) - int (owned uid (database_of_gw gw)) \<and>
    totalErrors n \<le> totalErrors n'"
proof -
  have auth: "reqHeader (init_request token) ''Authorization'' = ''Bearer '' @ token"
    "reqHeader (part_request token) ''Authorization'' = ''Bearer '' @ token"
    "reqHeader (complete_request token) ''Authorization'' = ''Bearer '' @ token"
    by (simp_all add: init_request_def part_request_def complete_request_def load_request_def bearer_def)
  have part: "fst (route ''POST'' [''multipart'', u, ''0'']) \<in> {MultiInit, MultiPart, MultiComplete, FileServer}" for u
    using load_routes by (cases "u = ''''") auto
  have complete: "fst (route ''POST'' [''multipart'', u, ''complete'']) \<in> {MultiInit, MultiPart, MultiComplete, FileServer}" for u
    using load_routes by (cases "u = ''''") auto
  note kept = request_kept [OF _ assms(2) _ assms(3)]
  show ?thesis
  proof (cases w)
    case AtInit
    obtain res gw1 where d: "client_Do app env flt [''multipart''] (init_request token) gw = (res, gw1)" by fastforce
    from kept [OF d auth(1)] AtInit assms(1) d show ?thesis
      by (auto simp: load_routes(1) successes_def busy_def count_error_def failed_def split: option.splits if_splits)
  next
    case (AtPart u)
    obtain res gw1 where d: "client_Do app env flt [''multipart'', u, ''0''] (part_request token) gw = (res, gw1)" by fastforce
    from kept [OF d auth(2) part] AtPart assms(1) d show ?thesis
      by (auto simp: successes_def busy_def count_error_def split: if_splits)
  next
    case (AtComplete u)
    obtain res gw1 where d: "client_Do app env flt [''multipart'', u, ''complete''] (complete_request token) gw = (res, gw1)"
      by fastforce
    from kept [OF d auth(3) complete] complete_counts [OF d assms(2) auth(3) assms(3)] AtComplete assms(1) d show ?thesis
      by (auto simp: successes_def busy_def count_error_def split: if_splits)
  qed (use assms in \<open>auto simp: successes_def busy_def split: if_splits\<close>)
qed

definition load_inv :: "uuid \<Rightarrow> nat \<Rightarrow> load_run \<Rightarrow> bool" where
  "load_inv uid k s \<longleftrightarrow> db_inv (database_of_gw (served_by s)) \<and> 0 \<le> totalErrors (counts s) \<and>
     0 \<le> successes (counts s) (in_flight (workers s)) \<and>
     int k + successes (counts s) (in_flight (workers s)) \<le> int (owned uid (database_of_gw (served_by s)))"

interpretation test: state_machine
    "\<lambda>s. \<exists>c gw. s = load_start c gw \<and> db_inv (database_of_gw gw) \<and> owned uid (database_of_gw gw) = k"
    "load_step app token uid" "load_inv uid k" for app token uid k
proof
  fix s assume "\<exists>c gw. s = load_start c gw \<and> db_inv (database_of_gw gw) \<and> owned uid (database_of_gw gw) = k"
  then show "load_inv uid k s"
    by (auto simp: load_start_def load_inv_def successes_def in_flight_def busy_def)
next
  fix s s' assume "load_step app token uid s s'" and inv: "load_inv uid k s"
  from this(1) show "load_inv uid k s'"
  proof cases
    case (work i env flt w n gw)
    note W = worker_step_counts [OF work(4) work(3)]
    have "int (in_flight ((workers s)[i := w])) = int (in_flight (workers s)) + int (busy w) - int (busy (workers s ! i))"
      using in_flight_update [OF work(2), of w] by linarith
    with W inv work(1) show ?thesis by (auto simp: load_inv_def successes_def)
  qed (use inv in \<open>auto simp: load_inv_def\<close>)
qed

subsection \<open>The end\<close>

fun steps_left :: "worker \<Rightarrow> nat" where
  "steps_left AtInit = 4"
| "steps_left (AtPart u) = 3"
| "steps_left (AtComplete u) = 2"
| "steps_left AtTop = 1"
| "steps_left Finished = 0"

lemma steps_decrease:
  "worker_step app token False env flt (w, n, gw) = (w', n', gw') \<Longrightarrow> steps_left w' \<le> steps_left w - 1"
  by (cases w) (auto simp: Let_def split: prod.splits option.splits if_splits)

section \<open>Properties\<close>

text \<open>
  C11: the load test does not count what did not happen. Whatever the workers' requests are interleaved with, and
  whichever of their requests and answers are lost, as long as nothing else removes objects of the test's user, the
  uploads it counts without an error, apart from those it is still making, are never more than
  the objects that have been added to that user's; errors are never more than requests.
\<close>

theorem load_test_sound:
  assumes "(load_step app token uid)\<^sup>*\<^sup>* (load_start c gw) s" "db_inv (database_of_gw gw)"
  shows "0 \<le> totalErrors (counts s) \<and>
    totalErrors (counts s) + int (in_flight (workers s)) \<le> totalRequests (counts s) \<and>
    totalRequests (counts s) - totalErrors (counts s) - int (in_flight (workers s)) \<le>
      int (owned uid (database_of_gw (served_by s))) - int (owned uid (database_of_gw gw))"
proof -
  have "load_inv uid (owned uid (database_of_gw gw)) s"
    by (rule test.reachable_inv [OF _ assms(1)]) (use assms(2) in blast)
  then show ?thesis by (simp add: load_inv_def successes_def)
qed

text \<open>
  The workers end. Once the duration of the test is over, a worker that has taken four more steps, whatever
  becomes of its requests and whatever else happens to the gateway in between, has left its loop.
\<close>

fun last_steps :: "app \<Rightarrow> string \<Rightarrow> (serve_env \<times> fault \<times> (gateway \<Rightarrow> gateway)) list \<Rightarrow> worker \<times> counters \<times> gateway \<Rightarrow>
    worker \<times> counters \<times> gateway" where
  "last_steps app token [] s = s"
| "last_steps app token ((env, flt, other) # es) (w, n, gw) =
     last_steps app token es (worker_step app token False env flt (w, n, other gw))"

lemma last_steps_decrease: "steps_left (fst (last_steps app token es (w, n, gw))) \<le> steps_left w - length es"
proof (induction es arbitrary: w n gw)
  case (Cons e es)
  obtain env flt other where e: "e = (env, flt, other)" by (metis prod_cases3)
  obtain w' n' gw' where s: "worker_step app token False env flt (w, n, other gw) = (w', n', gw')"
    by (metis prod_cases3)
  from Cons.IH [of w' n' gw'] steps_decrease [OF s] show ?case by (simp add: e s)
qed simp

theorem load_test_ends:
  assumes "4 \<le> length es"
  shows "fst (last_steps app token es (w, n, gw)) = Finished"
proof -
  let ?w = "fst (last_steps app token es (w, n, gw))"
  have "steps_left w \<le> 4" by (cases w) simp_all
  with last_steps_decrease [of app token es w n gw] assms have "steps_left ?w = 0" by linarith
  then show ?thesis by (cases ?w) simp_all
qed

section \<open>Concrete instances\<close>

text \<open>One worker, whose first upload succeeds.\<close>

definition app_load :: app where
  "app_load = app_plain\<lparr>objectHandler := handler1\<rparr>"

definition serve_load :: serve_env where
  "serve_load = serve_plain\<lparr>part_ring := ring1, part_rand := replicate 12 7,
     static_page := (\<lambda>r. http_Error ''404 page not found'' 404 (new_response None))\<rparr>"

definition load_data :: bytes where
  "load_data = str_bytes ''load test chunk data''"

definition load_db :: "nat \<Rightarrow> database" where
  "load_db k = fold (db_run db_ok) (take k [CallCreateUser ''e'' ''p'', CallCreateMultipartUpload '''' ''load.txt'' ''text/plain'',
     CallCreateMultipartChunk ''u'' 0 (sha256hex load_data) (int (length load_data)) [''n1''],
     CallCompleteMultipartUpload ''u'' '''']) empty_db"

lemma load_db_steps:
  "database_of_gw gw3 = load_db 1"
  "CreateMultipartUpload db_ok '''' ''load.txt'' ''text/plain'' (load_db 1) = (Inr ''u'', load_db 2)"
  "CreateMultipartChunk db_ok ''u'' 0 (sha256hex load_data) (int (length load_data)) [''n1''] (load_db 2) = (Inr (), load_db 3)"
  by (simp_all add: load_db_def gw3_def db_eval)

lemma load_db_complete: "\<exists>oid. CompleteMultipartUpload db_ok ''u'' '''' (load_db 3) = (Inr oid, load_db 4)"
  by (simp add: CompleteMultipartUpload_def select_upload_def select_sum_def chunks_of_upload_def
      move_chunks_def delete_upload_def load_db_def db_eval load_data_def str_bytes_def)

lemma serve_load_simps:
  "services serve_load = env_ok" "call_sched serve_load = []" "part_ring serve_load = ring1"
  "part_rand serve_load = replicate 12 7" "objectHandler app_load = handler1"
  by (simp_all add: serve_load_def serve_plain_def app_load_def)

lemma load_auth:
  assumes "reqHeader r ''Authorization'' = ''Bearer k''"
  shows "RequireAuth (jwt_of (accounts serve_load)) (JWTSecret (authHandler app_load)) (parse_clock serve_load) r =
    Inr (r\<lparr>userID := ''''\<rparr>)"
  using assms by (simp add: RequireAuth_def SplitN_2_def jwt_plain_def key_func_def serve_load_def serve_plain_def
      app_load_def app_plain_def auth_plain_def auth_plain_handler_def)

lemma load_token: "token_of app_load ''k'' '''' serve_load"
  by (simp add: token_of_def serve_load_simps env3_simps)
    (simp add: jwt_plain_def key_func_def serve_load_def serve_plain_def new_response_def
      app_load_def app_plain_def auth_plain_def auth_plain_handler_def)

lemma load_paths:
  "route ''POST'' [''multipart''] = (MultiInit, map_get '''' Map.empty)"
  "route ''POST'' [''multipart'', ''u'', ''0''] = (MultiPart, map_get '''' [''part_number'' \<mapsto> ''0'', ''upload_id'' \<mapsto> ''u''])"
  "route ''POST'' [''multipart'', ''u'', ''complete''] = (MultiComplete, map_get '''' [''upload_id'' \<mapsto> ''u''])"
  by (simp_all add: route_def routes_def matches_def method_matches_def at_least_as_specific_def)

lemma written [simp]:
  "status_code (write_json j (set_header k v (new_response None))) = 200"
  "body (write_json j (set_header k v (new_response None))) = [Json j]"
  by (simp_all add: write_json_def response_Write_def WriteHeader_def set_header_def new_response_def status_code_def Let_def)

lemma load_init:
  "worker_step app_load ''k'' True serve_load Deliver (AtInit, n, \<lparr>cluster_of_gw = c, database_of_gw = load_db 1\<rparr>) =
     (AtPart ''u'', n, \<lparr>cluster_of_gw = c, database_of_gw = load_db 2\<rparr>)"
proof -
  let ?r = "(init_request ''k'')\<lparr>pathValue := map_get '''' Map.empty\<rparr>"
  have a: "RequireAuth (jwt_of (accounts serve_load)) (JWTSecret (authHandler app_load)) (parse_clock serve_load) ?r =
      Inr (?r\<lparr>userID := ''''\<rparr>)"
    by (rule load_auth) (simp_all add: init_request_def load_request_def bearer_def)
  have d: "decode_struct [''filename'', ''content_type''] (reqJson (init_request ''k'')) =
      Some [''filename'' \<mapsto> ''load.txt'', ''content_type'' \<mapsto> ''text/plain'']"
    by (simp add: init_request_def load_request_def decode_struct_def fold_name.simps lower_def code_def Let_def)
  have id: "userID (init_request ''k'') = ''''" "clientGone (init_request ''k'') = None"
    by (simp_all add: init_request_def load_request_def)
  have g: "json_string ''u'' = JStr ''u''" by (simp add: json_string_def to_valid_utf8_ascii ascii_def code_def)
  show ?thesis
    using load_db_steps(2)
    by (simp add: client_Do_def serve_request_def load_paths serve_load_simps protected_def a answer_def
        InitMultipart_def d env3_simps Let_def decoded_field_def id g failed_def)
qed

lemma load_part:
  assumes "cluster_calm c {''n1''}"
  shows "\<exists>c'. worker_step app_load ''k'' True serve_load Deliver
      (AtPart ''u'', n, \<lparr>cluster_of_gw = c, database_of_gw = load_db 2\<rparr>) =
    (AtComplete ''u'', n, \<lparr>cluster_of_gw = c', database_of_gw = load_db 3\<rparr>)"
proof -
  let ?r = "(part_request ''k'')\<lparr>pathValue := map_get '''' [''part_number'' \<mapsto> ''0'', ''upload_id'' \<mapsto> ''u'']\<rparr>"
  let ?q = "?r\<lparr>userID := ''''\<rparr>"
  have a: "RequireAuth (jwt_of (accounts serve_load)) (JWTSecret (authHandler app_load)) (parse_clock serve_load) ?r = Inr ?q"
    by (rule load_auth) (simp add: part_request_def load_request_def bearer_def)
  have l: "length load_data = 20" by (simp add: load_data_def str_bytes_def)
  have q: "reqBody ?q = load_data" "reqEnd ?q = EndEOF" "pathValue ?q ''upload_id'' = ''u''"
    by (simp_all add: part_request_def load_request_def load_data_def)
  have "Sscanf_d ''0'' = 0" by (simp add: Sscanf_d_def digits_value_def is_digit_def code_def)
  with l have p: "part_of handler1 ?q = (0, load_data)"
    by (simp add: part_of_def q part_request_def load_request_def handler1_simps ReadAll_limited_def
        flip: load_data_def)
  have "\<exists>w c'. UploadPart env_ok [] ring1 (replicate 12 7) handler1 ?q \<lparr>cluster_of_gw = c, database_of_gw = load_db 2\<rparr> =
      (w, \<lparr>cluster_of_gw = c', database_of_gw = load_db 3\<rparr>) \<and> status_code w = 200 \<and> cluster_calm c' {''n1''} \<and>
      dom (storage_nodes c') = dom (storage_nodes c)"
    by (rule UploadPart_one [OF p]) (use l q assms load_db_steps(3) in auto)
  then show ?thesis
    by (auto simp: client_Do_def serve_request_def load_paths serve_load_simps protected_def a answer_def failed_def Let_def)
qed

lemma load_complete:
  "worker_step app_load ''k'' True serve_load Deliver
      (AtComplete ''u'', n, \<lparr>cluster_of_gw = c, database_of_gw = load_db 3\<rparr>) =
    (AtTop, n, \<lparr>cluster_of_gw = c, database_of_gw = load_db 4\<rparr>)"
proof -
  let ?r = "(complete_request ''k'')\<lparr>pathValue := map_get '''' [''upload_id'' \<mapsto> ''u'']\<rparr>"
  have a: "RequireAuth (jwt_of (accounts serve_load)) (JWTSecret (authHandler app_load)) (parse_clock serve_load) ?r =
      Inr (?r\<lparr>userID := ''''\<rparr>)"
    by (rule load_auth) (simp add: complete_request_def load_request_def bearer_def)
  have id: "clientGone (complete_request ''k'') = None" by (simp add: complete_request_def load_request_def)
  show ?thesis
    using load_db_complete
    by (auto simp: client_Do_def serve_request_def load_paths serve_load_simps protected_def a answer_def
        CompleteMultipart_def env3_simps Let_def failed_def id)
qed

lemma load_test_sound_witness:
  "\<exists>s. (load_step app_load ''k'' '''')\<^sup>*\<^sup>* (load_start 1 gw3) s \<and> totalRequests (counts s) = 1 \<and>
     totalErrors (counts s) = 0 \<and> workers s = [AtTop] \<and>
     owned '''' (database_of_gw gw3) < owned '''' (database_of_gw (served_by s))"
proof -
  let ?c = "cluster_of_gw gw3" and ?n = "\<lparr>totalRequests = 1, totalErrors = 0\<rparr>"
  let ?s = "\<lambda>w n c k. \<lparr>workers = [w], counts = n, served_by = \<lparr>cluster_of_gw = c, database_of_gw = load_db k\<rparr>, elapsed = 0\<rparr>"
  have calm: "cluster_calm ?c {''n1''}" using net_live_three(2) by (simp add: cluster_calm_def)
  obtain c where part: "worker_step app_load ''k'' True serve_load Deliver
      (AtPart ''u'', ?n, \<lparr>cluster_of_gw = ?c, database_of_gw = load_db 2\<rparr>) =
    (AtComplete ''u'', ?n, \<lparr>cluster_of_gw = c, database_of_gw = load_db 3\<rparr>)" using load_part [OF calm] by blast
  have step: "load_step app_load ''k'' '''' (?s w n c k) (?s w' n' c' k')"
    if "worker_step app_load ''k'' True serve_load Deliver (w, n, \<lparr>cluster_of_gw = c, database_of_gw = load_db k\<rparr>) =
      (w', n', \<lparr>cluster_of_gw = c', database_of_gw = load_db k'\<rparr>)" for w n c k w' n' c' k'
    using load_step.work [of 0 "?s w n c k", OF _ load_token] that by (simp add: duration_def)
  have start: "load_start 1 gw3 = ?s AtTop \<lparr>totalRequests = 0, totalErrors = 0\<rparr> ?c 1"
    using load_db_steps(1) by (simp add: load_start_def)
  have "load_step app_load ''k'' '''' (load_start 1 gw3) (?s AtInit ?n ?c 1)" unfolding start by (rule step) simp
  moreover note step [OF load_init [of ?n ?c]] step [OF part] step [OF load_complete [of ?n c]]
  ultimately have run: "(load_step app_load ''k'' '''')\<^sup>*\<^sup>* (load_start 1 gw3) (?s AtTop ?n c 4)"
    by (meson converse_rtranclp_into_rtranclp rtranclp.rtrancl_refl)
  from load_test_sound [OF this database3(1)] have "owned '''' (database_of_gw gw3) < owned '''' (load_db 4)"
    by (simp add: in_flight_def busy_def)
  with run show ?thesis by (intro exI [of _ "?s AtTop ?n c 4"]) simp
qed

end
